(* ===== verification/Prelude.thy ===== *)
theory Prelude
  imports Complex_Main
begin

section \<open>Prelude: Python values, exceptions, strings and the world\<close>

text \<open>
  What every component shares.

  \<^item> Time and every other Python float are exact rationals: rounding, infinities and NaN are
    not represented. Where the size of a float matters (overflow of \<open>float ** int\<close>) the bound
    is written out in the component.
  \<^item> A Python \<open>str\<close> is a \<open>string\<close>: a list of code points below 256 (Latin-1).
  \<^item> A Python exception is a value of type \<open>exn\<close>: its method resolution order (the list of
    its classes, so that \<open>isinstance\<close> is membership), its \<open>str\<close>, the attributes the
    sources read from it, and its cause.
  \<^item> A callback is a function on a world of any type: it takes the world and returns its
    result (or the exception it raises) with the next world. The clocks, the sleeps and the
    random source are such callbacks.
\<close>

named_theorems exn_simps \<open>classes and attributes of the exceptions the sources raise\<close>

subsection \<open>Exceptions\<close>

datatype pyclass =
    BaseException | KeyboardInterrupt | CancelledError
  | Exception | ArithmeticError | OverflowError | AssertionError | AttributeError
  | LookupError | KeyError | OSError | FileNotFoundError | TimeoutError | AsyncioTimeoutError
  | RuntimeError | NotImplementedError | TypeError | ValueError
  | UnicodeError | UnicodeDecodeError | JSONDecodeError
  | HTTPException
  | CircuitOpenError | TimeoutExceeded | RetriesExhausted | AllTiersFailed
  | OnchainWriteError | TxFailedError | OnchainCircuitOpenError | RetryExhaustedError
  | NonRetryableError
  | IdentifierError | AthenaQueryError | AthenaTimeoutError
  | UserClass string

text \<open>The class hierarchy: built-in classes as in the Python library, the sources' own classes
  with the bases their \<^verbatim>\<open>class\<close> statements name. \<open>Exception\<close> is the base given to a class
  outside the sources.\<close>

fun mro_of :: "pyclass \<Rightarrow> pyclass list" where
  "mro_of BaseException = [BaseException]"
| "mro_of KeyboardInterrupt = [KeyboardInterrupt, BaseException]"
| "mro_of CancelledError = [CancelledError, BaseException]"
| "mro_of Exception = [Exception, BaseException]"
| "mro_of ArithmeticError = [ArithmeticError, Exception, BaseException]"
| "mro_of OverflowError = [OverflowError, ArithmeticError, Exception, BaseException]"
| "mro_of LookupError = [LookupError, Exception, BaseException]"
| "mro_of KeyError = [KeyError, LookupError, Exception, BaseException]"
| "mro_of OSError = [OSError, Exception, BaseException]"
| "mro_of FileNotFoundError = [FileNotFoundError, OSError, Exception, BaseException]"
| "mro_of TimeoutError = [TimeoutError, OSError, Exception, BaseException]"
| "mro_of RuntimeError = [RuntimeError, Exception, BaseException]"
| "mro_of NotImplementedError = [NotImplementedError, RuntimeError, Exception, BaseException]"
| "mro_of ValueError = [ValueError, Exception, BaseException]"
| "mro_of UnicodeError = [UnicodeError, ValueError, Exception, BaseException]"
| "mro_of UnicodeDecodeError =
     [UnicodeDecodeError, UnicodeError, ValueError, Exception, BaseException]"
| "mro_of JSONDecodeError = [JSONDecodeError, ValueError, Exception, BaseException]"
| "mro_of CircuitOpenError = [CircuitOpenError, RuntimeError, Exception, BaseException]"
| "mro_of TimeoutExceeded =
     [TimeoutExceeded, TimeoutError, OSError, Exception, BaseException]"
| "mro_of RetriesExhausted = [RetriesExhausted, RuntimeError, Exception, BaseException]"
| "mro_of AllTiersFailed = [AllTiersFailed, RuntimeError, Exception, BaseException]"
| "mro_of TxFailedError = [TxFailedError, OnchainWriteError, Exception, BaseException]"
| "mro_of OnchainCircuitOpenError =
     [OnchainCircuitOpenError, OnchainWriteError, Exception, BaseException]"
| "mro_of RetryExhaustedError =
     [RetryExhaustedError, OnchainWriteError, Exception, BaseException]"
| "mro_of NonRetryableError = [NonRetryableError, OnchainWriteError, Exception, BaseException]"
| "mro_of IdentifierError = [IdentifierError, ValueError, Exception, BaseException]"
| "mro_of AthenaQueryError = [AthenaQueryError, RuntimeError, Exception, BaseException]"
| "mro_of AthenaTimeoutError =
     [AthenaTimeoutError, TimeoutError, OSError, Exception, BaseException]"
| "mro_of c = [c, Exception, BaseException]"

text \<open>An attribute read with \<^verbatim>\<open>getattr(x, name, None)\<close>: missing (or \<^verbatim>\<open>None\<close>), an integer, or
  any other object.\<close>

datatype attr = Absent | IntAttr int | OtherAttr

text \<open>The attributes the sources look at: \<open>at_response\<close> is the \<^verbatim>\<open>status_code\<close> of
  \<^verbatim>\<open>exc.response\<close> (\<open>None\<close> when there is no response object), \<open>at_status\<close> is
  \<^verbatim>\<open>exc.status_code\<close>, \<open>at_code\<close> the \<^verbatim>\<open>code\<close> of an on-chain error and \<open>at_retry_after\<close> the
  \<^verbatim>\<open>retry_after\<close> of a circuit error.\<close>

record attrs =
  at_response :: "attr option"
  at_status :: attr
  at_code :: "string option"
  at_retry_after :: "rat option"

definition no_attrs :: attrs where
  "no_attrs = \<lparr>at_response = None, at_status = Absent, at_code = None, at_retry_after = None\<rparr>"

datatype exn = Exn (exn_mro: "pyclass list") (exn_str: string) (exn_attrs: attrs)
  (exn_cause: "exn option")

definition isinstance :: "exn \<Rightarrow> pyclass \<Rightarrow> bool" where
  "isinstance e c \<longleftrightarrow> c \<in> set (exn_mro e)"

text \<open>An exception object of a class with a message and no attributes of interest.\<close>

definition mk_exn :: "pyclass \<Rightarrow> string \<Rightarrow> exn" where
  "mk_exn c msg = Exn (mro_of c) msg no_attrs None"

lemma mro_of_self [simp]: "c \<in> set (mro_of c)"
  by (cases c) auto

lemma mro_of_base [simp]: "BaseException \<in> set (mro_of c)"
  by (cases c) auto

lemma isinstance_mk_exn [simp, exn_simps]: "isinstance (mk_exn c msg) d \<longleftrightarrow> d \<in> set (mro_of c)"
  by (simp add: isinstance_def mk_exn_def)

lemma isinstance_Exn [simp, exn_simps]: "isinstance (Exn m s a z) d \<longleftrightarrow> d \<in> set m"
  by (simp add: isinstance_def)

lemma exn_str_mk_exn [simp, exn_simps]: "exn_str (mk_exn c msg) = msg"
  by (simp add: mk_exn_def)

lemma exn_attrs_mk_exn [simp, exn_simps]: "exn_attrs (mk_exn c msg) = no_attrs"
  by (simp add: mk_exn_def)

subsection \<open>Callbacks, clocks\<close>

type_synonym ('w, 'a) callback = "'w \<Rightarrow> (exn + 'a) \<times> 'w"

type_synonym 'w clock = "'w \<Rightarrow> rat \<times> 'w"

text \<open>The injected fake clock of the tests: the world is the time, and reading it does not
  move it.\<close>

definition fake_clock :: "rat clock" where
  "fake_clock t = (t, t)"

lemma fake_clock_simp [simp]: "fake_clock t = (t, t)"
  by (simp add: fake_clock_def)

subsection \<open>Results of type sum\<close>

lemma sum_cases_iff:
  "(case r of Inl e \<Rightarrow> P e | Inr x \<Rightarrow> Q x) \<longleftrightarrow>
     (\<exists>e. r = Inl e \<and> P e) \<or> (\<exists>x. r = Inr x \<and> Q x)"
  by (cases r) auto

lemma snd_eq_iff: "snd p = q \<longleftrightarrow> (\<exists>x. p = (x, q))"
  by (cases p) auto

lemma filter_update_length:
  "i < length xs \<Longrightarrow>
     length (List.filter P (xs[i := x])) + (if P (xs ! i) then 1 else 0) =
     length (List.filter P xs) + (if P x then 1 else 0)"
proof (induction xs arbitrary: i)
  case (Cons y ys)
  then show ?case by (cases i) auto
qed simp

subsection \<open>Overflow of powers\<close>

text \<open>\<^verbatim>\<open>float ** int\<close> raises \<open>OverflowError\<close> when the result rounds to no finite double.\<close>

definition float_limit :: rat where
  "float_limit = 2 ^ 1024 - 2 ^ 970"

definition float_pow :: "rat \<Rightarrow> nat \<Rightarrow> exn + rat" where
  "float_pow m k =
     (if m ^ k < float_limit then Inr (m ^ k)
      else Inl (mk_exn OverflowError
        (''(34, '' @ [CHR 0x27] @ ''Numerical result out of range'' @ [CHR 0x27] @ '')'')))"

text \<open>A float times an integer converts the integer first.\<close>

definition int_as_float :: "int \<Rightarrow> exn + rat" where
  "int_as_float i =
     (if of_int \<bar>i\<bar> < float_limit then Inr (of_int i)
      else Inl (mk_exn OverflowError ''int too large to convert to float''))"

lemma float_limit_pos: "2 ^ 1023 < float_limit"
  by (simp add: float_limit_def)

end
