(* ===== verification/Breaker_Contract.thy ===== *)
theory Breaker_Contract
  imports Prelude
begin

section \<open>The contract of a circuit breaker\<close>

text \<open>
  The repository has two breakers: \<^verbatim>\<open>cubiczan_resilience.circuit.CircuitBreaker\<close> (three
  states) and \<^verbatim>\<open>resilient_onchain.client.CircuitBreaker\<close> (a counter and an opening time). Both
  promise the same to their clients, which this locale states: the failures since the last
  success are counted, calls are admitted while the count is below the limit, and the failure
  that reaches the limit keeps calls out for the hold-off time. \<open>admits t s\<close> is what a call
  asking at time \<open>t\<close> is told; \<open>fail t s\<close> records a failure at time \<open>t\<close>. The lemmas about
  runs of outcomes are proved once here and hold of both.
\<close>

text \<open>A client holds a reference to a breaker: the operations it calls on the world the object
  lives in. \<open>op_guard\<close> raises when calls are not admitted.\<close>

record 'w breaker_ops =
  op_guard :: "('w, unit) callback"
  op_failure :: "'w \<Rightarrow> 'w"
  op_success :: "'w \<Rightarrow> 'w"

locale breaker_contract =
  fixes inv :: "'s \<Rightarrow> bool"
    and fails :: "'s \<Rightarrow> int"
    and limit :: "'s \<Rightarrow> int"
    and holdoff :: "'s \<Rightarrow> rat"
    and admits :: "rat \<Rightarrow> 's \<Rightarrow> bool"
    and fail :: "rat \<Rightarrow> 's \<Rightarrow> 's"
    and succeed :: "'s \<Rightarrow> 's"
  assumes inv_fail: "inv s \<Longrightarrow> inv (fail t s)"
    and inv_succeed: "inv s \<Longrightarrow> inv (succeed s)"
    and limit_fail: "limit (fail t s) = limit s"
    and limit_succeed: "limit (succeed s) = limit s"
    and holdoff_fail: "holdoff (fail t s) = holdoff s"
    and fails_succeed: "fails (succeed s) = 0"
    and fails_fail: "inv s \<Longrightarrow> fails s < limit s \<Longrightarrow> fails (fail t s) = fails s + 1"
    and fails_fail_tripped: "inv s \<Longrightarrow> limit s \<le> fails s \<Longrightarrow> limit s \<le> fails (fail t s)"
    and admits_below: "inv s \<Longrightarrow> fails s < limit s \<Longrightarrow> admits t s"
    and denies_tripped:
      "inv s \<Longrightarrow> limit s \<le> fails s + 1 \<Longrightarrow> t' - t < holdoff s \<Longrightarrow> \<not> admits t' (fail t s)"
begin

lemma inv_fail_many: "inv s \<Longrightarrow> inv (fold fail ts s)"
  by (induction ts arbitrary: s) (auto simp: inv_fail)

lemma limit_fail_many [simp]: "limit (fold fail ts s) = limit s"
  by (induction ts arbitrary: s) (auto simp: limit_fail)

lemma holdoff_fail_many [simp]: "holdoff (fold fail ts s) = holdoff s"
  by (induction ts arbitrary: s) (auto simp: holdoff_fail)

lemma fails_below:
  "inv s \<Longrightarrow> fails s + int (length ts) \<le> limit s \<Longrightarrow>
     fails (fold fail ts s) = fails s + int (length ts)"
  by (induction ts arbitrary: s) (auto simp: inv_fail fails_fail limit_fail)

lemma fails_tripped: "inv s \<Longrightarrow> limit s \<le> fails s \<Longrightarrow> limit s \<le> fails (fold fail ts s)"
proof (induction ts arbitrary: s)
  case (Cons t ts)
  then show ?case
    using Cons.IH [of "fail t s"] by (simp add: inv_fail limit_fail fails_fail_tripped)
qed simp

lemma fails_reach:
  assumes "inv s" and "limit s \<le> fails s + int (length ts)"
  shows "limit s \<le> fails (fold fail ts s)"
  using assms
proof (induction ts arbitrary: s)
  case (Cons t ts)
  show ?case
  proof (cases "fails s < limit s")
    case True
    with Cons show ?thesis
      using Cons.IH [of "fail t s"] by (simp add: inv_fail limit_fail fails_fail)
  next
    case False
    with Cons.prems show ?thesis using fails_tripped [of s "t # ts"] by simp
  qed
qed simp

text \<open>A run of failures that reaches the limit shuts the breaker for the hold-off time,
  counted from the last failure of the run.\<close>

lemma opens_after_burst:
  assumes "inv s" and "limit s \<le> fails s + int (length ts)" and "ts \<noteq> []"
    and "t' < last ts + holdoff s"
  shows "\<not> admits t' (fold fail ts s)"
proof -
  obtain us u where ts: "ts = us @ [u]"
    using assms(3) by (metis append_butlast_last_id)
  let ?s = "fold fail us s"
  have len: "fails s + int (length us) + 1 = fails s + int (length ts)"
    by (simp add: ts)
  have "limit s \<le> fails ?s + 1"
  proof (cases "limit s \<le> fails s + int (length us)")
    case True
    then show ?thesis using fails_reach [OF assms(1), of us] by simp
  next
    case False
    then show ?thesis using fails_below [OF assms(1), of us] assms(2) len by simp
  qed
  then have "\<not> admits t' (fail u ?s)"
    using assms(4) ts by (intro denies_tripped) (auto simp: inv_fail_many assms(1))
  then show ?thesis by (simp add: ts)
qed

text \<open>A success wipes the count: as many failures as the limit less one are needed again before
  a call is refused.\<close>

lemma success_forgets:
  assumes "inv s" and "int (length ts) < limit s"
  shows "admits t (fold fail ts (succeed s))"
proof (rule admits_below)
  show "inv (fold fail ts (succeed s))" by (simp add: inv_fail_many inv_succeed assms(1))
  show "fails (fold fail ts (succeed s)) < limit (fold fail ts (succeed s))"
    using assms fails_below [of "succeed s" ts]
    by (simp add: inv_succeed limit_succeed fails_succeed)
qed

end

end
