(* ===== verification/Py_String.thy ===== *)
theory Py_String
  imports Prelude
begin

section \<open>The string operations the sources use\<close>

text \<open>
  Python's \<^verbatim>\<open>str\<close> methods on strings of code points below 256: \<^verbatim>\<open>lower\<close>, \<^verbatim>\<open>in\<close>,
  \<^verbatim>\<open>strip\<close>, \<^verbatim>\<open>splitlines\<close>, \<^verbatim>\<open>join\<close>, \<^verbatim>\<open>repr\<close>, and the decimal forms of numbers that
  the messages of exceptions use.
\<close>

definition py_lower_char :: "char \<Rightarrow> char" where
  "py_lower_char c =
     (let n = (of_char c :: nat) in
      if 65 \<le> n \<and> n \<le> 90 \<or> 192 \<le> n \<and> n \<le> 222 \<and> n \<noteq> 215 then char_of (n + 32) else c)"

definition py_lower :: "string \<Rightarrow> string" where
  "py_lower = List.map py_lower_char"

text \<open>\<^verbatim>\<open>pat in s\<close>.\<close>

fun starts_with :: "string \<Rightarrow> string \<Rightarrow> bool" where
  "starts_with [] s = True"
| "starts_with (p # ps) [] = False"
| "starts_with (p # ps) (c # cs) = (p = c \<and> starts_with ps cs)"

fun occurs_in :: "string \<Rightarrow> string \<Rightarrow> bool" where
  "occurs_in pat [] = (pat = [])"
| "occurs_in pat (c # cs) = (starts_with pat (c # cs) \<or> occurs_in pat cs)"

lemma starts_with_set: "starts_with pat s \<Longrightarrow> set pat \<subseteq> set s"
  by (induction pat s rule: starts_with.induct) auto

lemma occurs_in_set: "occurs_in pat s \<Longrightarrow> set pat \<subseteq> set s"
proof (induction pat s rule: occurs_in.induct)
  case (2 pat c cs)
  then show ?case using starts_with_set [of pat "c # cs"] by auto
qed simp

text \<open>White space of \<^verbatim>\<open>str.strip\<close> and line boundaries of \<^verbatim>\<open>str.splitlines\<close>.\<close>

definition is_space :: "char \<Rightarrow> bool" where
  "is_space c =
     (let n = (of_char c :: nat) in 9 \<le> n \<and> n \<le> 13 \<or> 28 \<le> n \<and> n \<le> 32 \<or> n = 133 \<or> n = 160)"

definition py_strip :: "string \<Rightarrow> string" where
  "py_strip s = rev (dropWhile is_space (rev (dropWhile is_space s)))"

lemma py_strip_empty: "py_strip s = [] \<longleftrightarrow> (\<forall>c \<in> set s. is_space c)"
proof (cases "\<forall>c \<in> set s. is_space c")
  case True
  then have "dropWhile is_space s = []" by simp
  with True show ?thesis unfolding py_strip_def by (simp del: dropWhile_eq_Nil_conv)
next
  case False
  then have ne: "dropWhile is_space s \<noteq> []" by (simp add: dropWhile_eq_Nil_conv)
  then have "\<not> is_space (hd (dropWhile is_space s))" by (rule hd_dropWhile)
  moreover have "hd (dropWhile is_space s) \<in> set (dropWhile is_space s)" using ne by (rule hd_in_set)
  ultimately have "dropWhile is_space (rev (dropWhile is_space s)) \<noteq> []"
    by (auto simp: dropWhile_eq_Nil_conv)
  with False show ?thesis by (auto simp: py_strip_def)
qed

definition is_linebreak :: "char \<Rightarrow> bool" where
  "is_linebreak c =
     (let n = (of_char c :: nat) in 10 \<le> n \<and> n \<le> 13 \<or> 28 \<le> n \<and> n \<le> 30 \<or> n = 133)"

text \<open>\<open>splitlines_acc\<close> carries the current line; a carriage return with a newline after it is one
  boundary, and the last line needs no boundary.\<close>

fun splitlines_acc :: "string \<Rightarrow> string \<Rightarrow> string list" where
  "splitlines_acc line [] = (if line = [] then [] else [line])"
| "splitlines_acc line (c # cs) =
     (if c = CHR 0x0D then
        line # (case cs of
                  d # ds \<Rightarrow> if d = CHR 0x0A then splitlines_acc [] ds else splitlines_acc [] cs
                | [] \<Rightarrow> [])
      else if is_linebreak c then line # splitlines_acc [] cs
      else splitlines_acc (line @ [c]) cs)"

definition splitlines :: "string \<Rightarrow> string list" where
  "splitlines s = splitlines_acc [] s"

lemma splitlines_acc_line:
  "\<forall>c \<in> set l. \<not> is_linebreak c \<Longrightarrow>
     splitlines_acc line (l @ CHR 0x0A # s) = (line @ l) # splitlines_acc [] s"
  by (induction l arbitrary: line) (auto simp: is_linebreak_def)

lemma splitlines_line:
  "\<forall>c \<in> set l. \<not> is_linebreak c \<Longrightarrow> splitlines (l @ CHR 0x0A # s) = l # splitlines s"
  by (simp add: splitlines_def splitlines_acc_line)

lemma splitlines_Nil [simp]: "splitlines [] = []"
  by (simp add: splitlines_def)

lemma splitlines_single:
  assumes "\<forall>c \<in> set l. \<not> is_linebreak c" and "l \<noteq> []"
  shows "splitlines l = [l]"
proof -
  have "splitlines_acc line l = (if line @ l = [] then [] else [line @ l])" for line
    using assms(1) by (induction l arbitrary: line) (auto simp: is_linebreak_def)
  with assms(2) show ?thesis by (simp add: splitlines_def)
qed

text \<open>\<^verbatim>\<open>sep.join(xs)\<close>.\<close>

fun py_join :: "string \<Rightarrow> string list \<Rightarrow> string" where
  "py_join sep [] = []"
| "py_join sep [x] = x"
| "py_join sep (x # y # ys) = x @ sep @ py_join sep (y # ys)"

text \<open>\<^verbatim>\<open>str(n)\<close> of an integer.\<close>

definition digit_char :: "nat \<Rightarrow> char" where
  "digit_char d = char_of (48 + d)"

fun nat_str :: "nat \<Rightarrow> string" where
  "nat_str n = (if n < 10 then [digit_char n] else nat_str (n div 10) @ [digit_char (n mod 10)])"

declare nat_str.simps [simp del]

definition int_str :: "int \<Rightarrow> string" where
  "int_str i = (if i < 0 then CHR 0x2D # nat_str (nat (- i)) else nat_str (nat i))"

definition is_digit :: "char \<Rightarrow> bool" where
  "is_digit c = (let n = (of_char c :: nat) in 48 \<le> n \<and> n \<le> 57)"

text \<open>A digit of a hexadecimal escape or digest.\<close>

definition hex_digit :: "nat \<Rightarrow> char" where
  "hex_digit n = (if n < 10 then char_of (48 + n) else char_of (87 + n))"

text \<open>\<^verbatim>\<open>repr(s)\<close> of a string: double quotes when it holds a single quote and no double one;
  control characters, the no-break space and the soft hyphen are escaped.\<close>

definition repr_char :: "char \<Rightarrow> char \<Rightarrow> string" where
  "repr_char q c =
     (let n = (of_char c :: nat) in
      if c = q \<or> c = CHR 0x5C then [CHR 0x5C, c]
      else if n = 9 then [CHR 0x5C, CHR ''t'']
      else if n = 10 then [CHR 0x5C, CHR ''n'']
      else if n = 13 then [CHR 0x5C, CHR ''r'']
      else if n < 32 \<or> 127 \<le> n \<and> n \<le> 160 \<or> n = 173
        then [CHR 0x5C, CHR ''x'', hex_digit (n div 16), hex_digit (n mod 16)]
      else [c])"

definition py_repr :: "string \<Rightarrow> string" where
  "py_repr s =
     (let q = (if CHR 0x27 \<in> set s \<and> CHR 0x22 \<notin> set s then CHR 0x22 else CHR 0x27) in
      [q] @ concat (List.map (repr_char q) s) @ [q])"

text \<open>\<^verbatim>\<open>round(x)\<close>: to the nearest integer, halves to the even one.\<close>

definition py_round :: "rat \<Rightarrow> int" where
  "py_round x =
     (let f = floor x; d = x - of_int f in
      if d < 1 / 2 then f else if d > 1 / 2 then f + 1 else if even f then f else f + 1)"

text \<open>The format specification \<^verbatim>\<open>.nf\<close>: \<open>n\<close> digits after the point, correctly rounded.\<close>

definition py_fixed :: "nat \<Rightarrow> rat \<Rightarrow> string" where
  "py_fixed n x =
     (let m = nat (py_round (abs x * 10 ^ n)); frac = nat_str (m mod 10 ^ n) in
      (if x < 0 then ''-'' else []) @ nat_str (m div 10 ^ n) @ ''.'' @
      replicate (n - length frac) (CHR ''0'') @ frac)"

lemma of_char_digit: "d < 10 \<Longrightarrow> of_char (digit_char d) = 48 + d"
  by (simp add: digit_char_def)

lemma is_digit_char: "d < 10 \<Longrightarrow> is_digit (digit_char d)"
  by (simp add: is_digit_def of_char_digit)

lemma nat_str_digits: "\<forall>c \<in> set (nat_str n). is_digit c"
proof (induction n rule: nat_str.induct)
  case (1 n)
  then show ?case by (subst nat_str.simps) (auto simp: is_digit_char)
qed

lemma nat_str_nonempty [simp]: "nat_str n \<noteq> []"
  by (subst nat_str.simps) simp

lemma int_str_chars: "c \<in> set (int_str i) \<Longrightarrow> is_digit c \<or> c = CHR 0x2D"
  using nat_str_digits by (auto simp: int_str_def split: if_splits)

end
