(* ===== verification/Circuit.thy ===== *)
theory Circuit
  imports Breaker_Contract Py_String
begin

section \<open>The in-memory circuit breaker\<close>

text \<open>
  Models \<^verbatim>\<open>python/src/cubiczan_resilience/circuit.py\<close>: \<open>breaker\<close> is the state of a
  \<^verbatim>\<open>CircuitBreaker\<close> object, and there is one definition per method. A method body runs under
  the object's lock, so one method call is one atomic step, and the calls of several threads
  are a sequence of steps; \<^verbatim>\<open>guard\<close> takes the lock twice (\<^verbatim>\<open>allow\<close>, then \<^verbatim>\<open>retry_after\<close>)
  and its two steps may be separated by others. A method reads the clock exactly where
  the code does.
\<close>

subsection \<open>State and operations\<close>

datatype circuit_state = CLOSED | OPEN | HALF_OPEN

record breaker =
  cb_name :: string
  cb_failure_threshold :: int
  cb_cooldown :: rat
  cb_half_open_max :: int
  cb_state :: circuit_state
  cb_failure_count :: int
  cb_opened_at :: "rat option"
  cb_half_open_calls :: int

text \<open>\<^verbatim>\<open>CircuitBreaker.__init__\<close>.\<close>

definition new_breaker :: "string \<Rightarrow> int \<Rightarrow> rat \<Rightarrow> int \<Rightarrow> exn + breaker" where
  "new_breaker name failure_threshold cooldown_seconds half_open_max_calls =
     (if failure_threshold < 1 then Inl (mk_exn ValueError ''failure_threshold must be >= 1'')
      else if cooldown_seconds < 0 then Inl (mk_exn ValueError ''cooldown_seconds must be >= 0'')
      else if half_open_max_calls < 1
        then Inl (mk_exn ValueError ''half_open_max_calls must be >= 1'')
      else Inr \<lparr>cb_name = name, cb_failure_threshold = failure_threshold,
                cb_cooldown = cooldown_seconds, cb_half_open_max = half_open_max_calls,
                cb_state = CLOSED, cb_failure_count = 0, cb_opened_at = None,
                cb_half_open_calls = 0\<rparr>)"

text \<open>\<^verbatim>\<open>_maybe_half_open\<close>: the clock is read only in state OPEN with a recorded opening time.\<close>

definition maybe_half_open :: "'w clock \<Rightarrow> breaker \<Rightarrow> 'w \<Rightarrow> breaker \<times> 'w" where
  "maybe_half_open clock cb w =
     (case cb_opened_at cb of
        Some t0 \<Rightarrow>
          (if cb_state cb = OPEN then
             (let (t, w') = clock w in
              if t - t0 \<ge> cb_cooldown cb
              then (cb\<lparr>cb_state := HALF_OPEN, cb_half_open_calls := 0\<rparr>, w')
              else (cb, w'))
           else (cb, w))
      | None \<Rightarrow> (cb, w))"

text \<open>The \<^verbatim>\<open>state\<close> and \<^verbatim>\<open>failure_count\<close> properties.\<close>

definition read_state :: "'w clock \<Rightarrow> breaker \<Rightarrow> 'w \<Rightarrow> circuit_state \<times> breaker \<times> 'w" where
  "read_state clock cb w =
     (let (cb', w') = maybe_half_open clock cb w in (cb_state cb', cb', w'))"

definition read_failure_count :: "breaker \<Rightarrow> int" where
  "read_failure_count cb = cb_failure_count cb"

definition allow :: "'w clock \<Rightarrow> breaker \<Rightarrow> 'w \<Rightarrow> bool \<times> breaker \<times> 'w" where
  "allow clock cb w =
     (let (cb1, w1) = maybe_half_open clock cb w in
      case cb_state cb1 of
        OPEN \<Rightarrow> (False, cb1, w1)
      | HALF_OPEN \<Rightarrow>
          (if cb_half_open_calls cb1 \<ge> cb_half_open_max cb1 then (False, cb1, w1)
           else (True, cb1\<lparr>cb_half_open_calls := cb_half_open_calls cb1 + 1\<rparr>, w1))
      | CLOSED \<Rightarrow> (True, cb1, w1))"

definition retry_after :: "'w clock \<Rightarrow> breaker \<Rightarrow> 'w \<Rightarrow> rat \<times> breaker \<times> 'w" where
  "retry_after clock cb w =
     (let (cb1, w1) = maybe_half_open clock cb w in
      case cb_opened_at cb1 of
        None \<Rightarrow> (0, cb1, w1)
      | Some t0 \<Rightarrow>
          (if cb_state cb1 \<noteq> OPEN then (0, cb1, w1)
           else (let (t, w2) = clock w1 in (max 0 (cb_cooldown cb1 - (t - t0)), cb1, w2))))"

definition record_success :: "breaker \<Rightarrow> breaker" where
  "record_success cb =
     cb\<lparr>cb_failure_count := 0, cb_half_open_calls := 0, cb_opened_at := None,
        cb_state := CLOSED\<rparr>"

definition trip_open :: "'w clock \<Rightarrow> breaker \<Rightarrow> 'w \<Rightarrow> breaker \<times> 'w" where
  "trip_open clock cb w =
     (let (t, w') = clock w in
      (cb\<lparr>cb_state := OPEN, cb_opened_at := Some t, cb_half_open_calls := 0\<rparr>, w'))"

definition record_failure :: "'w clock \<Rightarrow> breaker \<Rightarrow> 'w \<Rightarrow> breaker \<times> 'w" where
  "record_failure clock cb w =
     (if cb_state cb = HALF_OPEN then trip_open clock cb w
      else let cb1 = cb\<lparr>cb_failure_count := cb_failure_count cb + 1\<rparr> in
        if cb_failure_count cb1 \<ge> cb_failure_threshold cb1 then trip_open clock cb1 w
        else (cb1, w))"

definition reset :: "breaker \<Rightarrow> breaker" where
  "reset cb =
     cb\<lparr>cb_state := CLOSED, cb_failure_count := 0, cb_opened_at := None,
        cb_half_open_calls := 0\<rparr>"

text \<open>\<^verbatim>\<open>CircuitOpenError(name, retry_after)\<close>.\<close>

definition circuit_open_error :: "string \<Rightarrow> rat \<Rightarrow> exn" where
  "circuit_open_error name after =
     Exn (mro_of CircuitOpenError)
       (''circuit '' @ [CHR 0x27] @ name @ [CHR 0x27] @ '' is OPEN; retry in '' @ py_fixed 2 after @ ''s'')
       (no_attrs\<lparr>at_retry_after := Some after\<rparr>) None"

definition guard :: "'w clock \<Rightarrow> breaker \<Rightarrow> 'w \<Rightarrow> (exn + unit) \<times> breaker \<times> 'w" where
  "guard clock cb w =
     (case allow clock cb w of
        (True, cb1, w1) \<Rightarrow> (Inr (), cb1, w1)
      | (False, cb1, w1) \<Rightarrow>
          (case retry_after clock cb1 w1 of
             (after, cb2, w2) \<Rightarrow> (Inl (circuit_open_error (cb_name cb2) after), cb2, w2)))"

lemma circuit_open_error_class [simp, exn_simps]:
  "isinstance (circuit_open_error n a) c \<longleftrightarrow>
     c \<in> {CircuitOpenError, RuntimeError, Exception, BaseException}"
  by (simp add: circuit_open_error_def)

subsection \<open>The invariant of the object\<close>

text \<open>What the fields keep true of each other: \<open>CLOSED\<close> is exactly "no opening time" and exactly
  "fewer failures than the threshold", and trial slots are taken in \<open>HALF_OPEN\<close> only, never
  more than the configured number.\<close>

definition cb_inv :: "breaker \<Rightarrow> bool" where
  "cb_inv cb \<longleftrightarrow>
     1 \<le> cb_failure_threshold cb \<and> 0 \<le> cb_cooldown cb \<and> 1 \<le> cb_half_open_max cb \<and>
     0 \<le> cb_failure_count cb \<and> 0 \<le> cb_half_open_calls cb \<and>
     cb_half_open_calls cb \<le> cb_half_open_max cb \<and>
     (cb_state cb = CLOSED \<longleftrightarrow> cb_opened_at cb = None) \<and>
     (cb_state cb = CLOSED \<longleftrightarrow> cb_failure_count cb < cb_failure_threshold cb) \<and>
     (cb_state cb \<noteq> HALF_OPEN \<longrightarrow> cb_half_open_calls cb = 0)"

lemma cb_inv_new: "new_breaker n f c h = Inr cb \<Longrightarrow> cb_inv cb"
  by (auto simp: new_breaker_def cb_inv_def split: if_splits)

text \<open>The calls a client makes, and the step each is (its answer left out).\<close>

datatype cb_op = StateRead | Allow | RetryAfter | Success | Failure | Reset

fun cb_step :: "'w clock \<Rightarrow> cb_op \<Rightarrow> breaker \<Rightarrow> 'w \<Rightarrow> breaker \<times> 'w" where
  "cb_step clock StateRead cb w = snd (read_state clock cb w)"
| "cb_step clock Allow cb w = snd (allow clock cb w)"
| "cb_step clock RetryAfter cb w = snd (retry_after clock cb w)"
| "cb_step clock Success cb w = (record_success cb, w)"
| "cb_step clock Failure cb w = record_failure clock cb w"
| "cb_step clock Reset cb w = (reset cb, w)"

lemmas cb_op_defs = maybe_half_open_def read_state_def allow_def retry_after_def
  record_success_def record_failure_def trip_open_def reset_def Let_def

lemma maybe_half_open_inv:
  "cb_inv cb \<Longrightarrow> maybe_half_open clock cb w = (cb', w') \<Longrightarrow> cb_inv cb'"
  by (auto simp: cb_inv_def maybe_half_open_def Let_def split: option.splits if_splits prod.splits)

lemma allow_inv: "cb_inv cb \<Longrightarrow> allow clock cb w = (b, cb', w') \<Longrightarrow> cb_inv cb'"
  using maybe_half_open_inv [of cb clock w]
  by (auto simp: allow_def Let_def cb_inv_def split: prod.splits circuit_state.splits if_splits)

lemma retry_after_inv: "cb_inv cb \<Longrightarrow> retry_after clock cb w = (r, cb', w') \<Longrightarrow> cb_inv cb'"
  using maybe_half_open_inv [of cb clock w]
  by (auto simp: retry_after_def Let_def split: prod.splits option.splits if_splits)

lemma record_success_inv: "cb_inv cb \<Longrightarrow> cb_inv (record_success cb)"
  by (auto simp: cb_inv_def record_success_def)

lemma record_failure_inv:
  "cb_inv cb \<Longrightarrow> record_failure clock cb w = (cb', w') \<Longrightarrow> cb_inv cb'"
  by (cases "cb_state cb")
    (auto simp: cb_inv_def record_failure_def trip_open_def Let_def split: if_splits prod.splits)

lemma reset_inv: "cb_inv cb \<Longrightarrow> cb_inv (reset cb)"
  by (auto simp: cb_inv_def reset_def)

lemma cb_step_inv: "cb_inv cb \<Longrightarrow> cb_step clock op cb w = (cb', w') \<Longrightarrow> cb_inv cb'"
  by (cases op)
    (auto simp: read_state_def Let_def record_success_inv reset_inv snd_eq_iff
      split: prod.splits dest: maybe_half_open_inv allow_inv retry_after_inv record_failure_inv)

text \<open>Reachable objects: any sequence of calls, by any number of threads, the world moving in any
  way between two calls.\<close>

inductive cb_reachable :: "'w clock \<Rightarrow> breaker \<Rightarrow> bool" for clock :: "'w clock" where
  created: "new_breaker n f c h = Inr cb \<Longrightarrow> cb_reachable clock cb"
| called: "cb_reachable clock cb \<Longrightarrow> cb_step clock op cb w = (cb', w') \<Longrightarrow>
     cb_reachable clock cb'"

lemma cb_reachable_inv: "cb_reachable clock cb \<Longrightarrow> cb_inv cb"
  by (induction rule: cb_reachable.induct) (auto dest: cb_inv_new cb_step_inv)

subsection \<open>Interface: the contract of a breaker\<close>

text \<open>The breaker under the injected clock, one call at a time: \<open>fails\<close> is the failure counter.\<close>

definition admits_at :: "rat \<Rightarrow> breaker \<Rightarrow> bool" where
  "admits_at t cb = fst (allow fake_clock cb t)"

definition fail_at :: "rat \<Rightarrow> breaker \<Rightarrow> breaker" where
  "fail_at t cb = fst (record_failure fake_clock cb t)"

lemma fail_at_simps [simp]:
  "cb_failure_threshold (fail_at t cb) = cb_failure_threshold cb"
  "cb_cooldown (fail_at t cb) = cb_cooldown cb"
  "cb_half_open_max (fail_at t cb) = cb_half_open_max cb"
  by (auto simp: fail_at_def record_failure_def trip_open_def Let_def)

lemma fail_at_inv: "cb_inv cb \<Longrightarrow> cb_inv (fail_at t cb)"
  using record_failure_inv [of cb fake_clock t "fail_at t cb" "snd (record_failure fake_clock cb t)"]
  by (simp add: fail_at_def)

interpretation core: breaker_contract cb_inv cb_failure_count cb_failure_threshold cb_cooldown
    admits_at fail_at record_success
proof (unfold_locales, goal_cases)
  case (1 s t)
  then show ?case by (rule fail_at_inv)
next
  case (2 s)
  then show ?case by (rule record_success_inv)
next
  case (7 s t)
  then show ?case
    by (cases "cb_state s") (auto simp: fail_at_def record_failure_def trip_open_def cb_inv_def Let_def)
next
  case (8 s t)
  then show ?case
    by (cases "cb_state s") (auto simp: fail_at_def record_failure_def trip_open_def cb_inv_def Let_def)
next
  case (9 s t)
  then have "cb_state s = CLOSED" by (auto simp: cb_inv_def)
  then show ?case
    by (auto simp: admits_at_def allow_def maybe_half_open_def Let_def split: option.splits)
next
  case (10 s t' t)
  then have "cb_state (fail_at t s) = OPEN \<and> cb_opened_at (fail_at t s) = Some t"
    by (cases "cb_state s") (auto simp: fail_at_def record_failure_def trip_open_def cb_inv_def Let_def)
  with 10 show ?case
    by (auto simp: admits_at_def allow_def maybe_half_open_def Let_def)
qed (simp_all add: record_success_def)

subsection \<open>The state machine\<close>

text \<open>The edges the module's documentation draws: the state before, the call, the state after.
  \<open>reached\<close> says that one more failure reaches the threshold, \<open>elapsed\<close> that the cooldown is
  over.\<close>

inductive doc_edge :: "bool \<Rightarrow> bool \<Rightarrow> circuit_state \<Rightarrow> cb_op \<Rightarrow> circuit_state \<Rightarrow> bool"
  for reached elapsed :: bool where
  threshold_reached: "reached \<Longrightarrow> doc_edge reached elapsed CLOSED Failure OPEN"
| cooldown_elapsed: "elapsed \<Longrightarrow> op \<in> {StateRead, Allow, RetryAfter} \<Longrightarrow>
     doc_edge reached elapsed OPEN op HALF_OPEN"
| trial_success: "doc_edge reached elapsed HALF_OPEN Success CLOSED"
| trial_failure: "doc_edge reached elapsed HALF_OPEN Failure OPEN"
| forced: "doc_edge reached elapsed s Reset CLOSED"

inductive_simps doc_edge_simps [simp]: "doc_edge reached elapsed s op t"

definition reaches :: "breaker \<Rightarrow> bool" where
  "reaches cb \<longleftrightarrow> cb_failure_threshold cb \<le> cb_failure_count cb + 1"

definition cooled :: "'w clock \<Rightarrow> breaker \<Rightarrow> 'w \<Rightarrow> bool" where
  "cooled clock cb w =
     (case cb_opened_at cb of None \<Rightarrow> False | Some t0 \<Rightarrow> cb_cooldown cb \<le> fst (clock w) - t0)"

lemma maybe_half_open_state:
  "maybe_half_open clock cb w = (cb', w') \<Longrightarrow>
     cb_state cb' = cb_state cb \<or>
     cooled clock cb w \<and> cb_state cb = OPEN \<and> cb_state cb' = HALF_OPEN"
  by (auto simp: maybe_half_open_def cooled_def Let_def split: option.splits if_splits prod.splits)

lemma cb_step_edges:
  assumes "cb_step clock op cb w = (cb', w')"
  shows "cb_state cb' = cb_state cb \<or>
     doc_edge (reaches cb) (cooled clock cb w) (cb_state cb) op (cb_state cb') \<or>
     cb_state cb = OPEN \<and> op = Success \<and> cb_state cb' = CLOSED"
proof (cases op)
  case Failure
  with assms show ?thesis
    by (cases "cb_state cb")
      (auto simp: record_failure_def trip_open_def reaches_def Let_def split: if_splits prod.splits)
next
  case Success
  with assms show ?thesis by (cases "cb_state cb") (auto simp: record_success_def)
next
  case Reset
  with assms show ?thesis by (auto simp: reset_def)
next
  case StateRead
  with assms show ?thesis
    using maybe_half_open_state [of clock cb w] by (auto simp: read_state_def Let_def split: prod.splits)
next
  case Allow
  with assms show ?thesis
    using maybe_half_open_state [of clock cb w]
    by (auto simp: allow_def Let_def split: prod.splits circuit_state.splits if_splits)
next
  case RetryAfter
  with assms show ?thesis
    using maybe_half_open_state [of clock cb w]
    by (auto simp: retry_after_def Let_def split: prod.splits option.splits if_splits)
qed

subsection \<open>Trial slots\<close>

text \<open>\<open>admissions\<close> counts the calls that are let through in a sequence of calls, each made in
  its own world. \<open>slots_left\<close> is how many trial calls the object can still grant before an
  outcome is recorded.\<close>

fun admissions :: "'w clock \<Rightarrow> (cb_op \<times> 'w) list \<Rightarrow> breaker \<Rightarrow> nat" where
  "admissions clock [] cb = 0"
| "admissions clock ((op, w) # calls) cb =
     (if op = Allow \<and> fst (allow clock cb w) then 1 else 0) +
     admissions clock calls (fst (cb_step clock op cb w))"

definition query :: "cb_op \<Rightarrow> bool" where
  "query op \<longleftrightarrow> op \<in> {StateRead, Allow, RetryAfter}"

definition slots_left :: "breaker \<Rightarrow> int" where
  "slots_left cb =
     (if cb_state cb = HALF_OPEN then cb_half_open_max cb - cb_half_open_calls cb
      else cb_half_open_max cb)"

lemma slots_left_nonneg: "cb_inv cb \<Longrightarrow> 0 \<le> slots_left cb"
  by (auto simp: slots_left_def cb_inv_def)

lemma maybe_half_open_slots:
  "maybe_half_open clock cb w = (cb', w') \<Longrightarrow> cb_state cb \<noteq> CLOSED \<Longrightarrow>
     cb_state cb' \<noteq> CLOSED \<and> slots_left cb' = slots_left cb"
  by (auto simp: maybe_half_open_def slots_left_def Let_def
      split: option.splits if_splits prod.splits)

lemma query_slots:
  assumes "query op" and "cb_state cb \<noteq> CLOSED"
  shows "cb_state (fst (cb_step clock op cb w)) \<noteq> CLOSED \<and>
    slots_left (fst (cb_step clock op cb w)) =
      slots_left cb - (if op = Allow \<and> fst (allow clock cb w) then 1 else 0)"
proof -
  obtain cb1 w1 where m: "maybe_half_open clock cb w = (cb1, w1)" by fastforce
  note s = maybe_half_open_slots [OF m assms(2)]
  show ?thesis
    using assms(1) s
    by (cases op)
      (auto simp: query_def read_state_def allow_def retry_after_def m slots_left_def Let_def
        split: circuit_state.splits option.splits prod.splits)
qed

lemma admissions_bound:
  assumes "cb_inv cb" and "cb_state cb \<noteq> CLOSED" and "\<forall>(op, w) \<in> set calls. query op"
  shows "int (admissions clock calls cb) \<le> slots_left cb"
  using assms
proof (induction calls arbitrary: cb)
  case Nil
  then show ?case by (simp add: slots_left_nonneg)
next
  case (Cons c calls)
  obtain op w where c: "c = (op, w)" by fastforce
  let ?cb = "fst (cb_step clock op cb w)"
  have q: "query op" using Cons.prems(3) by (simp add: c)
  have "cb_inv ?cb"
    using cb_step_inv [OF Cons.prems(1), of clock op w ?cb "snd (cb_step clock op cb w)"] by simp
  moreover note query_slots [OF q Cons.prems(2), of clock w]
  ultimately show ?case
    using Cons.IH [of ?cb] Cons.prems(3) by (auto simp: c split: if_splits)
qed

subsection \<open>Consecutive failures\<close>

text \<open>A history of calls by any number of threads, each made in its own world, run on an object.\<close>

definition run_calls :: "'w clock \<Rightarrow> (cb_op \<times> 'w) list \<Rightarrow> breaker \<Rightarrow> breaker" where
  "run_calls clock calls cb = fold (\<lambda>(op, w) cb. fst (cb_step clock op cb w)) calls cb"

lemma run_calls_simps [simp]:
  "run_calls clock [] cb = cb"
  "run_calls clock (calls @ [(op, w)]) cb = fst (cb_step clock op (run_calls clock calls cb) w)"
  by (simp_all add: run_calls_def)

text \<open>Specification of the counter: the failures reported since the last success or reset, whatever
  queries came in between.\<close>

definition trailing_failures :: "(cb_op \<times> 'w) list \<Rightarrow> nat" where
  "trailing_failures calls =
     length (List.filter (\<lambda>(op, w). op = Failure) (takeWhile (\<lambda>(op, w). op \<notin> {Success, Reset}) (rev calls)))"

lemma trailing_failures_simps [simp]:
  "trailing_failures [] = 0"
  "trailing_failures (calls @ [(op, w)]) =
     (if op \<in> {Success, Reset} then 0
      else trailing_failures calls + (if op = Failure then 1 else 0))"
  by (auto simp: trailing_failures_def)

text \<open>Specification of the open circuit: \<open>tripped_by\<close> is a failure after which there were only
  queries; the circuit is half open once one of them found the cooldown counted from that failure
  over.\<close>

definition tripped_by :: "'w clock \<Rightarrow> (cb_op \<times> 'w) list \<Rightarrow> rat \<Rightarrow> (cb_op \<times> 'w) list \<Rightarrow> bool" where
  "tripped_by clock calls t0 post \<longleftrightarrow>
     (\<exists>pre w. calls = pre @ (Failure, w) # post \<and> t0 = fst (clock w)) \<and> (\<forall>(op, v) \<in> set post. query op)"

lemma query_closed:
  assumes "query op" and "cb_state cb = CLOSED" and "cb_opened_at cb = None"
  shows "fst (cb_step clock op cb w) = cb"
  using assms by (cases op)
    (auto simp: query_def read_state_def allow_def retry_after_def maybe_half_open_def)

lemma query_open:
  assumes "query op" and "cb_state cb \<noteq> CLOSED" and "cb_opened_at cb = Some t0"
  shows "cb_state (fst (cb_step clock op cb w)) =
      (if cb_state cb = HALF_OPEN \<or> cb_cooldown cb \<le> fst (clock w) - t0 then HALF_OPEN else OPEN) \<and>
    cb_opened_at (fst (cb_step clock op cb w)) = Some t0 \<and>
    cb_failure_count (fst (cb_step clock op cb w)) = cb_failure_count cb"
  using assms by (cases op; cases "cb_state cb")
    (auto simp: query_def read_state_def allow_def retry_after_def maybe_half_open_def Let_def
      split: prod.splits)

lemma cb_step_config:
  "cb_failure_threshold (fst (cb_step clock op cb w)) = cb_failure_threshold cb \<and>
   cb_cooldown (fst (cb_step clock op cb w)) = cb_cooldown cb \<and>
   cb_half_open_max (fst (cb_step clock op cb w)) = cb_half_open_max cb"
  by (cases op) (auto simp: read_state_def allow_def retry_after_def maybe_half_open_def record_success_def
      record_failure_def trip_open_def reset_def Let_def
      split: prod.splits option.splits circuit_state.splits if_splits)

lemma failure_trips:
  assumes "cb_state cb = HALF_OPEN \<or> cb_failure_threshold cb \<le> cb_failure_count cb + 1"
  shows "cb_state (fst (cb_step clock Failure cb w)) = OPEN \<and>
    cb_opened_at (fst (cb_step clock Failure cb w)) = Some (fst (clock w)) \<and>
    cb_failure_count (fst (cb_step clock Failure cb w)) =
      cb_failure_count cb + (if cb_state cb = HALF_OPEN then 0 else 1)"
  using assms by (auto simp: record_failure_def trip_open_def Let_def split: prod.splits)

lemma tripped_now: "tripped_by clock (calls @ [(Failure, w)]) (fst (clock w)) []"
  by (auto simp: tripped_by_def)

lemma tripped_query:
  "tripped_by clock calls t0 post \<Longrightarrow> query op \<Longrightarrow> tripped_by clock (calls @ [(op, w)]) t0 (post @ [(op, w)])"
  by (auto simp: tripped_by_def)

lemma run_calls_config:
  "cb_failure_threshold (run_calls clock calls cb) = cb_failure_threshold cb \<and>
   cb_cooldown (run_calls clock calls cb) = cb_cooldown cb \<and>
   cb_half_open_max (run_calls clock calls cb) = cb_half_open_max cb"
proof (induction calls rule: rev_induct)
  case (snoc call calls)
  obtain op w where "call = (op, w)" by (rule prod.exhaust)
  with snoc cb_step_config [of clock op "run_calls clock calls cb" w] show ?case by simp
qed simp

text \<open>The state a history leads to.\<close>

definition history_state :: "'w clock \<Rightarrow> (cb_op \<times> 'w) list \<Rightarrow> breaker \<Rightarrow> bool" where
  "history_state clock calls s \<longleftrightarrow>
     (if int (trailing_failures calls) < cb_failure_threshold s
      then cb_state s = CLOSED \<and> cb_failure_count s = int (trailing_failures calls) \<and> cb_opened_at s = None
      else cb_failure_threshold s \<le> cb_failure_count s \<and>
        (\<exists>t0 post. tripped_by clock calls t0 post \<and> cb_opened_at s = Some t0 \<and>
           cb_state s = (if \<exists>(op, v) \<in> set post. cb_cooldown s \<le> fst (clock v) - t0 then HALF_OPEN else OPEN)))"

lemma history_step:
  assumes "1 \<le> cb_failure_threshold s" and "history_state clock calls s"
  shows "history_state clock (calls @ [(op, w)]) (fst (cb_step clock op s w))"
proof -
  let ?s = "fst (cb_step clock op s w)"
  note conf = cb_step_config [of clock op s w]
  consider (ok) "op \<in> {Success, Reset}" | (failure) "op = Failure" | (asked) "query op"
    by (cases op) (auto simp: query_def)
  then show ?thesis
  proof cases
    case ok
    with assms(1) show ?thesis
      by (auto simp: history_state_def record_success_def reset_def)
  next
    case failure
    show ?thesis
    proof (cases "int (trailing_failures calls) + 1 < cb_failure_threshold s")
      case True
      with failure assms(2) show ?thesis
        by (auto simp: history_state_def record_failure_def Let_def)
    next
      case False
      then have "cb_state s = HALF_OPEN \<or> cb_failure_threshold s \<le> cb_failure_count s + 1"
        "cb_failure_threshold s \<le> cb_failure_count s + (if cb_state s = HALF_OPEN then 0 else 1)"
        using assms(2) by (auto simp: history_state_def split: if_splits)
      with failure_trips [of s clock w] conf False tripped_now [of clock calls w] failure show ?thesis
        by (auto simp: history_state_def intro!: exI [of _ "[]"])
    qed
  next
    case asked
    then have op: "op \<notin> {Success, Reset}" "op \<noteq> Failure" by (auto simp: query_def)
    show ?thesis
    proof (cases "int (trailing_failures calls) < cb_failure_threshold s")
      case True
      with assms(2) have "cb_state s = CLOSED" "cb_opened_at s = None" by (auto simp: history_state_def)
      then have "?s = s" by (rule query_closed [OF asked])
      with True assms(2) op show ?thesis by (simp add: history_state_def)
    next
      case False
      with assms(2) obtain t0 post where t0: "tripped_by clock calls t0 post" "cb_opened_at s = Some t0"
        "cb_state s = (if \<exists>(op, v) \<in> set post. cb_cooldown s \<le> fst (clock v) - t0 then HALF_OPEN else OPEN)"
        "cb_failure_threshold s \<le> cb_failure_count s"
        by (auto simp: history_state_def)
      then have "cb_state s \<noteq> CLOSED" by simp
      note q = query_open [OF asked this t0(2), of clock w]
      have "cb_state ?s = (if \<exists>(op, v) \<in> set (post @ [(op, w)]). cb_cooldown ?s \<le> fst (clock v) - t0
          then HALF_OPEN else OPEN)"
        using q t0(3) conf by (simp split: if_splits)
      moreover have "\<not> int (trailing_failures (calls @ [(op, w)])) < cb_failure_threshold ?s"
        using False op conf by simp
      moreover have "cb_failure_threshold ?s \<le> cb_failure_count ?s" "cb_opened_at ?s = Some t0"
        using q t0 conf by simp_all
      ultimately show ?thesis
        unfolding history_state_def using tripped_query [OF t0(1) asked, of w] by (simp only: if_False) blast
    qed
  qed
qed

lemma history_run:
  assumes "new_breaker n thr c h = Inr cb"
  shows "history_state clock calls (run_calls clock calls cb)"
proof (induction calls rule: rev_induct)
  case Nil
  then show ?case using assms by (auto simp: new_breaker_def history_state_def split: if_splits)
next
  case (snoc call calls)
  obtain op w where call: "call = (op, w)" by (rule prod.exhaust)
  have "1 \<le> cb_failure_threshold (run_calls clock calls cb)"
    using assms run_calls_config [of clock calls cb] by (auto simp: new_breaker_def split: if_splits)
  from history_step [OF this snoc.IH] show ?case by (simp add: call)
qed

subsection \<open>Properties\<close>

text \<open>A breaker for the examples.\<close>

definition sample_breaker :: breaker where
  "sample_breaker =
     \<lparr>cb_name = ''db'', cb_failure_threshold = 1, cb_cooldown = 10, cb_half_open_max = 1,
      cb_state = CLOSED, cb_failure_count = 0, cb_opened_at = None, cb_half_open_calls = 0\<rparr>"

lemma sample_breaker_new: "new_breaker ''db'' 1 10 1 = Inr sample_breaker"
  by (simp add: new_breaker_def sample_breaker_def)

lemma sample_breaker_inv: "cb_inv sample_breaker"
  by (rule cb_inv_new [OF sample_breaker_new])

text \<open>The sample breaker, tripped at time 5.\<close>

definition tripped :: breaker where
  "tripped = fst (record_failure fake_clock sample_breaker 5)"

lemma tripped_simp: "tripped = sample_breaker
    \<lparr>cb_failure_count := 1, cb_state := OPEN, cb_opened_at := Some 5\<rparr>"
  by (simp add: tripped_def sample_breaker_def record_failure_def trip_open_def Let_def)

lemma tripped_inv: "cb_inv tripped"
  by (simp add: tripped_simp cb_inv_def sample_breaker_def)

text \<open>A call changes the state only along the edges the module documents (CLOSED to OPEN on
  the failure that reaches the threshold, OPEN to HALF_OPEN when a query finds the cooldown
  elapsed, HALF_OPEN to CLOSED on success and to OPEN on failure, and \<^verbatim>\<open>reset\<close>), except that a
  success reported while the circuit is OPEN closes it at once.\<close>

theorem breaker_edges:
  "cb_state (fst (cb_step clock op cb w)) = cb_state cb \<or>
   doc_edge (reaches cb) (cooled clock cb w) (cb_state cb) op
     (cb_state (fst (cb_step clock op cb w))) \<or>
   cb_state cb = OPEN \<and> op = Success \<and> cb_state (fst (cb_step clock op cb w)) = CLOSED"
  by (rule cb_step_edges [of clock op cb w "fst (cb_step clock op cb w)"
        "snd (cb_step clock op cb w)"]) simp

text \<open>C17: once the circuit has tripped, however many threads query it and however the clock moves,
  at most \<^verbatim>\<open>half_open_max_calls\<close> calls are let through until an outcome is recorded.\<close>

theorem half_open_admissions:
  assumes "cb_inv cb" and "cb_state cb \<noteq> CLOSED" and "\<forall>(op, w) \<in> set calls. query op"
  shows "int (admissions clock calls cb) \<le> cb_half_open_max cb"
proof -
  have "slots_left cb \<le> cb_half_open_max cb" using assms(1) by (simp add: slots_left_def cb_inv_def)
  with admissions_bound [OF assms] show ?thesis by (meson order_trans)
qed

theorem half_open_admissions_witness:
  "admissions fake_clock [(Allow, 6), (Allow, 15), (StateRead, 15), (Allow, 40)] tripped = 1 \<and>
   int (admissions fake_clock [(Allow, 6), (Allow, 15), (StateRead, 15), (Allow, 40)] tripped) \<le> 1"
proof -
  have "admissions fake_clock [(Allow, 6), (Allow, 15), (StateRead, 15), (Allow, 40)] tripped = 1"
    by (simp add: tripped_simp sample_breaker_def allow_def maybe_half_open_def read_state_def Let_def)
  moreover have "int (admissions fake_clock [(Allow, 6), (Allow, 15), (StateRead, 15), (Allow, 40)]
      tripped) \<le> cb_half_open_max tripped"
    by (rule half_open_admissions [OF tripped_inv])
      (simp_all add: query_def tripped_simp)
  ultimately show ?thesis by (simp add: tripped_simp sample_breaker_def)
qed

text \<open>A trial slot that is never reported back is never given back: with all slots of
  \<open>HALF_OPEN\<close> taken, no query at any later time is let through, while \<^verbatim>\<open>retry_after\<close> reports 0.\<close>

theorem half_open_stuck:
  assumes "cb_inv cb" and "cb_state cb = HALF_OPEN"
    and "cb_half_open_calls cb = cb_half_open_max cb"
    and "\<forall>(op, w) \<in> set calls. query op"
  shows "admissions clock calls cb = 0 \<and> fst (retry_after clock cb w) = 0"
proof -
  have "int (admissions clock calls cb) \<le> slots_left cb"
    using assms by (intro admissions_bound) auto
  then have "admissions clock calls cb = 0" using assms by (simp add: slots_left_def)
  moreover have "fst (retry_after clock cb w) = 0"
    using assms(2) by (auto simp: retry_after_def maybe_half_open_def split: option.splits)
  ultimately show ?thesis by simp
qed

text \<open>C5: the breaker refines its specification: after any history of calls (successes, failures and resets
  reported, and queries, by any number of threads, each at its own time), let \<open>k\<close> be the number of
  failures since the last success or reset. As long as \<open>k\<close> is below the threshold the circuit is
  CLOSED, the counter is \<open>k\<close> and every call is let through. From then on it is not closed: the cooldown
  counts from the last failure, the circuit is HALF_OPEN if a query since then found the cooldown
  over, and otherwise OPEN, letting a call through exactly when the cooldown is over.\<close>

theorem trailing_failures_refinement:
  assumes "new_breaker n thr c h = Inr cb" and "s = run_calls clock calls cb"
    and "k = int (trailing_failures calls)"
  shows "(k < thr \<longrightarrow> cb_state s = CLOSED \<and> cb_failure_count s = k \<and> (\<forall>v. fst (allow clock s v))) \<and>
    (thr \<le> k \<longrightarrow>
      (\<exists>pre w post. calls = pre @ (Failure, w) # post \<and> (\<forall>(op, v) \<in> set post. query op) \<and>
         cb_opened_at s = Some (fst (clock w)) \<and>
         cb_state s =
           (if \<exists>(op, v) \<in> set post. c \<le> fst (clock v) - fst (clock w) then HALF_OPEN else OPEN) \<and>
         (cb_state s = OPEN \<longrightarrow> (\<forall>v. fst (allow clock s v) \<longleftrightarrow> c \<le> fst (clock v) - fst (clock w)))))"
proof -
  have conf: "cb_failure_threshold s = thr" "cb_cooldown s = c" "1 \<le> cb_half_open_max s"
    using assms(1,2) run_calls_config [of clock calls cb] by (auto simp: new_breaker_def split: if_splits)
  have hist: "history_state clock calls s" using history_run [OF assms(1)] assms(2) by simp
  have open_allow: "fst (allow clock s v) \<longleftrightarrow> c \<le> fst (clock v) - t0"
    if "cb_state s = OPEN" "cb_opened_at s = Some t0" for v t0
    using that conf by (auto simp: allow_def maybe_half_open_def Let_def split: prod.splits)
  show ?thesis
  proof (intro conjI impI)
    assume "k < thr"
    with hist assms(3) conf(1) have "cb_state s = CLOSED" "cb_failure_count s = k" "cb_opened_at s = None"
      by (auto simp: history_state_def)
    then show "cb_state s = CLOSED" "cb_failure_count s = k" "\<forall>v. fst (allow clock s v)"
      by (auto simp: allow_def maybe_half_open_def)
  next
    assume "thr \<le> k"
    with hist assms(3) conf obtain t0 post where "tripped_by clock calls t0 post" "cb_opened_at s = Some t0"
      "cb_state s = (if \<exists>(op, v) \<in> set post. c \<le> fst (clock v) - t0 then HALF_OPEN else OPEN)"
      by (auto simp: history_state_def)
    then show "\<exists>pre w post. calls = pre @ (Failure, w) # post \<and> (\<forall>(op, v) \<in> set post. query op) \<and>
         cb_opened_at s = Some (fst (clock w)) \<and>
         cb_state s =
           (if \<exists>(op, v) \<in> set post. c \<le> fst (clock v) - fst (clock w) then HALF_OPEN else OPEN) \<and>
         (cb_state s = OPEN \<longrightarrow> (\<forall>v. fst (allow clock s v) \<longleftrightarrow> c \<le> fst (clock v) - fst (clock w)))"
      unfolding tripped_by_def using open_allow by blast
  qed
qed

text \<open>A failure, a query when the cooldown is over and the failure of that trial: two trailing failures,
  one of them counted, and the cooldown counts from the second.\<close>

theorem trailing_failures_refinement_witness:
  "cb_state (run_calls fake_clock [(Failure, 1), (Allow, 12), (Failure, 13)] sample_breaker) = OPEN \<and>
   cb_opened_at (run_calls fake_clock [(Failure, 1), (Allow, 12), (Failure, 13)] sample_breaker) = Some 13 \<and>
   cb_state (run_calls fake_clock [(Failure, 1), (Allow, 12)] sample_breaker) = HALF_OPEN"
proof -
  have "trailing_failures [(Failure, 1), (Allow, 12), (Failure, 13 :: rat)] = 2"
    "trailing_failures [(Failure, 1), (Allow, 12 :: rat)] = 1"
    by (simp_all add: trailing_failures_def)
  then show ?thesis
    using trailing_failures_refinement [OF sample_breaker_new refl refl, where clock = fake_clock
        and calls = "[(Failure, 1), (Allow, 12), (Failure, 13)]"]
      trailing_failures_refinement [OF sample_breaker_new refl refl, where clock = fake_clock
        and calls = "[(Failure, 1), (Allow, 12)]"]
    by (auto simp: Cons_eq_append_conv query_def split: if_splits)
qed

text \<open>Any run of failures, the last of which reaches the threshold, shuts the circuit until
  the cooldown counted from the last failure is over.\<close>

theorem breaker_opens_after_burst:
  assumes "cb_inv cb" and "cb_failure_threshold cb \<le> cb_failure_count cb + int (length ts)"
    and "ts \<noteq> []" and "t' < last ts + cb_cooldown cb"
  shows "\<not> fst (allow fake_clock (fold fail_at ts cb) t')"
  using core.opens_after_burst [OF assms] by (simp add: admits_at_def)

text \<open>\<^verbatim>\<open>retry_after\<close> is accurate: it lies between 0 and the cooldown once the clock is past the
  opening time, and when it is positive a call is let through from exactly that much later.\<close>

theorem retry_after_accurate:
  assumes "cb_inv cb" and "retry_after fake_clock cb t = (r, cb', t)"
    and "\<forall>t0. cb_opened_at cb = Some t0 \<longrightarrow> t0 \<le> t"
  shows "0 \<le> r \<and> r \<le> cb_cooldown cb \<and>
    (r > 0 \<longrightarrow> (\<forall>t'. fst (allow fake_clock cb' t') \<longleftrightarrow> t + r \<le> t'))"
proof (cases "cb_state cb' = OPEN")
  case True
  with assms show ?thesis
    by (cases "cb_opened_at cb")
      (auto simp: retry_after_def maybe_half_open_def allow_def cb_inv_def Let_def
        split: if_splits)
next
  case False
  with assms(1,2) have "r = 0"
    by (auto simp: retry_after_def maybe_half_open_def Let_def split: if_splits option.splits)
  with assms(1) show ?thesis by (simp add: cb_inv_def)
qed

end
