(* ===== verification/Retry.thy ===== *)
theory Retry
  imports Circuit
begin

section \<open>The retry decorator\<close>

text \<open>
  Models \<^verbatim>\<open>python/src/cubiczan_resilience/retry.py\<close>: \<open>policy\<close> is \<^verbatim>\<open>RetryPolicy\<close>,
  \<open>run_sync\<close> and \<open>run_async\<close> are the two drivers, \<open>resilient\<close> the decorator. The wrapped
  function, the clock, the sleep and the random source are callbacks on a world of any type;
  the breaker of a policy is an object reference, that is its operations on the world
  (\<open>breaker_ops\<close>), so that the world may hold a breaker shared with other code.
  \<open>core_breaker\<close> makes the object of theory \<open>Circuit\<close> such a reference.
\<close>

subsection \<open>Policies\<close>

record 'w policy =
  rp_timeout :: rat
  rp_max_attempts :: int
  rp_base_delay :: rat
  rp_max_delay :: rat
  rp_multiplier :: rat
  rp_retryable_exceptions :: "pyclass list"
  rp_retryable_status :: "int list"
  rp_breaker :: "'w breaker_ops option"
  rp_random :: "'w \<Rightarrow> rat \<times> 'w"

definition default_retryable_status :: "int list" where
  "default_retryable_status = [408, 425, 429, 500, 502, 503, 504]"

definition status_of :: "exn \<Rightarrow> int option" where
  "status_of e =
     (case at_response (exn_attrs e) of
        Some (IntAttr code) \<Rightarrow> Some code
      | _ \<Rightarrow> (case at_status (exn_attrs e) of IntAttr code \<Rightarrow> Some code | _ \<Rightarrow> None))"

text \<open>\<^verbatim>\<open>RetryPolicy.__post_init__\<close>.\<close>

definition post_init :: "'w policy \<Rightarrow> exn + 'w policy" where
  "post_init p =
     (if rp_timeout p \<le> 0
        then Inl (mk_exn ValueError ''timeout must be > 0 (a mandatory deadline is required)'')
      else if rp_max_attempts p < 1 then Inl (mk_exn ValueError ''max_attempts must be >= 1'')
      else if rp_base_delay p < 0 \<or> rp_max_delay p < 0
        then Inl (mk_exn ValueError ''delays must be >= 0'')
      else if rp_multiplier p < 1 then Inl (mk_exn ValueError ''multiplier must be >= 1'')
      else Inr p)"

text \<open>\<^verbatim>\<open>random.Random.uniform(a, b)\<close> is \<^verbatim>\<open>a + (b - a) * random()\<close>.\<close>

definition uniform :: "('w \<Rightarrow> rat \<times> 'w) \<Rightarrow> rat \<Rightarrow> rat \<Rightarrow> 'w \<Rightarrow> rat \<times> 'w" where
  "uniform random a b w = (let (r, w') = random w in (a + (b - a) * r, w'))"

definition backoff :: "'w policy \<Rightarrow> nat \<Rightarrow> ('w, rat) callback" where
  "backoff p attempt w =
     (case float_pow (rp_multiplier p) attempt of
        Inl e \<Rightarrow> (Inl e, w)
      | Inr m \<Rightarrow>
          (let (d, w') = uniform (rp_random p) 0 (min (rp_base_delay p * m) (rp_max_delay p)) w
           in (Inr d, w')))"

definition is_retryable :: "'w policy \<Rightarrow> exn \<Rightarrow> bool" where
  "is_retryable p e =
     (if isinstance e CircuitOpenError then False
      else case status_of e of
        Some status \<Rightarrow> status \<in> set (rp_retryable_status p)
      | None \<Rightarrow> (\<exists>c \<in> set (rp_retryable_exceptions p). isinstance e c))"

text \<open>\<^verbatim>\<open>_build_policy\<close>: \<open>None\<close> exceptions mean every \<^verbatim>\<open>Exception\<close>, \<open>None\<close> random source a
  fresh one (\<open>fresh\<close>).\<close>

definition build_policy ::
  "('w \<Rightarrow> rat \<times> 'w) \<Rightarrow> rat \<Rightarrow> int \<Rightarrow> rat \<Rightarrow> rat \<Rightarrow> rat \<Rightarrow> pyclass list option \<Rightarrow> int list \<Rightarrow>
   'w breaker_ops option \<Rightarrow> ('w \<Rightarrow> rat \<times> 'w) option \<Rightarrow> exn + 'w policy" where
  "build_policy fresh timeout max_attempts base_delay max_delay multiplier excs status cb rng =
     post_init
       \<lparr>rp_timeout = timeout, rp_max_attempts = max_attempts, rp_base_delay = base_delay,
        rp_max_delay = max_delay, rp_multiplier = multiplier,
        rp_retryable_exceptions = (case excs of Some cs \<Rightarrow> cs | None \<Rightarrow> [Exception]),
        rp_retryable_status = status, rp_breaker = cb,
        rp_random = (case rng of Some r \<Rightarrow> r | None \<Rightarrow> fresh)\<rparr>"

subsection \<open>The drivers\<close>

text \<open>\<^verbatim>\<open>if cb is not None: cb.guard()\<close>, and the same for the two reports.\<close>

definition cb_guard :: "'w policy \<Rightarrow> ('w, unit) callback" where
  "cb_guard p w = (case rp_breaker p of None \<Rightarrow> (Inr (), w) | Some ops \<Rightarrow> op_guard ops w)"

definition cb_failed :: "'w policy \<Rightarrow> 'w \<Rightarrow> 'w" where
  "cb_failed p w = (case rp_breaker p of None \<Rightarrow> w | Some ops \<Rightarrow> op_failure ops w)"

definition cb_succeeded :: "'w policy \<Rightarrow> 'w \<Rightarrow> 'w" where
  "cb_succeeded p w = (case rp_breaker p of None \<Rightarrow> w | Some ops \<Rightarrow> op_success ops w)"

text \<open>\<^verbatim>\<open>TimeoutExceeded\<close> as the driver of plain functions raises it.\<close>

definition timeout_exceeded :: "rat \<Rightarrow> rat \<Rightarrow> exn" where
  "timeout_exceeded elapsed timeout =
     mk_exn TimeoutExceeded
       (''call took '' @ py_fixed 3 elapsed @ ''s, exceeding timeout '' @ py_fixed 3 timeout @ ''s'')"

text \<open>\<^verbatim>\<open>RetriesExhausted\<close>: its message also has the number of attempts and the \<^verbatim>\<open>repr\<close> of the
  last exception; the code that raises it is unreachable (\<open>retries_exhausted_unreachable\<close>).\<close>

definition retries_exhausted :: "exn \<Rightarrow> exn" where
  "retries_exhausted exc =
     Exn (mro_of RetriesExhausted) ''all attempts failed'' no_attrs (Some exc)"

definition sleep_sync ::
  "(rat \<Rightarrow> 'w \<Rightarrow> 'w) \<Rightarrow> 'w policy \<Rightarrow> nat \<Rightarrow> ('w, unit) callback" where
  "sleep_sync sleep p attempt w =
     (case backoff p attempt w of
        (Inl e, w1) \<Rightarrow> (Inl e, w1)
      | (Inr delay, w1) \<Rightarrow> (Inr (), if delay > 0 then sleep delay w1 else w1))"

text \<open>The code after the loop of both drivers.\<close>

definition after_loop :: "exn option \<Rightarrow> exn" where
  "after_loop last_exc =
     (case last_exc of None \<Rightarrow> mk_exn AssertionError [] | Some e \<Rightarrow> retries_exhausted e)"

text \<open>The body of \<^verbatim>\<open>_run_sync\<close>, over the attempts that \<^verbatim>\<open>range\<close> still has to give.\<close>

fun sync_attempts ::
  "'w clock \<Rightarrow> (rat \<Rightarrow> 'w \<Rightarrow> 'w) \<Rightarrow> ('w, 'a) callback \<Rightarrow> 'w policy \<Rightarrow> exn option \<Rightarrow> nat list \<Rightarrow>
   ('w, 'a) callback" where
  "sync_attempts clk sleep fn p last_exc [] w = (Inl (after_loop last_exc), w)"
| "sync_attempts clk sleep fn p last_exc (attempt # rest) w =
     (case cb_guard p w of
        (Inl e, w1) \<Rightarrow> (Inl e, w1)
      | (Inr _, w1) \<Rightarrow>
          (let (start, w2) = clk w1 in
           case fn w2 of
             (Inl exc, w3) \<Rightarrow>
               (let w4 = cb_failed p w3 in
                if \<not> is_retryable p exc \<or> int attempt = rp_max_attempts p - 1 then (Inl exc, w4)
                else (case sleep_sync sleep p attempt w4 of
                        (Inl e, w5) \<Rightarrow> (Inl e, w5)
                      | (Inr _, w5) \<Rightarrow> sync_attempts clk sleep fn p (Some exc) rest w5))
           | (Inr result, w3) \<Rightarrow>
               (let (now, w4) = clk w3 in
                if now - start > rp_timeout p then
                  (let exc = timeout_exceeded (now - start) (rp_timeout p); w5 = cb_failed p w4 in
                   if int attempt = rp_max_attempts p - 1 then (Inl exc, w5)
                   else (case sleep_sync sleep p attempt w5 of
                           (Inl e, w6) \<Rightarrow> (Inl e, w6)
                         | (Inr _, w6) \<Rightarrow> sync_attempts clk sleep fn p (Some exc) rest w6))
                else (Inr result, cb_succeeded p w4))))"

definition run_sync ::
  "'w clock \<Rightarrow> (rat \<Rightarrow> 'w \<Rightarrow> 'w) \<Rightarrow> ('w, 'a) callback \<Rightarrow> 'w policy \<Rightarrow> ('w, 'a) callback" where
  "run_sync clk sleep fn p w =
     sync_attempts clk sleep fn p None [0..<nat (rp_max_attempts p)] w"

text \<open>
  A coroutine under \<^verbatim>\<open>asyncio.wait_for(..., timeout)\<close>: the event loop either lets it finish
  within the timeout (\<open>Finished\<close>) or cancels it (\<open>Expired\<close>), and then \<^verbatim>\<open>wait_for\<close> raises
  \<^verbatim>\<open>asyncio.TimeoutError\<close>. \<open>atimeout\<close> is that class: \<open>TimeoutError\<close> itself from Python 3.11,
  \<open>AsyncioTimeoutError\<close> before.
\<close>

datatype ('a, 'w) task = Finished "exn + 'a" 'w | Expired 'w

definition wait_for ::
  "pyclass \<Rightarrow> (rat \<Rightarrow> 'w \<Rightarrow> ('a, 'w) task) \<Rightarrow> rat \<Rightarrow> ('w, 'a) callback" where
  "wait_for atimeout fn timeout w =
     (case fn timeout w of
        Finished r w' \<Rightarrow> (r, w')
      | Expired w' \<Rightarrow> (Inl (mk_exn atimeout []), w'))"

definition wrapped_timeout :: "rat \<Rightarrow> exn \<Rightarrow> exn" where
  "wrapped_timeout timeout exc =
     Exn (mro_of TimeoutExceeded) (''call exceeded timeout '' @ py_fixed 3 timeout @ ''s'') no_attrs
       (Some exc)"

definition sleep_async ::
  "(rat \<Rightarrow> 'w \<Rightarrow> 'w) \<Rightarrow> 'w policy \<Rightarrow> nat \<Rightarrow> ('w, unit) callback" where
  "sleep_async sleep p attempt w =
     (case backoff p attempt w of
        (Inl e, w1) \<Rightarrow> (Inl e, w1)
      | (Inr delay, w1) \<Rightarrow> (Inr (), sleep delay w1))"

fun async_attempts ::
  "pyclass \<Rightarrow> (rat \<Rightarrow> 'w \<Rightarrow> 'w) \<Rightarrow> (rat \<Rightarrow> 'w \<Rightarrow> ('a, 'w) task) \<Rightarrow> 'w policy \<Rightarrow> exn option \<Rightarrow>
   nat list \<Rightarrow> ('w, 'a) callback" where
  "async_attempts atimeout sleep fn p last_exc [] w = (Inl (after_loop last_exc), w)"
| "async_attempts atimeout sleep fn p last_exc (attempt # rest) w =
     (case cb_guard p w of
        (Inl e, w1) \<Rightarrow> (Inl e, w1)
      | (Inr _, w1) \<Rightarrow>
          (case wait_for atimeout fn (rp_timeout p) w1 of
             (Inl exc, w2) \<Rightarrow>
               (if isinstance exc atimeout then
                  (let wrapped = wrapped_timeout (rp_timeout p) exc; w3 = cb_failed p w2 in
                   if int attempt = rp_max_attempts p - 1 then (Inl wrapped, w3)
                   else (case sleep_async sleep p attempt w3 of
                           (Inl e, w4) \<Rightarrow> (Inl e, w4)
                         | (Inr _, w4) \<Rightarrow>
                             async_attempts atimeout sleep fn p (Some wrapped) rest w4))
                else
                  (let w3 = cb_failed p w2 in
                   if \<not> is_retryable p exc \<or> int attempt = rp_max_attempts p - 1
                   then (Inl exc, w3)
                   else (case sleep_async sleep p attempt w3 of
                           (Inl e, w4) \<Rightarrow> (Inl e, w4)
                         | (Inr _, w4) \<Rightarrow>
                             async_attempts atimeout sleep fn p (Some exc) rest w4)))
           | (Inr result, w2) \<Rightarrow> (Inr result, cb_succeeded p w2)))"

definition run_async ::
  "pyclass \<Rightarrow> (rat \<Rightarrow> 'w \<Rightarrow> 'w) \<Rightarrow> (rat \<Rightarrow> 'w \<Rightarrow> ('a, 'w) task) \<Rightarrow> 'w policy \<Rightarrow>
   ('w, 'a) callback" where
  "run_async atimeout sleep fn p w =
     async_attempts atimeout sleep fn p None [0..<nat (rp_max_attempts p)] w"

text \<open>The decorator: the policy is built when the function is decorated, and the driver is chosen
  by \<^verbatim>\<open>inspect.iscoroutinefunction\<close>.\<close>

datatype ('w, 'a) target = Plain "('w, 'a) callback" | Coroutine "rat \<Rightarrow> 'w \<Rightarrow> ('a, 'w) task"

definition resilient ::
  "pyclass \<Rightarrow> 'w clock \<Rightarrow> (rat \<Rightarrow> 'w \<Rightarrow> 'w) \<Rightarrow> exn + 'w policy \<Rightarrow> ('w, 'a) target \<Rightarrow>
   exn + ('w, 'a) callback" where
  "resilient atimeout clk sleep built target =
     (case built of
        Inl e \<Rightarrow> Inl e
      | Inr p \<Rightarrow>
          Inr (case target of
                 Plain fn \<Rightarrow> run_sync clk sleep fn p
               | Coroutine fn \<Rightarrow> run_async atimeout sleep fn p))"

subsection \<open>Specification of a bounded retry\<close>

text \<open>
  What both drivers promise, without their bookkeeping: ask the guard, make one attempt, and
  after an attempt that may be repeated pause and go on, while attempts are left. An attempt
  ends in \<open>Done\<close>, in \<open>Again e\<close> (it failed with \<open>e\<close> and may be repeated) or in \<open>Stop e\<close>.
\<close>

datatype 'a verdict = Done 'a | Again exn | Stop exn

fun retry_loop ::
  "('w, unit) callback \<Rightarrow> ('w \<Rightarrow> 'a verdict \<times> 'w) \<Rightarrow> (nat \<Rightarrow> ('w, unit) callback) \<Rightarrow>
   nat \<Rightarrow> nat \<Rightarrow> ('w, 'a) callback" where
  "retry_loop grd try pause 0 k w = (Inl (after_loop None), w)"
| "retry_loop grd try pause (Suc n) k w =
     (case grd w of
        (Inl e, w1) \<Rightarrow> (Inl e, w1)
      | (Inr _, w1) \<Rightarrow>
          (case try w1 of
             (Done x, w2) \<Rightarrow> (Inr x, w2)
           | (Stop e, w2) \<Rightarrow> (Inl e, w2)
           | (Again e, w2) \<Rightarrow>
               (if n = 0 then (Inl e, w2)
                else (case pause k w2 of
                        (Inl e', w3) \<Rightarrow> (Inl e', w3)
                      | (Inr _, w3) \<Rightarrow> retry_loop grd try pause n (Suc k) w3))))"

definition sync_try ::
  "'w clock \<Rightarrow> ('w, 'a) callback \<Rightarrow> 'w policy \<Rightarrow> 'w \<Rightarrow> 'a verdict \<times> 'w" where
  "sync_try clk fn p w =
     (let (start, w1) = clk w in
      case fn w1 of
        (Inl exc, w2) \<Rightarrow> (if is_retryable p exc then Again exc else Stop exc, cb_failed p w2)
      | (Inr result, w2) \<Rightarrow>
          (let (now, w3) = clk w2 in
           if now - start > rp_timeout p then (Again (timeout_exceeded (now - start) (rp_timeout p)), cb_failed p w3)
           else (Done result, cb_succeeded p w3)))"

definition async_try ::
  "pyclass \<Rightarrow> (rat \<Rightarrow> 'w \<Rightarrow> ('a, 'w) task) \<Rightarrow> 'w policy \<Rightarrow> 'w \<Rightarrow> 'a verdict \<times> 'w" where
  "async_try atimeout fn p w =
     (case wait_for atimeout fn (rp_timeout p) w of
        (Inl exc, w1) \<Rightarrow>
          (if isinstance exc atimeout then Again (wrapped_timeout (rp_timeout p) exc)
           else if is_retryable p exc then Again exc else Stop exc, cb_failed p w1)
      | (Inr result, w1) \<Rightarrow> (Done result, cb_succeeded p w1))"

lemma retry_loop_args:
  "n = n' \<Longrightarrow> k = k' \<Longrightarrow> w = w' \<Longrightarrow>
     retry_loop grd try pause n k w = retry_loop grd try pause n' k' w'"
  by simp

lemma last_attempt_iff:
  "k < N \<Longrightarrow> N = nat m \<Longrightarrow> (int k = m - 1) = (N - Suc k = 0)"
  by linarith

lemma sync_attempts_loop:
  assumes "N = nat (rp_max_attempts p)" and "n = N - k" and "k < N"
  shows "sync_attempts clk sleep fn p exc [k..<N] w =
    retry_loop (cb_guard p) (sync_try clk fn p) (sleep_sync sleep p) n k w"
  using assms(2,3)
proof (induction n arbitrary: k exc w)
  case (Suc n)
  from Suc.prems have up: "[k..<N] = k # [Suc k..<N]" and n: "n = N - Suc k"
    by (auto simp: upt_conv_Cons)
  note last = last_attempt_iff [OF Suc.prems(2) assms(1)]
  have IH: "sync_attempts clk sleep fn p e [Suc k..<N] v =
      retry_loop (cb_guard p) (sync_try clk fn p) (sleep_sync sleep p) n (Suc k) v"
    if "n \<noteq> 0" for e v using Suc.IH [OF n] n that by simp
  show ?case
    by (auto simp: up last n [symmetric] sync_try_def IH Let_def
        split: sum.splits prod.splits cong: retry_loop_args)
qed simp

lemma async_attempts_loop:
  assumes "N = nat (rp_max_attempts p)" and "n = N - k" and "k < N"
  shows "async_attempts atimeout sleep fn p exc [k..<N] w =
    retry_loop (cb_guard p) (async_try atimeout fn p) (sleep_async sleep p) n k w"
  using assms(2,3)
proof (induction n arbitrary: k exc w)
  case (Suc n)
  from Suc.prems have up: "[k..<N] = k # [Suc k..<N]" and n: "n = N - Suc k"
    by (auto simp: upt_conv_Cons)
  note last = last_attempt_iff [OF Suc.prems(2) assms(1)]
  have IH: "async_attempts atimeout sleep fn p e [Suc k..<N] v =
      retry_loop (cb_guard p) (async_try atimeout fn p) (sleep_async sleep p) n (Suc k) v"
    if "n \<noteq> 0" for e v using Suc.IH [OF n] n that by simp
  show ?case
    by (auto simp: up last n [symmetric] async_try_def IH Let_def
        split: sum.splits prod.splits cong: retry_loop_args)
qed simp

lemma run_sync_loop:
  "1 \<le> rp_max_attempts p \<Longrightarrow> run_sync clk sleep fn p w =
     retry_loop (cb_guard p) (sync_try clk fn p) (sleep_sync sleep p)
       (nat (rp_max_attempts p)) 0 w"
  unfolding run_sync_def by (rule sync_attempts_loop) auto

lemma run_async_loop:
  "1 \<le> rp_max_attempts p \<Longrightarrow> run_async atimeout sleep fn p w =
     retry_loop (cb_guard p) (async_try atimeout fn p) (sleep_async sleep p)
       (nat (rp_max_attempts p)) 0 w"
  unfolding run_async_def by (rule async_attempts_loop) auto

subsection \<open>Facts about the specification loop\<close>

lemma retry_loop_result:
  assumes "retry_loop grd try pause n k w = (r, w')" and "0 < n"
  shows "case r of
      Inr x \<Rightarrow> \<exists>v. try v = (Done x, w')
    | Inl e \<Rightarrow> (\<exists>v. grd v = (Inl e, w')) \<or> (\<exists>v. try v = (Stop e, w')) \<or>
        (\<exists>v. try v = (Again e, w')) \<or>
        (\<exists>v i. k \<le> i \<and> i + 1 < k + n \<and> pause i v = (Inl e, w'))"
  using assms
proof (induction n arbitrary: k w)
  case (Suc n)
  obtain g w1 where g: "grd w = (g, w1)" by fastforce
  obtain t w2 where t: "try w1 = (t, w2)" by fastforce
  obtain q w3 where q: "pause k w2 = (q, w3)" by fastforce
  show ?case
  proof (cases "\<exists>u e. g = Inr u \<and> t = Again e \<and> n \<noteq> 0 \<and> (\<exists>u. q = Inr u)")
    case True
    then have "retry_loop grd try pause n (Suc k) w3 = (r, w')" and n: "0 < n"
      using Suc.prems(1) by (auto simp: g t q)
    note IH = Suc.IH [OF this]
    show ?thesis
    proof (cases r)
      case (Inl e)
      with IH show ?thesis by simp (metis Suc_leD)
    next
      case (Inr x)
      with IH show ?thesis by simp
    qed
  next
    case False
    show ?thesis
    proof (cases "\<exists>u e e'. g = Inr u \<and> t = Again e \<and> n \<noteq> 0 \<and> q = Inl e'")
      case True
      then obtain e' where "q = Inl e'" and "r = Inl e'" and "w' = w3" and "n \<noteq> 0"
        using Suc.prems(1) by (auto simp: g t q)
      with q show ?thesis by (auto intro!: exI [of _ w2] exI [of _ k])
    next
      case nested: False
      with False Suc.prems(1) g t q show ?thesis
        by (auto split: sum.splits verdict.splits if_splits)
    qed
  qed
qed simp

text \<open>A meter on the world: \<open>calls\<close> counts the attempts, \<open>slept\<close> sums the pauses.\<close>

lemma retry_loop_meter:
  assumes grd: "\<And>v. calls (snd (grd v)) = calls v \<and> slept (snd (grd v)) = (slept v :: rat)"
    and att: "\<And>v. calls (snd (try v)) = Suc (calls v) \<and> slept (snd (try v)) = slept v"
    and pause: "\<And>v i. calls (snd (pause i v)) = calls v \<and> slept v \<le> slept (snd (pause i v)) \<and>
        slept (snd (pause i v)) \<le> slept v + cap"
    and cap: "0 \<le> cap"
  shows "calls (snd (retry_loop grd try pause n k w)) \<le> calls w + n \<and>
    slept w \<le> slept (snd (retry_loop grd try pause n k w)) \<and>
    slept (snd (retry_loop grd try pause n k w)) \<le> slept w + of_nat (n - 1) * cap"
proof (induction n arbitrary: k w)
  case (Suc n)
  obtain g w1 where g: "grd w = (g, w1)" by fastforce
  obtain t w2 where t: "try w1 = (t, w2)" by fastforce
  obtain q w3 where q: "pause k w2 = (q, w3)" by fastforce
  have w1: "calls w1 = calls w \<and> slept w1 = slept w" using grd [of w] by (simp add: g)
  have w2: "calls w2 = Suc (calls w) \<and> slept w2 = slept w" using att [of w1] w1 by (simp add: t)
  have w3: "calls w3 = Suc (calls w) \<and> slept w \<le> slept w3 \<and> slept w3 \<le> slept w + cap"
    using pause [of k w2] w2 by (simp add: q)
  have pos: "0 \<le> of_nat n * cap" using cap by simp
  show ?case
  proof (cases "\<exists>u e. g = Inr u \<and> t = Again e \<and> n \<noteq> 0")
    case False
    then show ?thesis
      using w1 w2 pos by (auto simp: g t split: sum.splits verdict.splits)
  next
    case True
    then obtain m where m: "n = Suc m" by (cases n) auto
    have "of_nat n * cap = cap + of_nat (n - 1) * cap" by (simp add: m algebra_simps)
    moreover have "0 \<le> of_nat (n - 1) * cap" using cap by simp
    ultimately show ?thesis
      using True w3 Suc.IH [of "Suc k" w3] cap by (auto simp: g t q split: sum.splits)
  qed
qed simp

lemma retry_loop_ext:
  assumes "\<And>v. try v = try' v" and "\<And>v i. pause i v = pause' i v"
  shows "retry_loop grd try pause n k w = retry_loop grd try' pause' n k w"
proof -
  have "try = try'" and "pause = pause'" using assms by (auto intro!: ext)
  then show ?thesis by simp
qed

subsection \<open>Backoff\<close>

lemma post_init_valid:
  "post_init p = Inr q \<longleftrightarrow>
     q = p \<and> 0 < rp_timeout p \<and> 1 \<le> rp_max_attempts p \<and> 0 \<le> rp_base_delay p \<and>
     0 \<le> rp_max_delay p \<and> 1 \<le> rp_multiplier p"
  by (auto simp: post_init_def)

lemma backoff_result:
  assumes "backoff p k w = (r, w')" and "post_init p = Inr p"
    and "0 \<le> fst (rp_random p w) \<and> fst (rp_random p w) \<le> 1"
  shows "case r of
      Inr d \<Rightarrow> 0 \<le> d \<and> d \<le> rp_base_delay p * rp_multiplier p ^ k \<and> d \<le> rp_max_delay p \<and>
        w' = snd (rp_random p w)
    | Inl e \<Rightarrow> isinstance e OverflowError \<and> float_limit \<le> rp_multiplier p ^ k \<and> w' = w"
proof (cases "rp_multiplier p ^ k < float_limit")
  case True
  obtain u v where u: "rp_random p w = (u, v)" by fastforce
  let ?c = "min (rp_base_delay p * rp_multiplier p ^ k) (rp_max_delay p)"
  have c: "0 \<le> ?c" using assms(2) by (simp add: post_init_valid)
  have r: "r = Inr (?c * u) \<and> w' = v"
    using assms(1) True u by (auto simp: backoff_def float_pow_def uniform_def Let_def)
  have u01: "0 \<le> u" "u \<le> 1" using assms(3) u by auto
  have "0 \<le> ?c * u" using c u01(1) by (rule mult_nonneg_nonneg)
  moreover have "?c * u \<le> ?c" using mult_left_mono [OF u01(2) c] by simp
  ultimately show ?thesis using r u by simp
next
  case False
  with assms(1) show ?thesis by (auto simp: backoff_def float_pow_def)
qed

lemma retry_loop_invariant:
  assumes "\<And>v e v'. P v \<Longrightarrow> grd v = (Inl e, v') \<Longrightarrow> P v'"
    and "\<And>v u v'. P v \<Longrightarrow> grd v = (Inr u, v') \<Longrightarrow> R v'"
    and "\<And>v t v'. R v \<Longrightarrow> try v = (t, v') \<Longrightarrow> P v'"
    and "\<And>v i r v'. P v \<Longrightarrow> pause i v = (r, v') \<Longrightarrow> P v'"
    and "P w"
  shows "P (snd (retry_loop grd try pause n k w))"
  using assms(5)
proof (induction n arbitrary: k w)
  case (Suc n)
  have tried: "P v2" if "P v" "grd v = (Inr u, v1)" "try v1 = (t, v2)" for v u v1 t v2
    using that assms(2,3) by blast
  have paused: "P v3" if "P v" "grd v = (Inr u, v1)" "try v1 = (t, v2)" "pause k v2 = (r, v3)"
    for v u v1 t v2 r v3
    using that tried assms(4) by blast
  from Suc show ?case
    by (auto split: sum.splits prod.splits verdict.splits intro: assms(1) tried paused)
qed simp

subsection \<open>The drivers with the breaker of theory Circuit\<close>

text \<open>The object as a reference: the world is a pair of the breaker and the rest, and \<open>bclk\<close> is
  the breaker's own clock.\<close>

definition core_breaker :: "'v clock \<Rightarrow> (breaker \<times> 'v) breaker_ops" where
  "core_breaker bclk =
     \<lparr>op_guard = (\<lambda>(cb, v). case guard bclk cb v of (r, cb', v') \<Rightarrow> (r, (cb', v'))),
      op_failure = (\<lambda>(cb, v). record_failure bclk cb v),
      op_success = (\<lambda>(cb, v). (record_success cb, v))\<rparr>"

text \<open>Callbacks that leave the breaker alone.\<close>

definition keeps_breaker :: "(breaker \<times> 'v \<Rightarrow> 'b \<times> breaker \<times> 'v) \<Rightarrow> bool" where
  "keeps_breaker f \<longleftrightarrow> (\<forall>w. fst (snd (f w)) = fst w)"

lemma keeps_breakerD: "keeps_breaker f \<Longrightarrow> f w = (r, w') \<Longrightarrow> fst w' = fst w"
  by (metis keeps_breaker_def snd_conv)

lemma guard_denied:
  "cb_inv cb \<Longrightarrow> guard clk cb w = (Inl e, cb', w') \<Longrightarrow>
     cb_inv cb' \<and> cb_half_open_calls cb' \<le> cb_half_open_calls cb"
proof -
  assume inv: "cb_inv cb" and g: "guard clk cb w = (Inl e, cb', w')"
  from g obtain cb1 w1 where a: "allow clk cb w = (False, cb1, w1)"
    and r: "snd (retry_after clk cb1 w1) = (cb', w')"
    by (auto simp: guard_def split: bool.splits prod.splits)
  have inv1: "cb_inv cb1" using inv a by (rule allow_inv)
  have "cb_inv cb'" using inv1 r by (auto simp: snd_eq_iff dest: retry_after_inv)
  moreover have "cb_half_open_calls cb1 \<le> cb_half_open_calls cb"
    using a inv by (auto simp: allow_def maybe_half_open_def Let_def cb_inv_def
        split: option.splits if_splits prod.splits circuit_state.splits)
  moreover have "cb_half_open_calls cb' \<le> cb_half_open_calls cb1"
    using r inv1 by (auto simp: retry_after_def maybe_half_open_def Let_def cb_inv_def snd_eq_iff
        split: option.splits if_splits prod.splits)
  ultimately show ?thesis by simp
qed

lemma guard_admitted: "cb_inv cb \<Longrightarrow> guard clk cb w = (Inr u, cb', w') \<Longrightarrow> cb_inv cb'"
  by (auto simp: guard_def split: bool.splits prod.splits dest: allow_inv)

lemma record_failure_no_slots:
  "cb_inv cb \<Longrightarrow> record_failure clk cb w = (cb', w') \<Longrightarrow> cb_half_open_calls cb' = 0"
  by (cases "cb_state cb")
    (auto simp: record_failure_def trip_open_def Let_def cb_inv_def split: if_splits prod.splits)

definition slots_kept :: "int \<Rightarrow> breaker \<times> 'v \<Rightarrow> bool" where
  "slots_kept c w \<longleftrightarrow> cb_inv (fst w) \<and> cb_half_open_calls (fst w) \<le> c"

lemma cb_failed_slots:
  assumes "rp_breaker p = Some (core_breaker bclk)" and "cb_inv (fst w)" and "0 \<le> c"
  shows "slots_kept c (cb_failed p w)"
proof -
  obtain cb v where w: "w = (cb, v)" by fastforce
  obtain cb' v' where r: "record_failure bclk cb v = (cb', v')" by fastforce
  with assms w show ?thesis
    using record_failure_inv [of cb bclk v cb' v'] record_failure_no_slots [of cb bclk v cb' v']
    by (simp add: cb_failed_def core_breaker_def slots_kept_def)
qed

lemma cb_succeeded_slots:
  assumes "rp_breaker p = Some (core_breaker bclk)" and "cb_inv (fst w)" and "0 \<le> c"
  shows "slots_kept c (cb_succeeded p w)"
  using assms record_success_inv [of "fst w"]
  by (cases w) (simp add: cb_succeeded_def core_breaker_def slots_kept_def record_success_def)

lemma sync_try_slots:
  assumes p: "rp_breaker p = Some (core_breaker bclk)" and w: "cb_inv (fst w)" and c: "0 \<le> c"
    and keeps: "keeps_breaker clk" "keeps_breaker fn"
    and t: "sync_try clk fn p w = (t, w')"
  shows "slots_kept c w'"
proof -
  obtain s w1 where 1: "clk w = (s, w1)" by (rule prod.exhaust)
  obtain r w2 where 2: "fn w1 = (r, w2)" by (rule prod.exhaust)
  obtain s' w3 where 3: "clk w2 = (s', w3)" by (rule prod.exhaust)
  have "fst w2 = fst w" and "fst w3 = fst w"
    using keeps_breakerD [OF keeps(1) 1] keeps_breakerD [OF keeps(2) 2]
      keeps_breakerD [OF keeps(1) 3] by simp_all
  then show ?thesis
    using t w c p by (auto simp: sync_try_def 1 2 3 Let_def split: sum.splits if_splits
        intro: cb_failed_slots cb_succeeded_slots)
qed

subsection \<open>Results of the drivers\<close>

lemma sync_try_cases:
  "sync_try clk fn p v = (t, w') \<Longrightarrow>
     (case t of
        Done x \<Rightarrow> \<exists>v1 v2. fn v1 = (Inr x, v2) \<and> clk v = (fst (clk v), v1) \<and>
          fst (clk v2) - fst (clk v) \<le> rp_timeout p
      | Again e \<Rightarrow> (\<exists>t > rp_timeout p. e = timeout_exceeded t (rp_timeout p)) \<or> is_retryable p e \<and> (\<exists>u. fst (fn u) = Inl e)
      | Stop e \<Rightarrow> \<not> is_retryable p e \<and> (\<exists>u. fst (fn u) = Inl e))"
  by (auto simp: sync_try_def Let_def split: sum.splits prod.splits if_splits)
    (metis fst_conv)+

lemma async_try_cases:
  "async_try atimeout fn p v = (t, w') \<Longrightarrow>
     (case t of
        Done x \<Rightarrow> \<exists>u. fn (rp_timeout p) v = Finished (Inr x) u
      | Again e \<Rightarrow> (\<exists>c. e = wrapped_timeout (rp_timeout p) c) \<or>
          is_retryable p e \<and> (\<exists>u. fn (rp_timeout p) v = Finished (Inl e) u)
      | Stop e \<Rightarrow> \<not> is_retryable p e \<and>
          (\<exists>u. fn (rp_timeout p) v = Finished (Inl e) u))"
  by (auto simp: async_try_def wait_for_def Let_def split: sum.splits prod.splits if_splits task.splits)

lemma pause_error:
  "sleep_sync sleep p i v = (Inl e, w') \<Longrightarrow> fst (backoff p i v) = Inl e"
  "sleep_async sleep p i v = (Inl e, w') \<Longrightarrow> fst (backoff p i v) = Inl e"
  by (auto simp: sleep_sync_def sleep_async_def split: sum.splits prod.splits)

lemma backoff_error: "fst (backoff p i v) = Inl e \<Longrightarrow> exn_mro e = mro_of OverflowError"
  by (auto simp: backoff_def float_pow_def uniform_def Let_def mk_exn_def
      split: if_splits prod.splits)

lemma run_sync_result:
  assumes "post_init p = Inr p" and "run_sync clk sleep fn p w = (r, w')"
  shows "case r of
      Inr x \<Rightarrow> \<exists>v v1 v2. clk v = (fst (clk v), v1) \<and> fn v1 = (Inr x, v2) \<and>
        fst (clk v2) - fst (clk v) \<le> rp_timeout p
    | Inl e \<Rightarrow> (\<exists>v. fst (cb_guard p v) = Inl e) \<or> (\<exists>v. fst (fn v) = Inl e) \<or>
        (\<exists>t > rp_timeout p. e = timeout_exceeded t (rp_timeout p)) \<or>
        (\<exists>v i. int i + 1 < rp_max_attempts p \<and> fst (backoff p i v) = Inl e)"
proof -
  have m: "1 \<le> rp_max_attempts p" using assms(1) by (simp add: post_init_valid)
  then have n: "0 < nat (rp_max_attempts p)" by simp
  note R = retry_loop_result [OF _ n, where k = 0, of "cb_guard p" "sync_try clk fn p"
      "sleep_sync sleep p" w r w']
  have R: "case r of
      Inr x \<Rightarrow> \<exists>v. sync_try clk fn p v = (Done x, w')
    | Inl e \<Rightarrow> (\<exists>v. cb_guard p v = (Inl e, w')) \<or> (\<exists>v. sync_try clk fn p v = (Stop e, w')) \<or>
        (\<exists>v. sync_try clk fn p v = (Again e, w')) \<or>
        (\<exists>v i. 0 \<le> i \<and> i + 1 < 0 + nat (rp_max_attempts p) \<and>
          sleep_sync sleep p i v = (Inl e, w'))"
    using assms(2) by (intro R) (simp add: run_sync_loop [OF m])
  show ?thesis
  proof (cases r)
    case (Inr x)
    with R obtain v where "sync_try clk fn p v = (Done x, w')" by auto
    from sync_try_cases [OF this] Inr show ?thesis by auto
  next
    case (Inl e)
    from R Inl consider
        (grd) v where "cb_guard p v = (Inl e, w')"
      | (stop) v where "sync_try clk fn p v = (Stop e, w')"
      | (again) v where "sync_try clk fn p v = (Again e, w')"
      | (pause) v i where "i + 1 < nat (rp_max_attempts p)" "sleep_sync sleep p i v = (Inl e, w')"
      by auto
    then show ?thesis
    proof cases
      case grd
      then have "fst (cb_guard p v) = Inl e" by simp
      with Inl show ?thesis by auto
    next
      case stop
      from sync_try_cases [OF stop] Inl show ?thesis by auto
    next
      case again
      from sync_try_cases [OF again] Inl show ?thesis by auto
    next
      case pause
      have "int i + 1 < rp_max_attempts p" using pause(1) by linarith
      with pause_error(1) [OF pause(2)] Inl show ?thesis by auto
    qed
  qed
qed

lemma run_async_result:
  assumes "post_init p = Inr p" and "run_async atimeout sleep fn p w = (r, w')"
  shows "case r of
      Inr x \<Rightarrow> \<exists>v u. fn (rp_timeout p) v = Finished (Inr x) u
    | Inl e \<Rightarrow> (\<exists>v. fst (cb_guard p v) = Inl e) \<or>
        (\<exists>v u. fn (rp_timeout p) v = Finished (Inl e) u) \<or>
        (\<exists>c. e = wrapped_timeout (rp_timeout p) c) \<or>
        (\<exists>v i. int i + 1 < rp_max_attempts p \<and> fst (backoff p i v) = Inl e)"
proof -
  have m: "1 \<le> rp_max_attempts p" using assms(1) by (simp add: post_init_valid)
  then have n: "0 < nat (rp_max_attempts p)" by simp
  note R = retry_loop_result [OF _ n, where k = 0, of "cb_guard p" "async_try atimeout fn p"
      "sleep_async sleep p" w r w']
  have R: "case r of
      Inr x \<Rightarrow> \<exists>v. async_try atimeout fn p v = (Done x, w')
    | Inl e \<Rightarrow> (\<exists>v. cb_guard p v = (Inl e, w')) \<or>
        (\<exists>v. async_try atimeout fn p v = (Stop e, w')) \<or>
        (\<exists>v. async_try atimeout fn p v = (Again e, w')) \<or>
        (\<exists>v i. 0 \<le> i \<and> i + 1 < 0 + nat (rp_max_attempts p) \<and>
          sleep_async sleep p i v = (Inl e, w'))"
    using assms(2) by (intro R) (simp add: run_async_loop [OF m])
  show ?thesis
  proof (cases r)
    case (Inr x)
    with R obtain v where "async_try atimeout fn p v = (Done x, w')" by auto
    from async_try_cases [OF this] Inr show ?thesis by auto
  next
    case (Inl e)
    from R Inl consider
        (grd) v where "cb_guard p v = (Inl e, w')"
      | (stop) v where "async_try atimeout fn p v = (Stop e, w')"
      | (again) v where "async_try atimeout fn p v = (Again e, w')"
      | (pause) v i where "i + 1 < nat (rp_max_attempts p)" "sleep_async sleep p i v = (Inl e, w')"
      by auto
    then show ?thesis
    proof cases
      case grd
      then have "fst (cb_guard p v) = Inl e" by simp
      with Inl show ?thesis by auto
    next
      case stop
      from async_try_cases [OF stop] Inl show ?thesis by auto
    next
      case again
      from async_try_cases [OF again] Inl show ?thesis by auto
    next
      case pause
      have "int i + 1 < rp_max_attempts p" using pause(1) by linarith
      with pause_error(2) [OF pause(2)] Inl show ?thesis by auto
    qed
  qed
qed

subsection \<open>Properties\<close>

text \<open>A concrete setting for the examples: the world counts calls and sums the pauses; the function
  raises \<^verbatim>\<open>ValueError\<close> on its first two calls, as the repository's own test does.\<close>

type_synonym meter = "nat \<times> rat"

definition demo_clock :: "meter clock" where
  "demo_clock w = (0, w)"

definition demo_sleep :: "rat \<Rightarrow> meter \<Rightarrow> meter" where
  "demo_sleep d w = (fst w, snd w + d)"

definition demo_fn :: "(meter, string) callback" where
  "demo_fn w =
     (if fst w < 2 then Inl (mk_exn ValueError ''transient'') else Inr ''recovered'',
      (Suc (fst w), snd w))"

definition demo_policy :: "'w breaker_ops option \<Rightarrow> 'w policy" where
  "demo_policy cb =
     \<lparr>rp_timeout = 1, rp_max_attempts = 4, rp_base_delay = 1 / 10, rp_max_delay = 30,
      rp_multiplier = 2, rp_retryable_exceptions = [Exception],
      rp_retryable_status = default_retryable_status, rp_breaker = cb,
      rp_random = (\<lambda>w. (1 / 2, w))\<rparr>"

lemma demo_policy_valid: "post_init (demo_policy cb) = Inr (demo_policy cb)"
  by (simp add: post_init_valid demo_policy_def)

lemma demo_policy_sel [simp]:
  "rp_max_attempts (demo_policy cb) = 4" "rp_max_delay (demo_policy cb) = 30"
  "rp_timeout (demo_policy cb) = 1" "rp_breaker (demo_policy cb) = cb"
  "rp_base_delay (demo_policy cb) = 1 / 10" "rp_multiplier (demo_policy cb) = 2"
  "rp_random (demo_policy cb) w = (1 / 2, w)"
  by (simp_all add: demo_policy_def)

lemma four_attempts: "[0..<4] = [0, 1, 2, 3 :: nat]"
  by (simp add: upt_rec)

lemma demo_run:
  "run_sync demo_clock demo_sleep demo_fn (demo_policy None) (0, 0) = (Inr ''recovered'', (3, 3 / 20))"
  by (simp add: run_sync_def demo_policy_def four_attempts demo_clock_def demo_sleep_def demo_fn_def
      cb_guard_def cb_failed_def cb_succeeded_def is_retryable_def status_of_def no_attrs_def
      sleep_sync_def backoff_def uniform_def float_pow_def float_limit_def)

text \<open>C3: both drivers implement the same bounded retry: guard, attempt, pause, in this order, for at
  most \<^verbatim>\<open>max_attempts\<close> attempts. They differ in what an attempt is (\<open>sync_try\<close> checks the elapsed
  time afterwards, \<open>async_try\<close> runs under \<^verbatim>\<open>asyncio.wait_for\<close>) and in how they pause.\<close>

theorem drivers_refine_retry_loop:
  assumes "post_init p = Inr p"
  shows "run_sync clk sleep fn p w =
      retry_loop (cb_guard p) (sync_try clk fn p) (sleep_sync sleep p) (nat (rp_max_attempts p)) 0 w \<and>
    run_async atimeout sleep afn p w =
      retry_loop (cb_guard p) (async_try atimeout afn p) (sleep_async sleep p)
        (nat (rp_max_attempts p)) 0 w"
  using assms by (simp add: post_init_valid run_sync_loop run_async_loop)

theorem drivers_refine_retry_loop_witness:
  "retry_loop (cb_guard (demo_policy None)) (sync_try demo_clock demo_fn (demo_policy None))
     (sleep_sync demo_sleep (demo_policy None)) 4 0 (0, 0) = (Inr ''recovered'', (3, 3 / 20))"
  using drivers_refine_retry_loop [OF demo_policy_valid [of None], where clk = demo_clock
      and sleep = demo_sleep and fn = demo_fn and w = "(0, 0)", THEN conjunct1]
    demo_run by simp

text \<open>C16: what a call of a decorated plain function ends with. A value is one the function returned
  in an attempt that took no longer than the timeout. An exception is the breaker's, or one the
  function raised, or \<^verbatim>\<open>TimeoutExceeded\<close>, or the overflow of a backoff computed before the last
  attempt: never anything else.\<close>

theorem run_sync_outcome:
  assumes "post_init p = Inr p" and "run_sync clk sleep fn p w = (r, w')"
  shows "case r of
      Inr x \<Rightarrow> \<exists>v v1 v2. clk v = (fst (clk v), v1) \<and> fn v1 = (Inr x, v2) \<and>
        fst (clk v2) - fst (clk v) \<le> rp_timeout p
    | Inl e \<Rightarrow> (\<exists>v. fst (cb_guard p v) = Inl e) \<or> (\<exists>v. fst (fn v) = Inl e) \<or>
        (\<exists>t > rp_timeout p. e = timeout_exceeded t (rp_timeout p)) \<or>
        (\<exists>v i. int i + 1 < rp_max_attempts p \<and> fst (backoff p i v) = Inl e)"
  using assms by (rule run_sync_result)

theorem run_sync_outcome_witness:
  "\<exists>v v1 v2. demo_clock v = (fst (demo_clock v), v1) \<and> demo_fn v1 = (Inr ''recovered'', v2) \<and>
     fst (demo_clock v2) - fst (demo_clock v) \<le> 1"
  using run_sync_outcome [OF demo_policy_valid demo_run] by (simp add: demo_policy_def)

text \<open>The class \<^verbatim>\<open>RetriesExhausted\<close>, documented as raised when all attempts have been used, is
  never raised by a driver: with a validated policy the code after the loop is unreachable, and
  the last attempt raises its own exception.\<close>

theorem retries_exhausted_unreachable:
  assumes "post_init p = Inr p"
    and "\<forall>v e. fst (cb_guard p v) = Inl e \<longrightarrow> \<not> isinstance e RetriesExhausted"
    and "\<forall>v e. fst (fn v) = Inl e \<longrightarrow> \<not> isinstance e RetriesExhausted"
    and "\<forall>v e u. afn (rp_timeout p) v = Finished (Inl e) u \<longrightarrow> \<not> isinstance e RetriesExhausted"
    and "fst (run_sync clk sleep fn p w) = Inl e \<or> fst (run_async atimeout sleep afn p w) = Inl e"
  shows "\<not> isinstance e RetriesExhausted"
  using assms(5)
proof
  assume "fst (run_sync clk sleep fn p w) = Inl e"
  then obtain w' where "run_sync clk sleep fn p w = (Inl e, w')" by (metis prod.collapse)
  from run_sync_result [OF assms(1) this] assms(2,3) show ?thesis
    by (auto simp: timeout_exceeded_def isinstance_def mk_exn_def dest: backoff_error)
next
  assume "fst (run_async atimeout sleep afn p w) = Inl e"
  then obtain w' where "run_async atimeout sleep afn p w = (Inl e, w')" by (metis prod.collapse)
  from run_async_result [OF assms(1) this] assms(2,4) show ?thesis
    by (auto simp: wrapped_timeout_def isinstance_def dest: backoff_error) blast
qed

text \<open>\<open>metered calls slept\<close>: reading the world with \<open>calls\<close> and \<open>slept\<close>, only the function counts as
  a call, only the sleep adds to the pauses, and the random source stays in the unit interval.\<close>

definition metered ::
  "('w \<Rightarrow> nat) \<Rightarrow> ('w \<Rightarrow> rat) \<Rightarrow> 'w clock \<Rightarrow> (rat \<Rightarrow> 'w \<Rightarrow> 'w) \<Rightarrow> ('w, 'a) callback \<Rightarrow> 'w policy \<Rightarrow> bool" where
  "metered calls slept clk sleep fn p \<longleftrightarrow>
     (\<forall>w. calls (snd (fn w)) = Suc (calls w) \<and> slept (snd (fn w)) = slept w) \<and>
     (\<forall>d w. calls (sleep d w) = calls w \<and> slept (sleep d w) = slept w + d) \<and>
     (\<forall>w. calls (snd (clk w)) = calls w \<and> slept (snd (clk w)) = slept w) \<and>
     (\<forall>w. calls (snd (rp_random p w)) = calls w \<and> slept (snd (rp_random p w)) = slept w \<and>
        0 \<le> fst (rp_random p w) \<and> fst (rp_random p w) \<le> 1) \<and>
     (\<forall>w. calls (snd (cb_guard p w)) = calls w \<and> slept (snd (cb_guard p w)) = slept w) \<and>
     (\<forall>w. calls (cb_failed p w) = calls w \<and> slept (cb_failed p w) = slept w) \<and>
     (\<forall>w. calls (cb_succeeded p w) = calls w \<and> slept (cb_succeeded p w) = slept w)"

lemma metered_try:
  assumes "metered calls slept clk sleep fn p"
  shows "calls (snd (sync_try clk fn p v)) = Suc (calls v) \<and> slept (snd (sync_try clk fn p v)) = slept v"
proof -
  obtain s w1 where 1: "clk v = (s, w1)" by (rule prod.exhaust)
  obtain r w2 where 2: "fn w1 = (r, w2)" by (rule prod.exhaust)
  obtain s' w3 where 3: "clk w2 = (s', w3)" by (rule prod.exhaust)
  have "calls w1 = calls v \<and> slept w1 = slept v" and "calls w2 = Suc (calls w1) \<and> slept w2 = slept w1"
    and "calls w3 = calls w2 \<and> slept w3 = slept w2"
    using assms unfolding metered_def by (metis 1 2 3 snd_conv)+
  then show ?thesis
    using assms by (auto simp: metered_def sync_try_def 1 2 3 Let_def split: sum.splits)
qed

lemma metered_pause:
  assumes "metered calls slept clk sleep fn p" and "post_init p = Inr p"
  shows "calls (snd (sleep_sync sleep p i v)) = calls v \<and> slept v \<le> slept (snd (sleep_sync sleep p i v)) \<and>
    slept (snd (sleep_sync sleep p i v)) \<le> slept v + rp_max_delay p"
proof -
  obtain r w1 where b: "backoff p i v = (r, w1)" by (rule prod.exhaust)
  have u: "0 \<le> fst (rp_random p v) \<and> fst (rp_random p v) \<le> 1" using assms(1) by (simp add: metered_def)
  note R = backoff_result [OF b assms(2) u]
  have rnd: "calls (snd (rp_random p v)) = calls v" "slept (snd (rp_random p v)) = slept v"
    using assms(1) by (auto simp: metered_def)
  show ?thesis
  proof (cases r)
    case (Inl e)
    with R assms(2) show ?thesis by (simp add: sleep_sync_def b post_init_valid)
  next
    case (Inr d)
    have "calls (sleep d w1) = calls w1 \<and> slept (sleep d w1) = slept w1 + d"
      using assms(1) by (simp add: metered_def)
    with Inr R rnd show ?thesis by (auto simp: sleep_sync_def b)
  qed
qed

text \<open>C25: the effort of a decorated call is bounded: the function is called at most \<^verbatim>\<open>max_attempts\<close>
  times, and the pauses add up to at most \<^verbatim>\<open>(max_attempts - 1) * max_delay\<close>.\<close>

theorem bounded_effort:
  assumes "post_init p = Inr p" and "metered calls slept clk sleep fn p"
  shows "calls (snd (run_sync clk sleep fn p w)) \<le> calls w + nat (rp_max_attempts p) \<and>
    slept w \<le> slept (snd (run_sync clk sleep fn p w)) \<and>
    slept (snd (run_sync clk sleep fn p w)) \<le>
      slept w + of_nat (nat (rp_max_attempts p) - 1) * rp_max_delay p"
proof -
  have p: "1 \<le> rp_max_attempts p" "0 \<le> rp_max_delay p" using assms(1) by (auto simp: post_init_valid)
  show ?thesis
    unfolding run_sync_loop [OF p(1)]
  proof (rule retry_loop_meter)
    show "calls (snd (cb_guard p v)) = calls v \<and> slept (snd (cb_guard p v)) = slept v" for v
      using assms(2) by (simp add: metered_def)
  qed (use p metered_try [OF assms(2)] metered_pause [OF assms(2,1)] in auto)
qed

theorem bounded_effort_witness:
  "fst (snd (run_sync demo_clock demo_sleep demo_fn (demo_policy None) (0, 0))) \<le> 4 \<and>
   snd (snd (run_sync demo_clock demo_sleep demo_fn (demo_policy None) (0, 0))) \<le> 90"
proof -
  have "metered fst snd demo_clock demo_sleep demo_fn (demo_policy None)"
    by (simp add: metered_def demo_clock_def demo_sleep_def demo_fn_def cb_guard_def
        cb_failed_def cb_succeeded_def)
  from bounded_effort [OF demo_policy_valid this, of "(0, 0)"] show ?thesis by simp
qed

text \<open>With the default multiplier the backoff is defined up to attempt 1023, and from attempt 1024
  on it raises \<^verbatim>\<open>OverflowError\<close>, although the delay is meant to be capped by \<^verbatim>\<open>max_delay\<close>.\<close>

theorem backoff_overflow:
  "(\<exists>e. fst (backoff (demo_policy cb) k w) = Inl e \<and> isinstance e OverflowError) \<longleftrightarrow> 1024 \<le> k"
proof -
  have "(2::rat) ^ k < float_limit \<longleftrightarrow> k < 1024"
  proof (cases "k < 1024")
    case True
    then have "k \<le> 1023" by simp
    then have "(2::rat) ^ k \<le> 2 ^ 1023" by (rule power_increasing) simp
    with float_limit_pos True show ?thesis by simp
  next
    case False
    then have "1024 \<le> k" by simp
    then have "(2::rat) ^ 1024 \<le> 2 ^ k" by (rule power_increasing) simp
    moreover have "float_limit < 2 ^ 1024" by (simp add: float_limit_def)
    ultimately show ?thesis using False by simp
  qed
  then show ?thesis by (auto simp: backoff_def float_pow_def uniform_def)
qed

lemma sleep_sync_keeps:
  assumes "keeps_breaker (rp_random p)" and "\<forall>d. keeps_breaker (\<lambda>w. ((), sleep d w))"
    and "sleep_sync sleep p i v = (r, v')"
  shows "fst v' = fst v"
proof -
  obtain d w1 where b: "rp_random p v = (d, w1)" by (rule prod.exhaust)
  have "fst w1 = fst v" using keeps_breakerD [OF assms(1) b] .
  moreover have "fst (sleep d' w1) = fst w1" for d'
    using assms(2) unfolding keeps_breaker_def by (metis snd_conv)
  ultimately show ?thesis
    using assms(3) by (auto simp: sleep_sync_def backoff_def float_pow_def uniform_def b Let_def
        split: if_splits)
qed

text \<open>A driver gives every trial slot it takes back: with the breaker of theory \<open>Circuit\<close> (which
  the function itself does not touch), a finished call leaves the object consistent and no more
  trial slots taken than before, however it ended.\<close>

theorem driver_returns_slots:
  assumes "rp_breaker p = Some (core_breaker bclk)" and "1 \<le> rp_max_attempts p" and "cb_inv cb"
    and "keeps_breaker clk" and "keeps_breaker fn" and "keeps_breaker (rp_random p)"
    and "\<forall>d. keeps_breaker (\<lambda>w. ((), sleep d w))"
    and "run_sync clk sleep fn p (cb, v) = (r, (cb', v'))"
  shows "cb_inv cb' \<and> cb_half_open_calls cb' \<le> cb_half_open_calls cb"
proof -
  let ?c = "cb_half_open_calls cb"
  have c: "0 \<le> ?c" using assms(3) by (simp add: cb_inv_def)
  have "slots_kept ?c (snd (run_sync clk sleep fn p (cb, v)))"
    unfolding run_sync_loop [OF assms(2)]
  proof (rule retry_loop_invariant [where R = "\<lambda>w. cb_inv (fst w)"])
    fix w e w' assume "slots_kept ?c w" and "cb_guard p w = (Inl e, w')"
    then show "slots_kept ?c w'"
      using assms(1) guard_denied [of "fst w" bclk "snd w" e "fst w'" "snd w'"]
      by (auto simp: slots_kept_def cb_guard_def core_breaker_def split: prod.splits)
  next
    fix w u w' assume "slots_kept ?c w" and "cb_guard p w = (Inr u, w')"
    then show "cb_inv (fst w')"
      using assms(1) guard_admitted [of "fst w" bclk "snd w" u "fst w'" "snd w'"]
      by (auto simp: slots_kept_def cb_guard_def core_breaker_def split: prod.splits)
  next
    fix w t w' assume "cb_inv (fst w)" and "sync_try clk fn p w = (t, w')"
    with assms(1,4,5) c show "slots_kept ?c w'" by (blast intro: sync_try_slots)
  next
    fix w i q w' assume "slots_kept ?c w" and "sleep_sync sleep p i w = (q, w')"
    with assms(6,7) sleep_sync_keeps [of p sleep i w q w'] show "slots_kept ?c w'"
      by (simp add: slots_kept_def)
  next
    show "slots_kept ?c (cb, v)" using assms(3) by (simp add: slots_kept_def)
  qed
  with assms(8) show ?thesis by (simp add: slots_kept_def)
qed

definition idle :: "'b \<Rightarrow> 'w \<Rightarrow> 'b \<times> 'w" where
  "idle x w = (x, w)"

lemma idle_simp [simp]: "idle x w = (x, w)"
  by (simp add: idle_def)

text \<open>While the circuit is open and its cooldown runs, a decorated call fails at once with
  \<^verbatim>\<open>CircuitOpenError\<close>, telling the remaining cooldown: the function is not called, nothing is
  recorded and nothing changes.\<close>

theorem open_circuit_short_circuits:
  assumes "rp_breaker p = Some (core_breaker bclk)" and "1 \<le> rp_max_attempts p"
    and "cb_state cb = OPEN" and "cb_opened_at cb = Some t0"
    and "bclk v = (t, v)" and "t - t0 < cb_cooldown cb"
  shows "run_sync clk sleep fn p (cb, v) =
    (Inl (circuit_open_error (cb_name cb) (cb_cooldown cb - (t - t0))), (cb, v))"
proof -
  have m: "maybe_half_open bclk cb v = (cb, v)"
    using assms(3-6) by (simp add: maybe_half_open_def)
  then have "allow bclk cb v = (False, cb, v)" using assms(3) by (simp add: allow_def)
  moreover have "retry_after bclk cb v = (cb_cooldown cb - (t - t0), cb, v)"
    using assms(3-6) m by (simp add: retry_after_def)
  moreover obtain n where "nat (rp_max_attempts p) = Suc n"
    using assms(2) by (cases "nat (rp_max_attempts p)") auto
  ultimately show ?thesis
    by (simp add: run_sync_loop [OF assms(2)] cb_guard_def assms(1) core_breaker_def guard_def)
qed

text \<open>The two drivers agree. Let \<open>afn\<close> be the coroutine that does what \<open>fn\<close> does, no attempt
  of which exceeds the timeout, and let \<open>fn\<close> raise no \<^verbatim>\<open>asyncio.TimeoutError\<close> of its own; then a
  decorated call of either gives the same result in the same world.\<close>

theorem sync_async_agree:
  assumes "post_init p = Inr p"
    and "\<forall>v. snd (clk v) = v" and "\<forall>v. sleep 0 v = v"
    and "\<forall>v. 0 \<le> fst (rp_random p v) \<and> fst (rp_random p v) \<le> 1"
    and "\<forall>v. afn (rp_timeout p) v = Finished (fst (fn v)) (snd (fn v))"
    and "\<forall>v. fst (clk (snd (fn v))) - fst (clk v) \<le> rp_timeout p"
    and "\<forall>v e. fst (fn v) = Inl e \<longrightarrow> \<not> isinstance e atimeout"
  shows "run_sync clk sleep fn p w = run_async atimeout sleep afn p w"
proof -
  have m: "1 \<le> rp_max_attempts p" using assms(1) by (simp add: post_init_valid)
  have tr: "sync_try clk fn p v = async_try atimeout afn p v" for v
  proof -
    obtain s where 1: "clk v = (s, v)" using assms(2) by (metis prod.collapse)
    obtain r v2 where 2: "fn v = (r, v2)" by (rule prod.exhaust)
    obtain s2 where 3: "clk v2 = (s2, v2)" using assms(2) by (metis prod.collapse)
    have "s2 - s \<le> rp_timeout p" using assms(6) 1 2 3 by (metis fst_conv snd_conv)
    moreover have "afn (rp_timeout p) v = Finished r v2" using assms(5) 2 by simp
    moreover have "\<not> isinstance e atimeout" if "r = Inl e" for e using assms(7) 2 that by (metis fst_conv)
    ultimately show ?thesis
      by (auto simp: sync_try_def async_try_def wait_for_def 1 2 3 split: sum.splits)
  qed
  have pz: "sleep_sync sleep p i v = sleep_async sleep p i v" for i v
  proof -
    obtain r v1 where b: "backoff p i v = (r, v1)" by (rule prod.exhaust)
    show ?thesis
      using backoff_result [OF b assms(1)] assms(3,4)
      by (auto simp: sleep_sync_def sleep_async_def b order_le_less split: sum.splits)
  qed
  show ?thesis
    unfolding run_sync_loop [OF m] run_async_loop [OF m]
    using tr pz by (rule retry_loop_ext)
qed

text \<open>A coroutine that raises \<^verbatim>\<open>TimeoutError\<close> itself (Python 3.11, where it is
  \<^verbatim>\<open>asyncio.TimeoutError\<close>) is called again up to \<^verbatim>\<open>max_attempts\<close> times although the class is not
  among the retryable ones; the plain function with the same behaviour is called once.\<close>

theorem async_timeout_always_retried:
  "let p = demo_policy None\<lparr>rp_retryable_exceptions := [KeyError]\<rparr>;
       e = mk_exn TimeoutError ''read timed out'' in
   \<not> is_retryable p e \<and>
   run_async TimeoutError (\<lambda>d w. w) (\<lambda>_ n. Finished (Inl e :: exn + string) (Suc n)) p 0 =
     (Inl (wrapped_timeout 1 e), 4) \<and>
   run_sync (idle 0) (\<lambda>d w. w) (\<lambda>n. (Inl e :: exn + string, Suc n)) p 0 = (Inl e, 1)"
proof -
  have "(2::rat) ^ 0 < float_limit" "(2::rat) ^ 1 < float_limit" "(2::rat) ^ 2 < float_limit"
    by (simp_all add: float_limit_def)
  then show ?thesis
    by (simp add: run_sync_def run_async_def four_attempts wait_for_def cb_guard_def cb_failed_def
        is_retryable_def status_of_def no_attrs_def sleep_async_def backoff_def uniform_def
        float_pow_def Let_def)
qed

end
