(* ===== verification/Shared_Breaker.thy ===== *)
theory Shared_Breaker
  imports Retry
begin

section \<open>Threads and tasks that share a circuit breaker\<close>

text \<open>
  The drivers of \<^verbatim>\<open>retry.py\<close> once more, in the steps in which threads and tasks interleave. The lock
  of a \<^verbatim>\<open>CircuitBreaker\<close> is held for one method call, so \<^verbatim>\<open>guard\<close> is two steps (\<^verbatim>\<open>allow\<close>, and
  \<^verbatim>\<open>retry_after\<close> after a refusal), and the wrapped function runs between the guard and the report
  with no lock held. A caller is a program counter (\<open>pc\<close>); run alone it computes what the driver
  computes (\<open>thread_alone\<close>, \<open>task_alone\<close>). A system is any number of callers on one breaker; its steps
  are those of its callers in any order, the passing of time (any change of the world outside the
  breaker), queries and resets by others, and the arrival of callers.

  The interface \<open>slot_client\<close> says what a caller owes the breaker: it reports once for every call it was
  admitted to, and it comes to an end in a bounded number of its own steps. The lemmas on systems are
  proved from it.
\<close>

subsection \<open>A driver in steps\<close>

text \<open>\<open>Guarding\<close> is the head of the loop, with \<^verbatim>\<open>last_exc\<close> and the attempts \<^verbatim>\<open>range\<close> still has to
  give; \<open>Refused\<close> is \<^verbatim>\<open>guard\<close> between its two method calls; \<open>Running\<close> is an admitted attempt (\<open>'m\<close>
  says how far it is); \<open>Failing\<close> is about to report a failure (the flag: it may be repeated);
  \<open>Succeeding\<close> is about to report a success; \<open>Pausing\<close> is about to back off.\<close>

datatype ('m, 'a) pc =
    Guarding "exn option" "nat list"
  | Refused
  | Running 'm nat "nat list"
  | Failing exn bool nat "nat list"
  | Succeeding 'a
  | Pausing exn nat "nat list"
  | Ended "exn + 'a"

text \<open>What both drivers share. \<open>enter\<close> begins an attempt, \<open>run\<close> is a step of it, \<open>pause\<close> the backoff.\<close>

fun driver_step ::
  "'v clock \<Rightarrow> 'm \<Rightarrow> ('m \<Rightarrow> nat \<Rightarrow> nat list \<Rightarrow> 'v \<Rightarrow> ('m, 'a) pc \<times> 'v) \<Rightarrow> (nat \<Rightarrow> ('v, unit) callback) \<Rightarrow>
   int \<Rightarrow> ('m, 'a) pc \<Rightarrow> breaker \<times> 'v \<Rightarrow> ('m, 'a) pc \<times> breaker \<times> 'v" where
  "driver_step bclk enter run pause max_attempts (Guarding last_exc []) (cb, v) =
     (Ended (Inl (after_loop last_exc)), cb, v)"
| "driver_step bclk enter run pause max_attempts (Guarding last_exc (attempt # rest)) (cb, v) =
     (case allow bclk cb v of
        (True, cb', v') \<Rightarrow> (Running enter attempt rest, cb', v')
      | (False, cb', v') \<Rightarrow> (Refused, cb', v'))"
| "driver_step bclk enter run pause max_attempts Refused (cb, v) =
     (case retry_after bclk cb v of
        (after, cb', v') \<Rightarrow> (Ended (Inl (circuit_open_error (cb_name cb') after)), cb', v'))"
| "driver_step bclk enter run pause max_attempts (Running m attempt rest) (cb, v) =
     (case run m attempt rest v of (c, v') \<Rightarrow> (c, cb, v'))"
| "driver_step bclk enter run pause max_attempts (Failing exc again attempt rest) (cb, v) =
     (if \<not> again \<or> int attempt = max_attempts - 1 then Ended (Inl exc) else Pausing exc attempt rest,
      record_failure bclk cb v)"
| "driver_step bclk enter run pause max_attempts (Succeeding result) (cb, v) =
     (Ended (Inr result), record_success cb, v)"
| "driver_step bclk enter run pause max_attempts (Pausing exc attempt rest) (cb, v) =
     (case pause attempt v of
        (Inl e, v') \<Rightarrow> (Ended (Inl e), cb, v')
      | (Inr _, v') \<Rightarrow> (Guarding (Some exc) rest, cb, v'))"
| "driver_step bclk enter run pause max_attempts (Ended r) w = (Ended r, w)"

text \<open>An attempt of \<^verbatim>\<open>_run_sync\<close>: read the clock, call the function, read the clock again.\<close>

datatype 'a progress = Entered | Started rat | Returned 'a rat

fun thread_run ::
  "'v clock \<Rightarrow> ('v, 'a) callback \<Rightarrow> 'v policy \<Rightarrow> 'a progress \<Rightarrow> nat \<Rightarrow> nat list \<Rightarrow> 'v \<Rightarrow>
   ('a progress, 'a) pc \<times> 'v" where
  "thread_run clk fn p Entered attempt rest v =
     (case clk v of (start, v') \<Rightarrow> (Running (Started start) attempt rest, v'))"
| "thread_run clk fn p (Started start) attempt rest v =
     (case fn v of
        (Inl exc, v') \<Rightarrow> (Failing exc (is_retryable p exc) attempt rest, v')
      | (Inr result, v') \<Rightarrow> (Running (Returned result start) attempt rest, v'))"
| "thread_run clk fn p (Returned result start) attempt rest v =
     (case clk v of
        (now, v') \<Rightarrow>
          (if now - start > rp_timeout p
           then Failing (timeout_exceeded (now - start) (rp_timeout p)) True attempt rest
           else Succeeding result, v'))"

definition thread_step ::
  "'v clock \<Rightarrow> 'v clock \<Rightarrow> (rat \<Rightarrow> 'v \<Rightarrow> 'v) \<Rightarrow> ('v, 'a) callback \<Rightarrow> 'v policy \<Rightarrow>
   ('a progress, 'a) pc \<Rightarrow> breaker \<times> 'v \<Rightarrow> ('a progress, 'a) pc \<times> breaker \<times> 'v" where
  "thread_step bclk clk sleep fn p =
     driver_step bclk Entered (thread_run clk fn p) (sleep_sync sleep p) (rp_max_attempts p)"

text \<open>An attempt of \<^verbatim>\<open>_run_async\<close>: the coroutine under \<^verbatim>\<open>asyncio.wait_for\<close>.\<close>

definition task_run ::
  "pyclass \<Rightarrow> (rat \<Rightarrow> 'v \<Rightarrow> ('a, 'v) task) \<Rightarrow> 'v policy \<Rightarrow> unit \<Rightarrow> nat \<Rightarrow> nat list \<Rightarrow> 'v \<Rightarrow>
   (unit, 'a) pc \<times> 'v" where
  "task_run atimeout fn p m attempt rest v =
     (case wait_for atimeout fn (rp_timeout p) v of
        (Inl exc, v') \<Rightarrow>
          (if isinstance exc atimeout then Failing (wrapped_timeout (rp_timeout p) exc) True attempt rest
           else Failing exc (is_retryable p exc) attempt rest, v')
      | (Inr result, v') \<Rightarrow> (Succeeding result, v'))"

definition task_step ::
  "pyclass \<Rightarrow> 'v clock \<Rightarrow> (rat \<Rightarrow> 'v \<Rightarrow> 'v) \<Rightarrow> (rat \<Rightarrow> 'v \<Rightarrow> ('a, 'v) task) \<Rightarrow> 'v policy \<Rightarrow>
   (unit, 'a) pc \<Rightarrow> breaker \<times> 'v \<Rightarrow> (unit, 'a) pc \<times> breaker \<times> 'v" where
  "task_step atimeout bclk sleep fn p =
     driver_step bclk () (task_run atimeout fn p) (sleep_async sleep p) (rp_max_attempts p)"

definition first_pc :: "'v policy \<Rightarrow> ('m, 'a) pc" where
  "first_pc p = Guarding None [0..<nat (rp_max_attempts p)]"

text \<open>A call of a decorated function: a thread with a plain function, or a task with a coroutine, each
  with the policy it was decorated with.\<close>

datatype ('v, 'a) caller =
    Thread "'v policy" "('v, 'a) callback" "('a progress, 'a) pc"
  | Task "'v policy" "rat \<Rightarrow> 'v \<Rightarrow> ('a, 'v) task" "(unit, 'a) pc"

definition new_caller :: "'v policy \<Rightarrow> ('v, 'a) target \<Rightarrow> ('v, 'a) caller" where
  "new_caller p target =
     (case target of Plain fn \<Rightarrow> Thread p fn (first_pc p) | Coroutine fn \<Rightarrow> Task p fn (first_pc p))"

fun caller_step ::
  "pyclass \<Rightarrow> 'v clock \<Rightarrow> 'v clock \<Rightarrow> (rat \<Rightarrow> 'v \<Rightarrow> 'v) \<Rightarrow> ('v, 'a) caller \<Rightarrow> breaker \<times> 'v \<Rightarrow>
   ('v, 'a) caller \<times> breaker \<times> 'v" where
  "caller_step atimeout bclk clk sleep (Thread p fn c) w =
     (case thread_step bclk clk sleep fn p c w of (c', w') \<Rightarrow> (Thread p fn c', w'))"
| "caller_step atimeout bclk clk sleep (Task p fn c) w =
     (case task_step atimeout bclk sleep fn p c w of (c', w') \<Rightarrow> (Task p fn c', w'))"

subsection \<open>A caller alone\<close>

fun steps :: "nat \<Rightarrow> ('c \<Rightarrow> 'w \<Rightarrow> 'c \<times> 'w) \<Rightarrow> 'c \<Rightarrow> 'w \<Rightarrow> 'c \<times> 'w" where
  "steps 0 f c w = (c, w)"
| "steps (Suc n) f c w = (case f c w of (c', w') \<Rightarrow> steps n f c' w')"

text \<open>A callback on the world without the breaker, and a policy that uses the shared breaker: how the
  driver of theory \<open>Retry\<close> sees them.\<close>

definition beside :: "('v \<Rightarrow> 'b \<times> 'v) \<Rightarrow> breaker \<times> 'v \<Rightarrow> 'b \<times> breaker \<times> 'v" where
  "beside f w = (case f (snd w) of (x, v') \<Rightarrow> (x, fst w, v'))"

definition beside_sleep :: "(rat \<Rightarrow> 'v \<Rightarrow> 'v) \<Rightarrow> rat \<Rightarrow> breaker \<times> 'v \<Rightarrow> breaker \<times> 'v" where
  "beside_sleep sleep d w = (fst w, sleep d (snd w))"

fun beside_task :: "(rat \<Rightarrow> 'v \<Rightarrow> ('a, 'v) task) \<Rightarrow> rat \<Rightarrow> breaker \<times> 'v \<Rightarrow> ('a, breaker \<times> 'v) task" where
  "beside_task fn t (cb, v) =
     (case fn t v of Finished r v' \<Rightarrow> Finished r (cb, v') | Expired v' \<Rightarrow> Expired (cb, v'))"

definition sharing :: "'v clock \<Rightarrow> 'v policy \<Rightarrow> (breaker \<times> 'v) policy" where
  "sharing bclk p =
     \<lparr>rp_timeout = rp_timeout p, rp_max_attempts = rp_max_attempts p, rp_base_delay = rp_base_delay p,
      rp_max_delay = rp_max_delay p, rp_multiplier = rp_multiplier p,
      rp_retryable_exceptions = rp_retryable_exceptions p,
      rp_retryable_status = rp_retryable_status p, rp_breaker = Some (core_breaker bclk),
      rp_random = beside (rp_random p)\<rparr>"

lemma sharing_simps [simp]:
  "rp_max_attempts (sharing bclk p) = rp_max_attempts p" "rp_timeout (sharing bclk p) = rp_timeout p"
  "is_retryable (sharing bclk p) e = is_retryable p e"
  "cb_failed (sharing bclk p) (cb, v) = record_failure bclk cb v"
  "cb_succeeded (sharing bclk p) (cb, v) = (record_success cb, v)"
  by (simp_all add: sharing_def is_retryable_def cb_failed_def cb_succeeded_def core_breaker_def
      split: option.split)

lemma sharing_guard:
  "cb_guard (sharing bclk p) (cb, v) =
     (case allow bclk cb v of
        (True, cb', v') \<Rightarrow> (Inr (), cb', v')
      | (False, cb', v') \<Rightarrow>
          (case retry_after bclk cb' v' of
             (after, cb'', v'') \<Rightarrow> (Inl (circuit_open_error (cb_name cb'') after), cb'', v'')))"
  by (simp add: sharing_def cb_guard_def core_breaker_def guard_def split: prod.splits bool.splits)

lemma sharing_backoff:
  "backoff (sharing bclk p) k (cb, v) = (case backoff p k v of (r, v') \<Rightarrow> (r, cb, v'))"
  by (simp add: backoff_def sharing_def uniform_def beside_def Let_def split: sum.splits prod.splits)

lemma sharing_sleep:
  "sleep_sync (beside_sleep sleep) (sharing bclk p) k (cb, v) = (case sleep_sync sleep p k v of (r, v') \<Rightarrow> (r, cb, v'))"
  "sleep_async (beside_sleep sleep) (sharing bclk p) k (cb, v) = (case sleep_async sleep p k v of (r, v') \<Rightarrow> (r, cb, v'))"
  by (simp_all add: sleep_sync_def sleep_async_def sharing_backoff beside_sleep_def split: sum.splits prod.splits)

lemma beside_pair [simp]: "beside f (cb, v) = (case f v of (x, v') \<Rightarrow> (x, cb, v'))"
  by (simp add: beside_def)

lemma beside_wait_for:
  "wait_for atimeout (beside_task fn) t (cb, v) = (case wait_for atimeout fn t v of (r, v') \<Rightarrow> (r, cb, v'))"
  by (simp add: wait_for_def split: task.splits)

text \<open>An ended caller stays as it is, so more steps than needed do no harm.\<close>

lemma steps_Ended: "(\<And>r w. f (Ended r) w = (Ended r, w)) \<Longrightarrow> steps n f (Ended r) w = (Ended r, w)"
  by (induction n) auto

lemma driver_ended [simp]: "driver_step bclk enter run pause m (Ended r) w = (Ended r, w)"
  by (cases w) simp

text \<open>One step of a caller that is not at the head of its loop, or has an attempt left.\<close>

lemma steps_driver:
  "steps (Suc n) (driver_step bclk enter run pause m) (Guarding e (a # xs)) w =
     (case driver_step bclk enter run pause m (Guarding e (a # xs)) w of
        (c, w') \<Rightarrow> steps n (driver_step bclk enter run pause m) c w')"
  "steps (Suc n) (driver_step bclk enter run pause m) Refused w =
     (case driver_step bclk enter run pause m Refused w of
        (c, w') \<Rightarrow> steps n (driver_step bclk enter run pause m) c w')"
  "steps (Suc n) (driver_step bclk enter run pause m) (Running k a xs) w =
     (case driver_step bclk enter run pause m (Running k a xs) w of
        (c, w') \<Rightarrow> steps n (driver_step bclk enter run pause m) c w')"
  "steps (Suc n) (driver_step bclk enter run pause m) (Failing x b a xs) w =
     (case driver_step bclk enter run pause m (Failing x b a xs) w of
        (c, w') \<Rightarrow> steps n (driver_step bclk enter run pause m) c w')"
  "steps (Suc n) (driver_step bclk enter run pause m) (Succeeding y) w =
     (case driver_step bclk enter run pause m (Succeeding y) w of
        (c, w') \<Rightarrow> steps n (driver_step bclk enter run pause m) c w')"
  "steps (Suc n) (driver_step bclk enter run pause m) (Pausing x a xs) w =
     (case driver_step bclk enter run pause m (Pausing x a xs) w of
        (c, w') \<Rightarrow> steps n (driver_step bclk enter run pause m) c w')"
  "steps n (driver_step bclk enter run pause m) (Ended r) w = (Ended r, w)"
  by (simp_all add: steps_Ended)

lemma six_steps:
  assumes "6 * length (a # xs) + 1 \<le> n"
  obtains k where "n = Suc (Suc (Suc (Suc (Suc (Suc k)))))" "6 * length xs + 1 \<le> k"
proof (rule that [of "n - 6"])
  show "n = Suc (Suc (Suc (Suc (Suc (Suc (n - 6))))))" "6 * length xs + 1 \<le> n - 6"
    using assms by simp_all
qed

lemma thread_alone_from:
  "6 * length xs + 1 \<le> n \<Longrightarrow>
   steps n (thread_step bclk clk sleep fn p) (Guarding e xs) (cb, v) =
     (case sync_attempts (beside clk) (beside_sleep sleep) (beside fn) (sharing bclk p) e xs (cb, v) of
        (r, w') \<Rightarrow> (Ended r, w'))"
proof (induction xs arbitrary: n e cb v)
  case Nil
  then obtain k where "n = Suc k" by (cases n) auto
  then show ?case by (simp add: thread_step_def steps_Ended)
next
  case (Cons a xs)
  obtain k where n: "n = Suc (Suc (Suc (Suc (Suc (Suc k)))))" and k: "6 * length xs + 1 \<le> k"
    using Cons.prems by (rule six_steps)
  have IH: "steps m (driver_step bclk Entered (thread_run clk fn p) (sleep_sync sleep p) (rp_max_attempts p))
        (Guarding (Some x) xs) w =
      (case sync_attempts (beside clk) (beside_sleep sleep) (beside fn) (sharing bclk p) (Some x) xs w of
        (r, w') \<Rightarrow> (Ended r, w'))" if "m = k \<or> m = Suc k" for m x w
    using Cons.IH [of m "Some x" "fst w" "snd w"] k that by (auto simp: thread_step_def)
  obtain ok cb1 v1 where A: "allow bclk cb v = (ok, cb1, v1)" by (rule prod_cases3)
  obtain s v2 where S: "clk v1 = (s, v2)" by (rule prod.exhaust)
  obtain r v3 where R: "fn v2 = (r, v3)" by (rule prod.exhaust)
  note simps = n thread_step_def sharing_guard sharing_sleep steps_driver IH Let_def A S R
  show ?case
  proof (cases ok)
    case False
    then show ?thesis by (simp add: simps del: steps.simps split: prod.split)
  next
    case True
    show ?thesis
    proof (cases r)
      case (Inl exc)
      obtain cb4 v4 where F: "record_failure bclk cb1 v3 = (cb4, v4)" by (rule prod.exhaust)
      obtain q v5 where Q: "sleep_sync sleep p a v4 = (q, v5)" by (rule prod.exhaust)
      from True Inl show ?thesis by (cases q) (simp_all add: simps F Q del: steps.simps)
    next
      case (Inr x)
      obtain t v4 where T: "clk v3 = (t, v4)" by (rule prod.exhaust)
      obtain cb5 v5 where F: "record_failure bclk cb1 v4 = (cb5, v5)" by (rule prod.exhaust)
      obtain q v6 where Q: "sleep_sync sleep p a v5 = (q, v6)" by (rule prod.exhaust)
      from True Inr show ?thesis by (cases q) (simp_all add: simps T F Q del: steps.simps)
    qed
  qed
qed

lemma task_alone_from:
  "6 * length xs + 1 \<le> n \<Longrightarrow>
   steps n (task_step atimeout bclk sleep fn p) (Guarding e xs) (cb, v) =
     (case async_attempts atimeout (beside_sleep sleep) (beside_task fn) (sharing bclk p) e xs (cb, v) of
        (r, w') \<Rightarrow> (Ended r, w'))"
proof (induction xs arbitrary: n e cb v)
  case Nil
  then obtain k where "n = Suc k" by (cases n) auto
  then show ?case by (simp add: task_step_def steps_Ended)
next
  case (Cons a xs)
  obtain k where n: "n = Suc (Suc (Suc (Suc (Suc (Suc k)))))" and k: "6 * length xs + 1 \<le> k"
    using Cons.prems by (rule six_steps)
  have IH: "steps m (driver_step bclk () (task_run atimeout fn p) (sleep_async sleep p) (rp_max_attempts p))
        (Guarding (Some x) xs) w =
      (case async_attempts atimeout (beside_sleep sleep) (beside_task fn) (sharing bclk p) (Some x) xs w of
        (r, w') \<Rightarrow> (Ended r, w'))" if "m = Suc (Suc k)" for m x w
    using Cons.IH [of m "Some x" "fst w" "snd w"] k that by (auto simp: task_step_def)
  obtain ok cb1 v1 where A: "allow bclk cb v = (ok, cb1, v1)" by (rule prod_cases3)
  obtain r v2 where R: "wait_for atimeout fn (rp_timeout p) v1 = (r, v2)" by (rule prod.exhaust)
  obtain cb3 v3 where F: "record_failure bclk cb1 v2 = (cb3, v3)" by (rule prod.exhaust)
  obtain q v4 where Q: "sleep_async sleep p a v3 = (q, v4)" by (rule prod.exhaust)
  note simps = n task_step_def task_run_def beside_wait_for sharing_guard sharing_sleep steps_driver IH
    Let_def A R F Q
  show ?case
  proof (cases ok)
    case False
    then show ?thesis by (simp add: simps del: steps.simps split: prod.split)
  next
    case True
    then show ?thesis by (cases r; cases q) (simp_all add: simps del: steps.simps)
  qed
qed

subsection \<open>What a caller owes the breaker\<close>

text \<open>\<open>client_move bclk b cb v b' cb' v'\<close>: one step of a caller that was (\<open>b\<close>) and is then (\<open>b'\<close>) in a
  call it was admitted to, from the breaker \<open>cb\<close> and the rest of the world \<open>v\<close> to \<open>cb'\<close> and \<open>v'\<close>.\<close>

inductive client_move :: "'v clock \<Rightarrow> bool \<Rightarrow> breaker \<Rightarrow> 'v \<Rightarrow> bool \<Rightarrow> breaker \<Rightarrow> 'v \<Rightarrow> bool"
  for bclk :: "'v clock" where
  quiet: "client_move bclk b cb v b cb v'"
| admitted: "allow bclk cb v = (True, cb', v') \<Longrightarrow> client_move bclk False cb v True cb' v'"
| refused: "allow bclk cb v = (False, cb', v') \<Longrightarrow> client_move bclk False cb v False cb' v'"
| asked: "retry_after bclk cb v = (r, cb', v') \<Longrightarrow> client_move bclk False cb v False cb' v'"
| succeeded: "client_move bclk True cb v False (record_success cb) v"
| failed: "record_failure bclk cb v = (cb', v') \<Longrightarrow> client_move bclk True cb v False cb' v'"

inductive_cases client_moveE: "client_move bclk b cb v b' cb' v'"

text \<open>A step of a caller is a call of a method of the breaker, or none.\<close>

lemma client_move_reachable:
  assumes "client_move bclk b cb v b' cb' v'" and "cb_reachable bclk cb"
  shows "cb_reachable bclk cb'"
  using assms(1)
proof (cases rule: client_move.cases)
  case admitted
  then have "cb_step bclk Allow cb v = (cb', v')" by simp
  with assms(2) show ?thesis by (rule called)
next
  case refused
  then have "cb_step bclk Allow cb v = (cb', v')" by simp
  with assms(2) show ?thesis by (rule called)
next
  case (asked r)
  then have "cb_step bclk RetryAfter cb v = (cb', v')" by simp
  with assms(2) show ?thesis by (rule called)
next
  case succeeded
  then have "cb_step bclk Success cb v = (cb', v')" by simp
  with assms(2) show ?thesis by (rule called)
next
  case failed
  then have "cb_step bclk Failure cb v = (cb', v')" by simp
  with assms(2) show ?thesis by (rule called)
qed (use assms(2) in simp)

lemma no_new_slots:
  "allow clk cb v = (False, cb', v') \<Longrightarrow> cb_inv cb \<Longrightarrow> cb_half_open_calls cb' \<le> cb_half_open_calls cb"
  "allow clk cb v = (True, cb', v') \<Longrightarrow> cb_inv cb \<Longrightarrow> cb_half_open_calls cb' \<le> cb_half_open_calls cb + 1"
  "retry_after clk cb v = (r, cb', v') \<Longrightarrow> cb_inv cb \<Longrightarrow> cb_half_open_calls cb' \<le> cb_half_open_calls cb"
  "read_state clk cb v = (s, cb', v') \<Longrightarrow> cb_inv cb \<Longrightarrow> cb_half_open_calls cb' \<le> cb_half_open_calls cb"
  by (auto simp: allow_def retry_after_def read_state_def maybe_half_open_def Let_def cb_inv_def
      split: option.splits if_splits prod.splits circuit_state.splits)

text \<open>The slots a step may take: one, when it becomes a call; after a report none is taken.\<close>

lemma client_move_slots:
  assumes "client_move bclk b cb v b' cb' v'" and "cb_inv cb"
  shows "cb_half_open_calls cb' \<le> cb_half_open_calls cb + (if b' \<and> \<not> b then 1 else 0) \<and>
    (b \<and> \<not> b' \<longrightarrow> cb_half_open_calls cb' = 0)"
  using assms(1)
proof (cases rule: client_move.cases)
  case failed
  with record_failure_no_slots [OF assms(2) failed(3)] assms(2) show ?thesis by (simp add: cb_inv_def)
next
  case succeeded
  with assms(2) show ?thesis by (simp add: record_success_def cb_inv_def)
qed (use no_new_slots assms(2) in auto)

subsection \<open>Systems of callers\<close>

type_synonym ('c, 'v) sys = "'c list \<times> breaker \<times> 'v"

datatype ('c, 'v) event = Move nat | Elapse 'v | Query cb_op | Arrive 'c

inductive sys_step ::
  "'v clock \<Rightarrow> ('c \<Rightarrow> breaker \<times> 'v \<Rightarrow> 'c \<times> breaker \<times> 'v) \<Rightarrow> ('c \<Rightarrow> bool) \<Rightarrow>
   ('c, 'v) event \<Rightarrow> ('c, 'v) sys \<Rightarrow> ('c, 'v) sys \<Rightarrow> bool"
  for bclk step fresh where
  moves: "i < length cs \<Longrightarrow> step (cs ! i) (cb, v) = (c', cb', v') \<Longrightarrow>
    sys_step bclk step fresh (Move i) (cs, cb, v) (cs[i := c'], cb', v')"
| elapses: "sys_step bclk step fresh (Elapse v') (cs, cb, v) (cs, cb, v')"
| queries: "op \<in> {StateRead, RetryAfter, Reset} \<Longrightarrow> cb_step bclk op cb v = (cb', v') \<Longrightarrow>
    sys_step bclk step fresh (Query op) (cs, cb, v) (cs, cb', v')"
| arrives: "fresh c \<Longrightarrow> sys_step bclk step fresh (Arrive c) (cs, cb, v) (cs @ [c], cb, v)"

inductive_simps sys_step_simps:
  "sys_step bclk step fresh (Move i) s s'"
  "sys_step bclk step fresh (Elapse v) s s'"
  "sys_step bclk step fresh (Query op) s s'"
  "sys_step bclk step fresh (Arrive c) s s'"

inductive_cases sys_stepE: "sys_step bclk step fresh e s s'"

inductive sys_run ::
  "'v clock \<Rightarrow> ('c \<Rightarrow> breaker \<times> 'v \<Rightarrow> 'c \<times> breaker \<times> 'v) \<Rightarrow> ('c \<Rightarrow> bool) \<Rightarrow>
   ('c, 'v) sys \<Rightarrow> ('c, 'v) event list \<Rightarrow> ('c, 'v) sys \<Rightarrow> bool"
  for bclk step fresh s where
  none: "sys_run bclk step fresh s [] s"
| more: "sys_run bclk step fresh s es s' \<Longrightarrow> sys_step bclk step fresh e s' s'' \<Longrightarrow>
    sys_run bclk step fresh s (es @ [e]) s''"

text \<open>The systems there are: a new breaker, no callers yet, and what happens then.\<close>

definition sys_reachable ::
  "'v clock \<Rightarrow> ('c \<Rightarrow> breaker \<times> 'v \<Rightarrow> 'c \<times> breaker \<times> 'v) \<Rightarrow> ('c \<Rightarrow> bool) \<Rightarrow> ('c, 'v) sys \<Rightarrow> bool" where
  "sys_reachable bclk step fresh s \<longleftrightarrow>
     (\<exists>n f c h cb v es. new_breaker n f c h = Inr cb \<and> sys_run bclk step fresh ([], cb, v) es s)"

text \<open>The number of callers in a call they were admitted to.\<close>

definition held :: "('c \<Rightarrow> bool) \<Rightarrow> 'c list \<Rightarrow> nat" where
  "held busy cs = length (List.filter busy cs)"

locale slot_client =
  fixes bclk :: "'v clock"
    and step :: "'c \<Rightarrow> breaker \<times> 'v \<Rightarrow> 'c \<times> breaker \<times> 'v"
    and fresh :: "'c \<Rightarrow> bool"
    and busy :: "'c \<Rightarrow> bool"
    and left :: "'c \<Rightarrow> nat"
  assumes moves_kept: "step c (cb, v) = (c', cb', v') \<Longrightarrow> client_move bclk (busy c) cb v (busy c') cb' v'"
    and fresh_idle: "fresh c \<Longrightarrow> \<not> busy c"
    and progress: "step c w = (c', w') \<Longrightarrow> left c' < left c \<or> left c = 0 \<and> c' = c"
begin

definition sys_ok :: "('c, 'v) sys \<Rightarrow> bool" where
  "sys_ok s \<longleftrightarrow> (case s of (cs, cb, v) \<Rightarrow>
     cb_reachable bclk cb \<and> cb_half_open_calls cb \<le> int (held busy cs))"

lemma quiet_slots:
  "op \<in> {StateRead, RetryAfter, Reset} \<Longrightarrow> cb_step bclk op cb v = (cb', v') \<Longrightarrow> cb_inv cb \<Longrightarrow>
     cb_half_open_calls cb' \<le> cb_half_open_calls cb"
proof -
  assume op: "op \<in> {StateRead, RetryAfter, Reset}" and c: "cb_step bclk op cb v = (cb', v')" and i: "cb_inv cb"
  from op consider "op = StateRead" | "op = RetryAfter" | "op = Reset" by blast
  then show ?thesis
  proof cases
    case 1
    with c obtain s where "read_state bclk cb v = (s, cb', v')" by (auto simp: snd_eq_iff)
    then show ?thesis using i by (rule no_new_slots)
  next
    case 2
    with c obtain r where "retry_after bclk cb v = (r, cb', v')" by (auto simp: snd_eq_iff)
    then show ?thesis using i by (rule no_new_slots)
  next
    case 3
    with c i show ?thesis by (auto simp: reset_def cb_inv_def)
  qed
qed

lemma step_ok: "sys_step bclk step fresh e s s' \<Longrightarrow> sys_ok s \<Longrightarrow> sys_ok s'"
proof (induction rule: sys_step.induct)
  case (moves i cs cb v c' cb' v')
  then have m: "client_move bclk (busy (cs ! i)) cb v (busy c') cb' v'" by (intro moves_kept) simp
  from moves.prems have r: "cb_reachable bclk cb" and c: "cb_half_open_calls cb \<le> int (held busy cs)"
    by (simp_all add: sys_ok_def)
  note inv = cb_reachable_inv [OF r]
  have "cb_half_open_calls cb' \<le> int (held busy (cs[i := c']))"
    using filter_update_length [OF moves.hyps(1), of busy c'] client_move_slots [OF m inv] c
    by (auto simp: held_def split: if_splits)
  with client_move_reachable [OF m r] show ?case by (simp add: sys_ok_def)
next
  case (queries op cb v cb' v' cs)
  then have r: "cb_reachable bclk cb" by (simp add: sys_ok_def)
  from queries quiet_slots [OF queries.hyps cb_reachable_inv [OF r]] called [OF r queries.hyps(2)]
  show ?case by (simp add: sys_ok_def)
next
  case (arrives c cs cb v)
  then show ?case by (simp add: sys_ok_def held_def)
qed (simp add: sys_ok_def)

lemma run_ok: "sys_run bclk step fresh s es s' \<Longrightarrow> sys_ok s \<Longrightarrow> sys_ok s'"
  by (induction rule: sys_run.induct) (auto dest: step_ok)

lemma reachable_ok: "sys_reachable bclk step fresh s \<Longrightarrow> sys_ok s"
  unfolding sys_reachable_def
proof (elim exE conjE)
  fix n f c h cb v es
  assume new: "new_breaker n f c h = Inr cb" and run: "sys_run bclk step fresh ([], cb, v) es s"
  have "cb_half_open_calls cb = 0" using new by (auto simp: new_breaker_def split: if_splits)
  with created [OF new] have "sys_ok ([], cb, v)" by (simp add: sys_ok_def)
  with run show "sys_ok s" by (rule run_ok)
qed

text \<open>A breaker that is shut out by nothing but busy callers admits the next call as long as fewer than
  the permitted number of them are.\<close>

lemma admits_when_free:
  assumes "sys_ok (cs, cb, v)" and "int (held busy cs) < cb_half_open_max cb"
    and "cb_state cb \<noteq> OPEN \<or> cooled bclk cb v"
  shows "fst (allow bclk cb v)"
proof -
  have inv: "cb_inv cb" and c: "cb_half_open_calls cb \<le> int (held busy cs)"
    using assms(1) cb_reachable_inv by (auto simp: sys_ok_def)
  show ?thesis
    using inv c assms(2,3)
    by (cases "cb_state cb")
      (auto simp: allow_def maybe_half_open_def cooled_def cb_inv_def Let_def
        split: option.splits prod.splits if_splits)
qed

text \<open>What every caller keeps true of itself holds of all callers of a run.\<close>

lemma run_callers:
  assumes "sys_run bclk step fresh s es s'" and "\<forall>c \<in> set (fst s). P c"
    and "\<And>c. fresh c \<Longrightarrow> P c" and "\<And>c w c' w'. P c \<Longrightarrow> step c w = (c', w') \<Longrightarrow> P c'"
  shows "\<forall>c \<in> set (fst s'). P c"
  using assms(1,2)
proof (induction rule: sys_run.induct)
  case (more es s' e s'')
  then have IH: "\<forall>c \<in> set (fst s'). P c" by blast
  from more.hyps(2) show ?case
  proof (cases rule: sys_step.cases)
    case (moves i cs cb v c' cb' v')
    with IH have "P c'" using assms(4) [OF _ moves(5)] by simp
    with IH moves set_update_subset_insert [of cs i c'] show ?thesis by auto
  qed (use IH assms(3) in auto)
qed simp

lemma run_progress:
  "sys_run bclk step fresh s es s' \<Longrightarrow> i < length (fst s) \<Longrightarrow>
     i < length (fst s') \<and> left (fst s' ! i) + count_list es (Move i) \<le> left (fst s ! i) \<or>
     i < length (fst s') \<and> left (fst s' ! i) = 0"
proof (induction rule: sys_run.induct)
  case (more es s' e s'')
  have "i < length (fst s'') \<and>
      (fst s'' ! i = fst s' ! i \<and> e \<noteq> Move i \<or> left (fst s'' ! i) < left (fst s' ! i) \<or>
       left (fst s' ! i) = 0 \<and> fst s'' ! i = fst s' ! i)"
    if "i < length (fst s')"
    using more.hyps(2)
  proof (cases rule: sys_step.cases)
    case (moves j cs cb v c' cb' v')
    from moves that progress [OF moves(5)] show ?thesis by (auto simp: nth_list_update)
  qed (use that in \<open>auto simp: nth_append\<close>)
  with more show ?case by (auto simp: count_list_append)
qed simp

end

subsection \<open>The drivers are such callers\<close>

fun pc_busy :: "('m, 'a) pc \<Rightarrow> bool" where
  "pc_busy (Running m attempt rest) = True"
| "pc_busy (Failing exc again attempt rest) = True"
| "pc_busy (Succeeding result) = True"
| "pc_busy c = False"

text \<open>A bound on the steps a caller has left; \<open>wt\<close> bounds those of its attempt.\<close>

fun pc_left :: "('m \<Rightarrow> nat) \<Rightarrow> ('m, 'a) pc \<Rightarrow> nat" where
  "pc_left wt (Guarding e xs) = 6 * length xs + 1"
| "pc_left wt Refused = 1"
| "pc_left wt (Running m a xs) = 6 * length xs + 3 + wt m"
| "pc_left wt (Failing e b a xs) = 6 * length xs + 3"
| "pc_left wt (Succeeding y) = 1"
| "pc_left wt (Pausing e a xs) = 6 * length xs + 2"
| "pc_left wt (Ended r) = 0"

fun progress_left :: "'a progress \<Rightarrow> nat" where
  "progress_left Entered = 3"
| "progress_left (Started s) = 2"
| "progress_left (Returned x s) = 1"

fun pc_result :: "('m, 'a) pc \<Rightarrow> (exn + 'a) option" where
  "pc_result (Ended r) = Some r"
| "pc_result c = None"

lemma pc_left_0 [simp]: "pc_left wt c = 0 \<longleftrightarrow> (\<exists>r. c = Ended r)"
  by (cases c) auto

lemma driver_moves:
  assumes "\<And>m a xs v. pc_busy (fst (run m a xs v))"
    and "driver_step bclk enter run pause n c (cb, v) = (c', cb', v')"
  shows "client_move bclk (pc_busy c) cb v (pc_busy c') cb' v'"
proof (cases c)
  case (Guarding e xs)
  with assms(2) show ?thesis
    by (cases xs) (auto intro: client_move.intros split: prod.splits bool.splits)
next
  case (Running m a xs)
  with assms(1) [of m a xs v] assms(2) show ?thesis by (auto intro: quiet split: prod.splits)
qed (use assms(2) in \<open>auto intro: client_move.intros split: prod.splits sum.splits if_splits\<close>)

lemma driver_progress:
  assumes "\<And>m a xs v. pc_left wt (fst (run m a xs v)) < pc_left wt (Running m a xs)"
    and "wt enter \<le> 3" and "driver_step bclk enter run pause n c w = (c', w')"
  shows "pc_left wt c' < pc_left wt c \<or> pc_left wt c = 0 \<and> c' = c"
proof -
  obtain cb v where w: "w = (cb, v)" by (rule prod.exhaust)
  show ?thesis
  proof (cases c)
    case (Guarding e xs)
    with assms(2,3) w show ?thesis by (cases xs) (auto split: prod.splits bool.splits)
  next
    case (Running m a xs)
    with assms(1) [of m a xs v] assms(3) w show ?thesis by (auto split: prod.splits)
  qed (use assms(3) w in \<open>auto split: prod.splits sum.splits if_splits\<close>)
qed

lemma thread_run_busy: "pc_busy (fst (thread_run clk fn p m a xs v))"
  by (cases m) (auto split: prod.splits sum.splits)

lemma thread_run_left:
  "pc_left progress_left (fst (thread_run clk fn p m a xs v)) < pc_left progress_left (Running m a xs)"
  by (cases m) (auto split: prod.splits sum.splits)

lemma thread_moves:
  "thread_step bclk clk sleep fn p c (cb, v) = (c', cb', v') \<Longrightarrow>
     client_move bclk (pc_busy c) cb v (pc_busy c') cb' v'"
  unfolding thread_step_def by (rule driver_moves [OF thread_run_busy])

lemma thread_progress:
  "thread_step bclk clk sleep fn p c w = (c', w') \<Longrightarrow>
     pc_left progress_left c' < pc_left progress_left c \<or> pc_left progress_left c = 0 \<and> c' = c"
  unfolding thread_step_def by (rule driver_progress [OF thread_run_left]) simp_all

lemma task_run_busy: "pc_busy (fst (task_run atimeout fn p m a xs v))"
  by (auto simp: task_run_def split: prod.splits sum.splits)

lemma task_run_left:
  "pc_left (\<lambda>_. 3) (fst (task_run atimeout fn p m a xs v)) < pc_left (\<lambda>_. 3) (Running m a xs)"
  by (auto simp: task_run_def split: prod.splits sum.splits)

lemma task_moves:
  "task_step atimeout bclk sleep fn p c (cb, v) = (c', cb', v') \<Longrightarrow>
     client_move bclk (pc_busy c) cb v (pc_busy c') cb' v'"
  unfolding task_step_def by (rule driver_moves [OF task_run_busy])

lemma task_progress:
  "task_step atimeout bclk sleep fn p c w = (c', w') \<Longrightarrow>
     pc_left (\<lambda>_. 3) c' < pc_left (\<lambda>_. 3) c \<or> pc_left (\<lambda>_. 3) c = 0 \<and> c' = c"
  unfolding task_step_def
  by (rule driver_progress [where enter = "()" and run = "task_run atimeout fn p" and wt = "\<lambda>_. 3",
        OF task_run_left]) simp_all

fun in_flight :: "('v, 'a) caller \<Rightarrow> bool" where
  "in_flight (Thread p fn c) = pc_busy c"
| "in_flight (Task p fn c) = pc_busy c"

fun steps_left :: "('v, 'a) caller \<Rightarrow> nat" where
  "steps_left (Thread p fn c) = pc_left progress_left c"
| "steps_left (Task p fn c) = pc_left (\<lambda>_. 3) c"

fun result_of :: "('v, 'a) caller \<Rightarrow> (exn + 'a) option" where
  "result_of (Thread p fn c) = pc_result c"
| "result_of (Task p fn c) = pc_result c"

text \<open>A decorated function has a validated policy.\<close>

fun is_new :: "('v, 'a) caller \<Rightarrow> bool" where
  "is_new (Thread p fn c) = (\<not> isl (post_init p) \<and> c = first_pc p)"
| "is_new (Task p fn c) = (\<not> isl (post_init p) \<and> c = first_pc p)"

lemma steps_left_0: "steps_left c = 0 \<longleftrightarrow> result_of c \<noteq> None"
proof (cases c)
  case (Thread p fn k)
  then show ?thesis by (cases k) simp_all
next
  case (Task p fn k)
  then show ?thesis by (cases k) simp_all
qed

lemma steps_left_new: "steps_left (new_caller p target) = 6 * nat (rp_max_attempts p) + 1"
  by (simp add: new_caller_def first_pc_def split: target.split)

interpretation drivers: slot_client bclk "caller_step atimeout bclk clk sleep" is_new in_flight steps_left
  for bclk :: "'v clock" and atimeout clk sleep
proof
  fix c :: "('v, 'a) caller" and cb v c' cb' v'
  assume "caller_step atimeout bclk clk sleep c (cb, v) = (c', cb', v')"
  then show "client_move bclk (in_flight c) cb v (in_flight c') cb' v'"
    by (cases c) (auto split: prod.splits dest!: thread_moves task_moves)
next
  fix c :: "('v, 'a) caller"
  assume "is_new c"
  then show "\<not> in_flight c" by (cases c) (simp_all add: first_pc_def)
next
  fix c :: "('v, 'a) caller" and w c' w'
  assume s: "caller_step atimeout bclk clk sleep c w = (c', w')"
  show "steps_left c' < steps_left c \<or> steps_left c = 0 \<and> c' = c"
  proof (cases c)
    case (Thread p fn k)
    with s obtain k' where "thread_step bclk clk sleep fn p k w = (k', w')" "c' = Thread p fn k'"
      by (auto split: prod.splits)
    with thread_progress [OF this(1)] Thread show ?thesis by simp
  next
    case (Task p fn k)
    with s obtain k' where "task_step atimeout bclk sleep fn p k w = (k', w')" "c' = Task p fn k'"
      by (auto split: prod.splits)
    with task_progress [OF this(1)] Task show ?thesis by simp
  qed
qed

subsection \<open>What a call can end in\<close>














subsection \<open>Schedules\<close>

text \<open>The run of a given schedule, if its events are possible: the relations made executable.\<close>

fun sys_exec ::
  "'v clock \<Rightarrow> ('c \<Rightarrow> breaker \<times> 'v \<Rightarrow> 'c \<times> breaker \<times> 'v) \<Rightarrow> ('c \<Rightarrow> bool) \<Rightarrow>
   ('c, 'v) event list \<Rightarrow> ('c, 'v) sys \<Rightarrow> ('c, 'v) sys option" where
  "sys_exec bclk step fresh [] s = Some s"
| "sys_exec bclk step fresh (e # es) (cs, cb, v) =
     (case e of
        Move i \<Rightarrow>
          (if i < length cs
           then (case step (cs ! i) (cb, v) of (c', cb', v') \<Rightarrow> sys_exec bclk step fresh es (cs[i := c'], cb', v'))
           else None)
      | Elapse v' \<Rightarrow> sys_exec bclk step fresh es (cs, cb, v')
      | Query op \<Rightarrow>
          (if op \<in> {StateRead, RetryAfter, Reset}
           then (case cb_step bclk op cb v of (cb', v') \<Rightarrow> sys_exec bclk step fresh es (cs, cb', v'))
           else None)
      | Arrive c \<Rightarrow> (if fresh c then sys_exec bclk step fresh es (cs @ [c], cb, v) else None))"

lemma sys_run_Cons:
  assumes "sys_step bclk step fresh e s s1" and "sys_run bclk step fresh s1 es s'"
  shows "sys_run bclk step fresh s (e # es) s'"
  using assms(2)
proof (induction rule: sys_run.induct)
  case none
  from sys_run.more [OF sys_run.none assms(1)] show ?case by simp
next
  case (more es s' f s'')
  from sys_run.more [OF more.IH more.hyps(2)] show ?case by simp
qed

lemma sys_exec_run: "sys_exec bclk step fresh es s = Some s' \<Longrightarrow> sys_run bclk step fresh s es s'"
proof (induction es arbitrary: s)
  case Nil
  then show ?case by (simp add: sys_run.none)
next
  case (Cons e es)
  obtain cs cb v where s: "s = (cs, cb, v)" by (rule prod_cases3)
  show ?case
  proof (cases e)
    case (Move i)
    obtain c' cb' v' where m: "step (cs ! i) (cb, v) = (c', cb', v')" by (rule prod_cases3)
    with Cons.prems s Move have "i < length cs" "sys_run bclk step fresh (cs[i := c'], cb', v') es s'"
      by (auto intro!: Cons.IH split: if_splits)
    with m s Move show ?thesis by (blast intro: sys_run_Cons moves)
  next
    case (Elapse v')
    with Cons.prems s have "sys_run bclk step fresh (cs, cb, v') es s'" by (auto intro!: Cons.IH)
    with s Elapse show ?thesis by (blast intro: sys_run_Cons elapses)
  next
    case (Query op)
    obtain cb' v' where q: "cb_step bclk op cb v = (cb', v')" by (rule prod.exhaust)
    with Cons.prems s Query have "op \<in> {StateRead, RetryAfter, Reset}" "sys_run bclk step fresh (cs, cb', v') es s'"
      by (auto intro!: Cons.IH simp del: cb_step.simps split: if_splits)
    with q s Query show ?thesis by (blast intro: sys_run_Cons queries)
  next
    case (Arrive c)
    with Cons.prems s have "fresh c" "sys_run bclk step fresh (cs @ [c], cb, v) es s'"
      by (auto intro!: Cons.IH split: if_splits)
    with s Arrive show ?thesis by (blast intro: sys_run_Cons arrives)
  qed
qed

subsection \<open>Properties\<close>

lemma steps_caller:
  "steps n (caller_step atimeout bclk clk sleep) (Thread p fn c) w =
     (case steps n (thread_step bclk clk sleep fn p) c w of (c', w') \<Rightarrow> (Thread p fn c', w'))"
  "steps n (caller_step atimeout bclk clk sleep) (Task p afn d) w =
     (case steps n (task_step atimeout bclk sleep afn p) d w of (d', w') \<Rightarrow> (Task p afn d', w'))"
  by (induction n arbitrary: c d w) (simp_all split: prod.split)

text \<open>The decorated function as theory \<open>Retry\<close> runs it, on the breaker and the rest of the world.\<close>

definition whole_call ::
  "pyclass \<Rightarrow> 'v clock \<Rightarrow> 'v clock \<Rightarrow> (rat \<Rightarrow> 'v \<Rightarrow> 'v) \<Rightarrow> 'v policy \<Rightarrow> ('v, 'a) target \<Rightarrow>
   exn + (breaker \<times> 'v, 'a) callback" where
  "whole_call atimeout bclk clk sleep p target =
     resilient atimeout (beside clk) (beside_sleep sleep) (Inr (sharing bclk p))
       (case target of Plain fn \<Rightarrow> Plain (beside fn) | Coroutine fn \<Rightarrow> Coroutine (beside_task fn))"

text \<open>A function that is down, and four calls of it on the sample breaker (one failure opens it, ten
  seconds of cooldown, one trial call).\<close>

definition down :: "(rat, string) callback" where
  "down v = (Inl (mk_exn ValueError ''down''), v)"

definition down_call :: "(rat, string) caller" where
  "down_call = new_caller (demo_policy None) (Plain down)"

definition demo_step :: "(rat, string) caller \<Rightarrow> breaker \<times> rat \<Rightarrow> (rat, string) caller \<times> breaker \<times> rat" where
  "demo_step = caller_step TimeoutError fake_clock fake_clock (\<lambda>d t. t + d)"

definition until_trial :: "((rat, string) caller, rat) event list" where
  "until_trial = [Arrive down_call, Arrive down_call, Arrive down_call, Arrive down_call,
     Move 0, Move 1, Move 1, Move 1, Move 1, Elapse 10, Move 2]"

lemmas demo_simps = until_trial_def demo_step_def down_call_def new_caller_def
  first_pc_def thread_step_def sample_breaker_def down_def four_attempts allow_def maybe_half_open_def
  record_failure_def trip_open_def Let_def is_retryable_def demo_policy_def status_of_def no_attrs_def
  post_init_def

lemma trial_run:
  obtains cs cb where
    "sys_run fake_clock demo_step is_new ([], sample_breaker, 0) until_trial (cs, cb, 10)"
    "cb_half_open_calls cb = 1"
proof -
  obtain cs cb where "sys_exec fake_clock demo_step is_new until_trial ([], sample_breaker, 0) = Some (cs, cb, 10)"
    "cb_half_open_calls cb = 1"
    by (simp add: demo_simps)
  with that sys_exec_run show thesis by blast
qed

lemma trial_reachable:
  "sys_run fake_clock demo_step is_new ([], sample_breaker, 0) es s \<Longrightarrow>
     sys_reachable fake_clock demo_step is_new s"
  unfolding sys_reachable_def using sample_breaker_new by blast

subsection \<open>A late failure in the half-open phase\<close>

text \<open>Where a caller is: about to report a failure, or about to ask for admission.\<close>

fun about_to_fail :: "('v, 'a) caller \<Rightarrow> bool" where
  "about_to_fail (Thread p fn c) = (case c of Failing e g a r \<Rightarrow> True | _ \<Rightarrow> False)"
| "about_to_fail (Task p fn d) = (case d of Failing e g a r \<Rightarrow> True | _ \<Rightarrow> False)"

fun about_to_ask :: "('v, 'a) caller \<Rightarrow> bool" where
  "about_to_ask (Thread p fn c) = (case c of Guarding e xs \<Rightarrow> xs \<noteq> [] | _ \<Rightarrow> False)"
| "about_to_ask (Task p fn d) = (case d of Guarding e xs \<Rightarrow> xs \<noteq> [] | _ \<Rightarrow> False)"

lemma failing_step:
  "about_to_fail c \<Longrightarrow> \<exists>c'. caller_step atimeout bclk clk sleep c (cb, v) = (c', record_failure bclk cb v)"
  by (cases c) (auto simp: thread_step_def task_step_def split: pc.splits prod.splits)

lemma asking_step:
  "about_to_ask c \<Longrightarrow> allow bclk cb v = (True, cb', v') \<Longrightarrow>
     \<exists>c'. caller_step atimeout bclk clk sleep c (cb, v) = (c', cb', v') \<and> in_flight c'"
  by (cases c) (auto simp: thread_step_def task_step_def neq_Nil_conv split: pc.splits prod.splits)

lemma half_open_failure:
  assumes "cb_state cb = HALF_OPEN" and "record_failure bclk cb v = (cb', v1)"
    and "cb_inv cb" and "fst (bclk v) + cb_cooldown cb \<le> fst (bclk v')"
  shows "\<exists>cb'' v''. allow bclk cb' v' = (True, cb'', v'') \<and> cb_state cb'' = HALF_OPEN \<and>
     cb_half_open_calls cb'' = 1 \<and> cb_half_open_max cb'' = cb_half_open_max cb"
  using assms by (auto simp: record_failure_def trip_open_def allow_def maybe_half_open_def cb_inv_def Let_def
      split: prod.splits)

lemma shared_breaker_inv:
  "sys_reachable bclk (caller_step atimeout bclk clk sleep) is_new (cs, cb, v) \<Longrightarrow> cb_inv cb"
  by (drule drivers.reachable_ok) (auto simp: drivers.sys_ok_def dest: cb_reachable_inv)

subsection \<open>Properties of systems\<close>

text \<open>C8: the steps are those of the drivers: a caller that runs alone ends, after at most six steps per
  attempt and one more, with the result and the world of the whole call, plain function or coroutine,
  whatever the callbacks do.\<close>

theorem caller_alone:
  assumes "6 * nat (rp_max_attempts p) + 1 \<le> n"
  shows "\<exists>call. whole_call atimeout bclk clk sleep p target = Inr call \<and>
    (case steps n (caller_step atimeout bclk clk sleep) (new_caller p target) (cb, v) of
       (c, w) \<Rightarrow> (result_of c, w)) =
    (case call (cb, v) of (r, w) \<Rightarrow> (Some r, w))"
proof -
  have n: "6 * length [0..<nat (rp_max_attempts p)] + 1 \<le> n" using assms by simp
  show ?thesis
    by (cases target)
      (simp_all add: whole_call_def resilient_def new_caller_def first_pc_def steps_caller run_sync_def
        run_async_def thread_alone_from [OF n] task_alone_from [OF n] split: prod.split)
qed

theorem caller_alone_witness:
  "\<exists>call. whole_call TimeoutError fake_clock fake_clock (\<lambda>d t. t + d) (demo_policy None) (Plain down) = Inr call \<and>
     result_of (fst (steps 25 demo_step down_call (sample_breaker, 0))) = Some (fst (call (sample_breaker, 0)))"
proof -
  have "6 * nat (rp_max_attempts (demo_policy None :: rat policy)) + 1 \<le> 25" by simp
  from caller_alone [OF this, of TimeoutError fake_clock fake_clock "\<lambda>d t. t + d" "Plain down" sample_breaker 0]
  obtain call where call:
    "whole_call TimeoutError fake_clock fake_clock (\<lambda>d t. t + d) (demo_policy None) (Plain down) = Inr call"
    "(case steps 25 demo_step down_call (sample_breaker, 0) of (c, w) \<Rightarrow> (result_of c, w)) =
     (case call (sample_breaker, 0) of (r, w) \<Rightarrow> (Some r, w))" by (auto simp: demo_step_def down_call_def)
  obtain c w where "steps 25 demo_step down_call (sample_breaker, 0) = (c, w)" by (rule prod.exhaust)
  moreover obtain r w' where "call (sample_breaker, 0) = (r, w')" by (rule prod.exhaust)
  ultimately show ?thesis using call by auto
qed

text \<open>C7: any number of threads and tasks may share a breaker, and be interrupted anywhere: however they
  interleave, with each other, with time and with queries and resets, the breaker is one that a
  sequence of method calls leaves, its fields are consistent (CLOSED exactly when no opening time is
  recorded and fewer failures than the threshold are counted), no more half-open slots are taken than calls are in flight, and so
  the breaker never locks itself up: when fewer calls than \<^verbatim>\<open>half_open_max_calls\<close> are in flight, the
  next one is admitted unless the circuit is open and cooling down.\<close>

theorem shared_breaker_never_wedged:
  assumes "sys_reachable bclk (caller_step atimeout bclk clk sleep) is_new (cs, cb, v)"
  shows "cb_reachable bclk cb \<and> cb_inv cb \<and> cb_half_open_calls cb \<le> int (held in_flight cs) \<and>
    (fst (allow bclk cb v) \<or> cb_half_open_max cb \<le> int (held in_flight cs) \<or>
     cb_state cb = OPEN \<and> \<not> cooled bclk cb v)"
proof -
  have ok: "slot_client.sys_ok bclk in_flight (cs, cb, v)" using assms by (rule drivers.reachable_ok)
  then have "cb_reachable bclk cb" by (simp add: drivers.sys_ok_def)
  with ok drivers.admits_when_free [OF ok] cb_reachable_inv show ?thesis
    unfolding drivers.sys_ok_def prod.case by fastforce
qed

theorem shared_breaker_never_wedged_witness:
  "\<exists>cs cb. sys_run fake_clock demo_step is_new ([], sample_breaker, 0) until_trial (cs, cb, 10) \<and>
     cb_half_open_calls cb = 1 \<and> 1 \<le> held in_flight cs"
proof -
  obtain cs cb where r: "sys_run fake_clock demo_step is_new ([], sample_breaker, 0) until_trial (cs, cb, 10)"
    "cb_half_open_calls cb = 1" by (rule trial_run)
  from shared_breaker_never_wedged [OF trial_reachable [OF r(1), unfolded demo_step_def]] r(2)
  have "1 \<le> held in_flight cs" by simp
  with r show ?thesis by blast
qed

text \<open>No caller waits for another: in any run, a caller that took as many of its own steps as a call
  of its policy may need, six for each attempt and one more, has ended, with a result or an exception.\<close>

theorem callers_end_in_any_schedule:
  assumes "sys_run bclk (caller_step atimeout bclk clk sleep) is_new s es s'"
    and "i < length (fst s)" and "fst s ! i = new_caller p target"
    and "6 * nat (rp_max_attempts p) + 1 \<le> count_list es (Move i)"
  shows "i < length (fst s') \<and> result_of (fst s' ! i) \<noteq> None"
proof -
  have "steps_left (fst s' ! i) = 0 \<and> i < length (fst s')"
    using drivers.run_progress [OF assms(1,2)] assms(3,4) by (auto simp: steps_left_new)
  then show ?thesis using steps_left_0 by blast
qed



text \<open>C36: \<^verbatim>\<open>half_open_max_calls\<close> is documented as the maximum number of concurrent trial calls; it bounds
  the calls admitted in one half-open phase only. In any half-open system where some caller \<open>i\<close> is
  about to report the failure of a call it was admitted to, and as many other calls (\<open>T\<close>) are in flight
  as the maximum allows: once \<open>i\<close> has reported and one more cooldown has passed, a caller \<open>k\<close> that asks
  is admitted beside all of \<open>T\<close>, so that more calls than the maximum are in flight, in a half-open
  circuit that counts one.\<close>

theorem stale_failure_overlaps_trials:
  assumes "cb_inv cb" and "cb_state cb = HALF_OPEN"
    and "i < length cs" and "k < length cs" and "i \<noteq> k" and "about_to_fail (cs ! i)" and "about_to_ask (cs ! k)"
    and "T \<subseteq> {..<length cs} - {i, k}" and "\<forall>j \<in> T. in_flight (cs ! j)" and "int (card T) = cb_half_open_max cb"
    and "fst (bclk v) + cb_cooldown cb \<le> fst (bclk v')"
  shows "\<exists>cs' cb' w.
     sys_run bclk (caller_step atimeout bclk clk sleep) is_new (cs, cb, v) [Move i, Elapse v', Move k] (cs', cb', w) \<and>
     (\<forall>j \<in> insert k T. in_flight (cs' ! j)) \<and> cb_half_open_max cb' < int (card (insert k T)) \<and>
     cb_state cb' = HALF_OPEN \<and> cb_half_open_calls cb' = 1"
proof -
  let ?step = "caller_step atimeout bclk clk sleep"
  obtain cb1 v1 where f: "record_failure bclk cb v = (cb1, v1)" by (rule prod.exhaust)
  obtain c where c: "?step (cs ! i) (cb, v) = (c, cb1, v1)" using failing_step [OF assms(6)] f by metis
  obtain cb2 w where a: "allow bclk cb1 v' = (True, cb2, w)" "cb_state cb2 = HALF_OPEN" "cb_half_open_calls cb2 = 1"
    "cb_half_open_max cb2 = cb_half_open_max cb"
    using half_open_failure [OF assms(2) f assms(1,11)] by blast
  obtain d where d: "?step (cs ! k) (cb1, v') = (d, cb2, w)" "in_flight d" using asking_step [OF assms(7) a(1)] by blast
  have "sys_exec bclk ?step is_new [Move i, Elapse v', Move k] (cs, cb, v) = Some (cs[i := c, k := d], cb2, w)"
    using assms(3-5) c d(1) by simp
  then have "sys_run bclk ?step is_new (cs, cb, v) [Move i, Elapse v', Move k] (cs[i := c, k := d], cb2, w)"
    by (rule sys_exec_run)
  moreover have "\<forall>j \<in> insert k T. in_flight (cs[i := c, k := d] ! j)"
    using assms(4,5,8,9) d(2) by (auto simp: nth_list_update)
  moreover have "finite T" "k \<notin> T" using assms(8) finite_subset by blast+
  ultimately show ?thesis using a assms(10) by (intro exI conjI) (auto simp: card_insert_if)
qed

text \<open>The four calls again: call 0 was admitted before the circuit opened and fails late, call 2 is the
  trial in flight, call 3 is admitted beside it although the maximum is 1.\<close>

theorem stale_failure_overlaps_trials_witness:
  "\<exists>cs cb cs' cb' w.
     sys_run fake_clock demo_step is_new ([], sample_breaker, 0) (until_trial @ [Move 0, Move 0]) (cs, cb, 10) \<and>
     sys_run fake_clock demo_step is_new (cs, cb, 10) [Move 0, Elapse 20, Move 3] (cs', cb', w) \<and>
     in_flight (cs' ! 2) \<and> in_flight (cs' ! 3) \<and> cb_half_open_max cb' < 2"
proof -
  obtain cs cb where e: "sys_exec fake_clock demo_step is_new (until_trial @ [Move 0, Move 0])
        ([], sample_breaker, 0) = Some (cs, cb, 10)"
    and s: "cb_state cb = HALF_OPEN" "about_to_fail (cs ! 0)" "about_to_ask (cs ! 3)" "in_flight (cs ! 2)"
      "length cs = 4" "cb_half_open_max cb = 1" "cb_cooldown cb = 10"
    by (simp add: demo_simps)
  note r = sys_exec_run [OF e]
  have inv: "cb_inv cb" using shared_breaker_inv [OF trial_reachable [OF r, unfolded demo_step_def]] .
  from stale_failure_overlaps_trials [OF inv s(1), where i = 0 and k = 3 and T = "{2}" and v' = 20 and v = 10
      and bclk = fake_clock and clk = fake_clock and sleep = "\<lambda>d t. t + d" and atimeout = TimeoutError and cs = cs] s
  obtain cs' cb' w where "sys_run fake_clock demo_step is_new (cs, cb, 10) [Move 0, Elapse 20, Move 3] (cs', cb', w)"
    "in_flight (cs' ! 2)" "in_flight (cs' ! 3)" "cb_half_open_max cb' < 2"
    by (auto simp: demo_step_def)
  with r show ?thesis by blast
qed

end
