(* ===== verification/Tiered.thy ===== *)
theory Tiered
  imports Py_String
begin

section \<open>Three-tier resolution\<close>

text \<open>
  Models \<^verbatim>\<open>python/src/cubiczan_resilience/tiered.py\<close>. The sources of the three tiers, the clock
  and the failure callback act on a world of any type. A value of type \<open>'v\<close> is an object
  reference, so that equality is Python's \<^verbatim>\<open>is\<close>. \<^verbatim>\<open>AllTiersFailed\<close> is the outcome
  \<open>All_failed\<close>, which carries its attribute \<^verbatim>\<open>failures\<close>. The em dash of the mock badge is outside the
  character set of the model and is written as a hyphen.
\<close>

subsection \<open>Data\<close>

definition LIVE :: string where "LIVE = ''live''"
definition CACHE :: string where "CACHE = ''cache''"
definition MOCK :: string where "MOCK = ''mock''"

record tier_failure =
  tf_tier :: string
  tf_error :: exn

definition DEFAULT_MAX_CACHE_AGE :: rat where
  "DEFAULT_MAX_CACHE_AGE = 300"

text \<open>What \<^verbatim>\<open>cache()\<close> returns: a \<^verbatim>\<open>Cached\<close> object or any other object.\<close>

datatype 'v hit = Cached 'v rat | Bare 'v

record 'v tiered_result =
  tr_value :: 'v
  tr_tier :: string
  tr_degraded :: bool
  tr_stale :: bool
  tr_age :: "rat option"
  tr_failures :: "tier_failure list"
  tr_badge :: string

datatype 'v outcome = Resolved "'v tiered_result" | All_failed "tier_failure list" | Raised exn

text \<open>The exception \<^verbatim>\<open>AllTiersFailed\<close> of an outcome \<open>All_failed\<close>, with its message; \<open>raised\<close> reads
  a resolution as a Python call, which returns or raises.\<close>

definition tier_failure_str :: "tier_failure \<Rightarrow> string" where
  "tier_failure_str f = tf_tier f @ '': '' @ exn_str (tf_error f)"

definition all_tiers_failed :: "tier_failure list \<Rightarrow> exn" where
  "all_tiers_failed failures =
     (let detail = py_join ''; '' (List.map tier_failure_str failures) in
      mk_exn AllTiersFailed
        (''all data tiers failed ('' @ (if detail = [] then ''no tiers configured'' else detail) @ '')''))"

definition raised :: "'v outcome \<Rightarrow> exn + 'v tiered_result" where
  "raised q =
     (case q of
        Resolved r \<Rightarrow> Inr r
      | All_failed failures \<Rightarrow> Inl (all_tiers_failed failures)
      | Raised e \<Rightarrow> Inl e)"

text \<open>\<^verbatim>\<open>int(x)\<close> of a float truncates towards zero.\<close>

definition py_int :: "rat \<Rightarrow> int" where
  "py_int x = (if x < 0 then ceiling x else floor x)"

definition human_age :: "rat \<Rightarrow> string" where
  "human_age seconds =
     (if seconds < 1 then int_str (py_int (seconds * 1000)) @ ''ms''
      else if seconds < 60 then int_str (py_int seconds) @ ''s''
      else if seconds < 3600 then int_str (floor (seconds / 60)) @ ''m''
      else if seconds < 86400 then int_str (floor (seconds / 3600)) @ ''h''
      else int_str (floor (seconds / 86400)) @ ''d'')"

definition badge :: "string \<Rightarrow> bool \<Rightarrow> rat option \<Rightarrow> string" where
  "badge tier stale age =
     (if tier = LIVE then ''live''
      else if tier = MOCK then ''mock data - not real''
      else
        (let parts = (if stale then [''stale''] else []) @
               (case age of None \<Rightarrow> [] | Some a \<Rightarrow> [human_age a]) in
         if parts = [] then ''cache'' else ''cache ('' @ py_join '', '' parts @ '')''))"

subsection \<open>Resolution\<close>

text \<open>The inner function \<^verbatim>\<open>fail\<close>: the failure is collected, then reported; the callback may
  raise.\<close>

definition fail ::
  "(tier_failure \<Rightarrow> ('w, unit) callback) option \<Rightarrow> string \<Rightarrow> exn \<Rightarrow> tier_failure list \<Rightarrow>
   ('w, tier_failure list) callback" where
  "fail on_failure tier error failures w =
     (let failure = \<lparr>tf_tier = tier, tf_error = error\<rparr>; failures' = failures @ [failure] in
      case on_failure of
        None \<Rightarrow> (Inr failures', w)
      | Some report \<Rightarrow>
          (case report failure w of
             (Inl e, w') \<Rightarrow> (Inl e, w')
           | (Inr _, w') \<Rightarrow> (Inr failures', w')))"

text \<open>The last part: mock, then \<^verbatim>\<open>AllTiersFailed\<close>.\<close>

definition try_mock ::
  "(tier_failure \<Rightarrow> ('w, unit) callback) option \<Rightarrow> ('w, 'v) callback option \<Rightarrow> tier_failure list \<Rightarrow>
   'w \<Rightarrow> 'v outcome \<times> 'w" where
  "try_mock on_failure mock failures w =
     (case mock of
        None \<Rightarrow> (All_failed failures, w)
      | Some m \<Rightarrow>
          (case m w of
             (Inr v, w1) \<Rightarrow>
               (Resolved \<lparr>tr_value = v, tr_tier = MOCK, tr_degraded = True, tr_stale = False,
                          tr_age = None, tr_failures = failures,
                          tr_badge = badge MOCK False None\<rparr>, w1)
           | (Inl exc, w1) \<Rightarrow>
               (if \<not> isinstance exc Exception then (Raised exc, w1)
                else (case fail on_failure MOCK exc failures w1 of
                        (Inl e, w2) \<Rightarrow> (Raised e, w2)
                      | (Inr failures', w2) \<Rightarrow> (All_failed failures', w2)))))"

text \<open>The value and the age of a hit.\<close>

definition read_hit :: "'w clock \<Rightarrow> 'v hit \<Rightarrow> 'w \<Rightarrow> ('v \<times> rat option) \<times> 'w" where
  "read_hit now hit w =
     (case hit of
        Cached v cached_at \<Rightarrow> (let (t, w') = now w in ((v, Some (max 0 (t - cached_at))), w'))
      | Bare v \<Rightarrow> ((v, None), w))"

definition too_old :: "rat option \<Rightarrow> rat option \<Rightarrow> bool" where
  "too_old hard age = (case (hard, age) of (Some h, Some a) \<Rightarrow> a > h | _ \<Rightarrow> False)"

definition hard_limit_error :: "rat \<Rightarrow> rat \<Rightarrow> exn" where
  "hard_limit_error age hard =
     mk_exn ValueError
       (''cached value age '' @ py_fixed 1 age @ ''s exceeds hard limit '' @ py_fixed 1 hard @ ''s'')"

definition try_cache ::
  "'w clock \<Rightarrow> (tier_failure \<Rightarrow> ('w, unit) callback) option \<Rightarrow> ('w, 'v hit) callback \<Rightarrow>
   ('w, 'v) callback option \<Rightarrow> rat \<Rightarrow> rat option \<Rightarrow> 'v \<Rightarrow> tier_failure list \<Rightarrow>
   'w \<Rightarrow> 'v outcome \<times> 'w" where
  "try_cache now on_failure cache mock max_age hard miss failures w =
     (let next = (\<lambda>error w1.
          case fail on_failure CACHE error failures w1 of
            (Inl e, w2) \<Rightarrow> (Raised e, w2)
          | (Inr failures', w2) \<Rightarrow> try_mock on_failure mock failures' w2) in
      case cache w of
        (Inl exc, w1) \<Rightarrow> (if \<not> isinstance exc Exception then (Raised exc, w1) else next exc w1)
      | (Inr hit, w1) \<Rightarrow>
          (if hit = Bare miss then next (mk_exn LookupError ''cache miss'') w1
           else
             (case read_hit now hit w1 of
                ((v, age), w2) \<Rightarrow>
                  (if too_old hard age
                   then next (hard_limit_error (the age) (the hard)) w2
                   else
                     (let stale = (case age of None \<Rightarrow> False | Some a \<Rightarrow> a > max_age) in
                      (Resolved \<lparr>tr_value = v, tr_tier = CACHE, tr_degraded = True,
                                 tr_stale = stale, tr_age = age, tr_failures = failures,
                                 tr_badge = badge CACHE stale age\<rparr>, w2))))))"

definition resolve_tiered ::
  "'w clock \<Rightarrow> ('w, 'v) callback \<Rightarrow> ('w, 'v hit) callback option \<Rightarrow> ('w, 'v) callback option \<Rightarrow>
   rat \<Rightarrow> rat option \<Rightarrow> (tier_failure \<Rightarrow> ('w, unit) callback) option \<Rightarrow> 'v \<Rightarrow>
   'w \<Rightarrow> 'v outcome \<times> 'w" where
  "resolve_tiered now live cache mock max_age hard on_failure miss w =
     (case live w of
        (Inr v, w1) \<Rightarrow>
          (Resolved \<lparr>tr_value = v, tr_tier = LIVE, tr_degraded = False, tr_stale = False,
                     tr_age = None, tr_failures = [], tr_badge = badge LIVE False None\<rparr>, w1)
      | (Inl exc, w1) \<Rightarrow>
          (if \<not> isinstance exc Exception then (Raised exc, w1)
           else (case fail on_failure LIVE exc [] w1 of
                   (Inl e, w2) \<Rightarrow> (Raised e, w2)
                 | (Inr failures, w2) \<Rightarrow>
                     (case cache of
                        None \<Rightarrow> try_mock on_failure mock failures w2
                      | Some c \<Rightarrow>
                          try_cache now on_failure c mock max_age hard miss failures w2))))"

lemmas tier_names = LIVE_def CACHE_def MOCK_def

lemma tier_names_distinct [simp]:
  "LIVE \<noteq> CACHE" "LIVE \<noteq> MOCK" "CACHE \<noteq> MOCK" "CACHE \<noteq> LIVE" "MOCK \<noteq> LIVE" "MOCK \<noteq> CACHE"
  by (simp_all add: tier_names)

lemma fail_tiers:
  "fail on_failure tier e fs w = (Inr fs', w') \<Longrightarrow>
     List.map tf_tier fs' = List.map tf_tier fs @ [tier]"
  by (auto simp: fail_def Let_def split: option.splits sum.splits prod.splits)

lemma badge_nonempty: "badge tier stale age \<noteq> []"
  by (simp add: badge_def Let_def)

text \<open>What a caller may rely on when it renders a result. The tiers are asked in order, each in the world
  the one before left: \<open>live_failed\<close> is a live source that raised \<open>e\<close>, with the world after the
  report; \<open>hit_age\<close> is the age of a hit, by the clock read right after the cache answered;
  \<open>cache_unusable\<close> are the three ways in which a cache is passed over, with the error reported.\<close>

definition live_failed ::
  "('w, 'v) callback \<Rightarrow> (tier_failure \<Rightarrow> ('w, unit) callback) option \<Rightarrow> 'w \<Rightarrow> exn \<Rightarrow> 'w \<Rightarrow> bool" where
  "live_failed live on_failure w e w2 \<longleftrightarrow>
     (\<exists>w1. live w = (Inl e, w1) \<and> isinstance e Exception \<and>
        fail on_failure LIVE e [] w1 = (Inr [\<lparr>tf_tier = LIVE, tf_error = e\<rparr>], w2))"

definition hit_age :: "'w clock \<Rightarrow> 'w \<Rightarrow> rat \<Rightarrow> rat" where
  "hit_age now w cached_at = (if fst (now w) < cached_at then 0 else fst (now w) - cached_at)"

definition served_from_cache ::
  "'w clock \<Rightarrow> ('w, 'v hit) callback \<Rightarrow> 'v \<Rightarrow> 'w \<Rightarrow> 'v \<Rightarrow> rat option \<Rightarrow> bool" where
  "served_from_cache now cache miss w v age \<longleftrightarrow>
     (\<exists>w1. cache w = (Inr (Bare v), w1) \<and> v \<noteq> miss \<and> age = None) \<or>
     (\<exists>w1 cached_at. cache w = (Inr (Cached v cached_at), w1) \<and> age = Some (hit_age now w1 cached_at))"

definition cache_unusable ::
  "'w clock \<Rightarrow> ('w, 'v hit) callback \<Rightarrow> rat option \<Rightarrow> 'v \<Rightarrow> 'w \<Rightarrow> exn \<Rightarrow> 'w \<Rightarrow> bool" where
  "cache_unusable now cache hard miss w e w' \<longleftrightarrow>
     cache w = (Inl e, w') \<and> isinstance e Exception \<or>
     cache w = (Inr (Bare miss), w') \<and> e = mk_exn LookupError ''cache miss'' \<or>
     (\<exists>v cached_at h w1. cache w = (Inr (Cached v cached_at), w1) \<and> hard = Some h \<and>
        h < hit_age now w1 cached_at \<and> w' = snd (now w1) \<and>
        e = hard_limit_error (hit_age now w1 cached_at) h)"

definition honest ::
  "'w clock \<Rightarrow> ('w, 'v) callback \<Rightarrow> ('w, 'v hit) callback option \<Rightarrow> ('w, 'v) callback option \<Rightarrow> rat \<Rightarrow> rat option \<Rightarrow>
   (tier_failure \<Rightarrow> ('w, unit) callback) option \<Rightarrow> 'v \<Rightarrow> 'w \<Rightarrow> 'v tiered_result \<Rightarrow> bool" where
  "honest now live cache mock max_age hard on_failure miss w r \<longleftrightarrow>
     tr_badge r = badge (tr_tier r) (tr_stale r) (tr_age r) \<and>
     (tr_degraded r \<longleftrightarrow> tr_tier r \<noteq> LIVE) \<and>
     (tr_stale r \<longleftrightarrow> (\<exists>a. tr_age r = Some a \<and> max_age < a)) \<and>
     (\<forall>a h. tr_age r = Some a \<longrightarrow> hard = Some h \<longrightarrow> a \<le> h) \<and>
     (tr_tier r = LIVE \<and> tr_age r = None \<and> tr_failures r = [] \<and> fst (live w) = Inr (tr_value r) \<or>
      (\<exists>e w2. live_failed live on_failure w e w2 \<and>
        (tr_tier r = CACHE \<and> tr_failures r = [\<lparr>tf_tier = LIVE, tf_error = e\<rparr>] \<and>
           (\<exists>c. cache = Some c \<and> served_from_cache now c miss w2 (tr_value r) (tr_age r)) \<or>
         tr_tier r = MOCK \<and> tr_age r = None \<and>
           (\<exists>m. mock = Some m \<and>
             (cache = None \<and> tr_failures r = [\<lparr>tf_tier = LIVE, tf_error = e\<rparr>] \<and> fst (m w2) = Inr (tr_value r) \<or>
              (\<exists>c e' w3 w4. cache = Some c \<and> cache_unusable now c hard miss w2 e' w3 \<and>
                 fail on_failure CACHE e' [\<lparr>tf_tier = LIVE, tf_error = e\<rparr>] w3 = (Inr (tr_failures r), w4) \<and>
                 tr_failures r = [\<lparr>tf_tier = LIVE, tf_error = e\<rparr>, \<lparr>tf_tier = CACHE, tf_error = e'\<rparr>] \<and>
                 fst (m w4) = Inr (tr_value r)))))))"

lemma try_mock_result:
  assumes "try_mock on_failure mock fs w = (q, w')"
  shows "case q of
      Resolved r \<Rightarrow> tr_tier r = MOCK \<and> tr_failures r = fs \<and> tr_degraded r \<and> \<not> tr_stale r \<and>
        tr_age r = None \<and> tr_badge r = badge MOCK False None \<and>
        (\<exists>m. mock = Some m \<and> fst (m w) = Inr (tr_value r))
    | All_failed gs \<Rightarrow>
        List.map tf_tier gs = List.map tf_tier fs @ (if mock = None then [] else [MOCK])
    | Raised e \<Rightarrow> True"
  using assms
  by (auto simp: try_mock_def split: option.splits sum.splits prod.splits if_splits dest: fail_tiers)

lemma read_hit_value:
  "read_hit now hit w = ((v, age), w') \<Longrightarrow>
     hit = Bare v \<and> age = None \<or> (\<exists>t. hit = Cached v t \<and> age \<noteq> None)"
  by (auto simp: read_hit_def Let_def split: hit.splits prod.splits)

lemma try_cache_result:
  assumes "try_cache now on_failure c mock max_age hard miss fs w = (q, w')"
  shows "case q of
      Resolved r \<Rightarrow>
        tr_tier r = CACHE \<and> tr_failures r = fs \<and> tr_degraded r \<and> \<not> too_old hard (tr_age r) \<and>
          tr_stale r = (case tr_age r of None \<Rightarrow> False | Some a \<Rightarrow> max_age < a) \<and>
          tr_badge r = badge CACHE (tr_stale r) (tr_age r) \<and>
          (fst (c w) = Inr (Bare (tr_value r)) \<or> (\<exists>t. fst (c w) = Inr (Cached (tr_value r) t))) \<or>
        tr_tier r = MOCK \<and> List.map tf_tier (tr_failures r) = List.map tf_tier fs @ [CACHE] \<and>
          tr_degraded r \<and> \<not> tr_stale r \<and> tr_age r = None \<and> tr_badge r = badge MOCK False None \<and>
          (\<exists>m v. mock = Some m \<and> fst (m v) = Inr (tr_value r))
    | All_failed gs \<Rightarrow>
        List.map tf_tier gs = List.map tf_tier fs @ [CACHE] @ (if mock = None then [] else [MOCK])
    | Raised e \<Rightarrow> True"
proof -
  have mock: "case q of
      Resolved r \<Rightarrow> tr_tier r = MOCK \<and> List.map tf_tier (tr_failures r) = List.map tf_tier fs @ [CACHE] \<and>
          tr_degraded r \<and> \<not> tr_stale r \<and> tr_age r = None \<and> tr_badge r = badge MOCK False None \<and>
          (\<exists>m v. mock = Some m \<and> fst (m v) = Inr (tr_value r))
    | All_failed gs \<Rightarrow>
        List.map tf_tier gs = List.map tf_tier fs @ [CACHE] @ (if mock = None then [] else [MOCK])
    | Raised e \<Rightarrow> True"
    if "(case fail on_failure CACHE err fs w1 of
            (Inl e, w2) \<Rightarrow> (Raised e, w2)
          | (Inr fs', w2) \<Rightarrow> try_mock on_failure mock fs' w2) = (q, w')" for err w1
    using that try_mock_result [of on_failure mock _ _ q w']
    by (auto split: sum.splits prod.splits outcome.splits dest!: fail_tiers) blast+
  have fallen: ?thesis
    if "(case fail on_failure CACHE err fs w1 of
            (Inl e, w2) \<Rightarrow> (Raised e, w2)
          | (Inr fs', w2) \<Rightarrow> try_mock on_failure mock fs' w2) = (q, w')" for err w1
    using mock [OF that] by (cases q) simp_all
  obtain h w1 where c: "c w = (h, w1)" by (rule prod.exhaust)
  show ?thesis
  proof (cases h)
    case (Inl exc)
    show ?thesis
    proof (cases "isinstance exc Exception")
      case True
      with assms c Inl show ?thesis by (intro fallen [of exc w1]) (simp add: try_cache_def)
    next
      case False
      with assms c Inl show ?thesis by (auto simp: try_cache_def)
    qed
  next
    case (Inr hit)
    obtain v age w2 where h: "read_hit now hit w1 = ((v, age), w2)" by (metis prod.exhaust)
    consider (miss) "hit = Bare miss" | (old) "hit \<noteq> Bare miss" "too_old hard age"
      | (good) "hit \<noteq> Bare miss" "\<not> too_old hard age" by blast
    then show ?thesis
    proof cases
      case miss
      with assms c Inr show ?thesis
        by (intro fallen [of "mk_exn LookupError ''cache miss''" w1]) (simp add: try_cache_def)
    next
      case old
      with assms c Inr h show ?thesis
        by (intro fallen [of "hard_limit_error (the age) (the hard)" w2])
          (simp add: try_cache_def)
    next
      case good
      with assms c Inr h have "q = Resolved \<lparr>tr_value = v, tr_tier = CACHE, tr_degraded = True,
          tr_stale = (case age of None \<Rightarrow> False | Some a \<Rightarrow> a > max_age), tr_age = age, tr_failures = fs,
          tr_badge = badge CACHE (case age of None \<Rightarrow> False | Some a \<Rightarrow> a > max_age) age\<rparr>"
        by (simp add: try_cache_def Let_def)
      with good(2) c Inr read_hit_value [OF h] show ?thesis by auto
    qed
  qed
qed

text \<open>The units of \<^const>\<open>human_age\<close>: suffix, seconds per unit, and the bound below which the unit is
  used (none for days).\<close>

definition age_units :: "(string \<times> rat \<times> int option) list" where
  "age_units = [(''ms'', 1 / 1000, Some 1000), (''s'', 1, Some 60), (''m'', 60, Some 60),
     (''h'', 3600, Some 24), (''d'', 86400, None)]"

lemma floor_units:
  assumes "0 < (k :: rat)"
  shows "of_int \<lfloor>s / k\<rfloor> * k \<le> s" "s < (of_int \<lfloor>s / k\<rfloor> + 1) * k"
proof -
  show "of_int \<lfloor>s / k\<rfloor> * k \<le> s"
    using floor_divide_lower [OF assms] .
  show "s < (of_int \<lfloor>s / k\<rfloor> + 1) * k"
    using floor_divide_upper [OF assms] .
qed

lemma human_age_cases:
  assumes "0 \<le> s"
  obtains u k b where "(u, k, b) \<in> set age_units" "human_age s = int_str \<lfloor>s / k\<rfloor> @ u" "0 < k"
    "case b of None \<Rightarrow> True | Some m \<Rightarrow> s < of_int m * k"
proof -
  consider "s < 1" | "1 \<le> s" "s < 60" | "60 \<le> s" "s < 3600" | "3600 \<le> s" "s < 86400" | "86400 \<le> s"
    by linarith
  then show thesis
  proof cases
    case 1 with assms show thesis
      by (intro that [of "''ms''" "1 / 1000" "Some 1000"])
        (simp_all add: age_units_def human_age_def py_int_def)
  next
    case 2 with assms show thesis
      by (intro that [of "''s''" 1 "Some 60"]) (simp_all add: age_units_def human_age_def py_int_def)
  next
    case 3 then show thesis
      by (intro that [of "''m''" 60 "Some 60"]) (simp_all add: age_units_def human_age_def)
  next
    case 4 then show thesis
      by (intro that [of "''h''" 3600 "Some 24"]) (simp_all add: age_units_def human_age_def)
  next
    case 5 then show thesis
      by (intro that [of "''d''" 86400 None]) (simp_all add: age_units_def human_age_def)
  qed
qed

subsection \<open>Properties\<close>

text \<open>A failed tier stays in the trail, with its error.\<close>

lemma fail_snoc: "fail on_failure tier e fs w = (Inr fs', w') \<Longrightarrow> fs' = fs @ [\<lparr>tf_tier = tier, tf_error = e\<rparr>]"
  by (auto simp: fail_def Let_def split: option.splits sum.splits prod.splits)

lemma try_cache_trail:
  assumes "try_cache now on_failure c mock max_age hard miss fs w = (Resolved r, w')"
  shows "\<exists>rest. tr_failures r = fs @ rest"
proof -
  have fallen: "\<exists>rest. tr_failures r = fs @ rest"
    if "(case fail on_failure CACHE err fs w1 of
            (Inl e, w2) \<Rightarrow> (Raised e, w2)
          | (Inr fs', w2) \<Rightarrow> try_mock on_failure mock fs' w2) = (Resolved r, w')" for err w1
    using that try_mock_result [of on_failure mock _ _ "Resolved r" w']
    by (auto split: sum.splits prod.splits dest!: fail_snoc)
  obtain h w1 where c: "c w = (h, w1)" by (rule prod.exhaust)
  show ?thesis
  proof (cases h)
    case (Inl exc)
    with assms c have "(case fail on_failure CACHE exc fs w1 of
        (Inl e, w2) \<Rightarrow> (Raised e, w2)
      | (Inr fs', w2) \<Rightarrow> try_mock on_failure mock fs' w2) = (Resolved r, w')"
      by (simp add: try_cache_def split: if_splits)
    then show ?thesis by (rule fallen)
  next
    case (Inr hit)
    obtain v age w2 where h: "read_hit now hit w1 = ((v, age), w2)" by (metis prod.exhaust)
    consider (miss) "hit = Bare miss" | (old) "hit \<noteq> Bare miss" "too_old hard age"
      | (good) "hit \<noteq> Bare miss" "\<not> too_old hard age" by blast
    then show ?thesis
    proof cases
      case miss
      with assms c Inr show ?thesis
        by (intro fallen [of "mk_exn LookupError ''cache miss''" w1]) (simp add: try_cache_def)
    next
      case old
      with assms c Inr h show ?thesis
        by (intro fallen [of "hard_limit_error (the age) (the hard)" w2])
          (simp add: try_cache_def)
    next
      case good
      with assms c Inr h show ?thesis by (auto simp: try_cache_def Let_def)
    qed
  qed
qed

lemma live_failure_kept:
  assumes "live w = (Inl exc, w1)"
    and "resolve_tiered now live cache mock max_age hard on_failure miss w = (Resolved r, w')"
  shows "tr_tier r \<in> {CACHE, MOCK} \<and> tr_degraded r \<and>
    (\<exists>rest. tr_failures r = \<lparr>tf_tier = LIVE, tf_error = exc\<rparr> # rest)"
proof -
  from assms obtain fs w2 where f: "fail on_failure LIVE exc [] w1 = (Inr fs, w2)" and
    rest: "(case cache of None \<Rightarrow> try_mock on_failure mock fs w2
      | Some c \<Rightarrow> try_cache now on_failure c mock max_age hard miss fs w2) = (Resolved r, w')"
    by (auto simp: resolve_tiered_def split: if_splits prod.splits sum.splits)
  have fs: "fs = [\<lparr>tf_tier = LIVE, tf_error = exc\<rparr>]" using fail_snoc [OF f] by simp
  show ?thesis
  proof (cases cache)
    case None
    with rest have "try_mock on_failure mock fs w2 = (Resolved r, w')" by simp
    from try_mock_result [OF this] fs show ?thesis by simp
  next
    case (Some c)
    with rest have t: "try_cache now on_failure c mock max_age hard miss fs w2 = (Resolved r, w')" by simp
    from try_cache_result [OF t] try_cache_trail [OF t] fs show ?thesis by auto
  qed
qed

text \<open>Where a value that \<^const>\<open>try_cache\<close> resolves comes from.\<close>

lemma read_hit_age:
  "read_hit now (Cached v cached_at) w = ((v, Some (hit_age now w cached_at)), snd (now w))"
  "read_hit now (Bare v) w = ((v, None), w)"
  by (simp_all add: read_hit_def hit_age_def Let_def max_def split: prod.split)

lemma try_cache_source:
  assumes "try_cache now on_failure c mock max_age hard miss fs w = (Resolved r, w')"
  shows "served_from_cache now c miss w (tr_value r) (tr_age r) \<and> tr_tier r = CACHE \<and> tr_failures r = fs \<or>
    (\<exists>e w3 w4. cache_unusable now c hard miss w e w3 \<and>
       fail on_failure CACHE e fs w3 = (Inr (fs @ [\<lparr>tf_tier = CACHE, tf_error = e\<rparr>]), w4) \<and>
       try_mock on_failure mock (fs @ [\<lparr>tf_tier = CACHE, tf_error = e\<rparr>]) w4 = (Resolved r, w'))"
proof -
  have fallen: ?thesis
    if "(case fail on_failure CACHE err fs w1 of
            (Inl e, w2) \<Rightarrow> (Raised e, w2)
          | (Inr fs', w2) \<Rightarrow> try_mock on_failure mock fs' w2) = (Resolved r, w')"
      "cache_unusable now c hard miss w err w1" for err w1
  proof -
    from that(1) obtain fs' w2 where f: "fail on_failure CACHE err fs w1 = (Inr fs', w2)"
      "try_mock on_failure mock fs' w2 = (Resolved r, w')" by (auto split: sum.splits prod.splits)
    with fail_snoc [OF f(1)] that(2) show ?thesis by blast
  qed
  obtain h w1 where c: "c w = (h, w1)" by (rule prod.exhaust)
  show ?thesis
  proof (cases h)
    case (Inl exc)
    with assms c show ?thesis
      by (intro fallen [of exc w1]) (auto simp: try_cache_def cache_unusable_def split: if_splits)
  next
    case (Inr hit)
    show ?thesis
    proof (cases hit)
      case (Bare v)
      show ?thesis
      proof (cases "v = miss")
        case True
        with assms c Inr Bare show ?thesis
          by (intro fallen [of "mk_exn LookupError ''cache miss''" w1]) (auto simp: try_cache_def cache_unusable_def)
      next
        case False
        with assms c Inr Bare show ?thesis
          by (auto simp: try_cache_def read_hit_age too_old_def served_from_cache_def Let_def split: option.splits)
      qed
    next
      case (Cached v cached_at)
      let ?a = "hit_age now w1 cached_at"
      show ?thesis
      proof (cases "too_old hard (Some ?a)")
        case True
        then obtain h where "hard = Some h" "h < ?a" by (auto simp: too_old_def split: option.splits)
        with assms c Inr Cached True show ?thesis
          by (intro fallen [of "hard_limit_error ?a h" "snd (now w1)"])
            (auto simp: try_cache_def read_hit_age cache_unusable_def)
      next
        case False
        with assms c Inr Cached show ?thesis
          by (auto simp: try_cache_def read_hit_age served_from_cache_def Let_def)
      qed
    qed
  qed
qed

text \<open>C9: a resolved value is always honestly labelled. Its badge is the one of its tier, its age and its
  staleness; it is degraded exactly when it is not live. A live value is what the live source returned. A
  cached value is served only after the live source failed, is what the cache returned then, and its age
  is the time read from the clock after that minus the time it was recorded (not below 0; none if the cache gave
  no time); it is stale exactly when that age exceeds \<^verbatim>\<open>max_cache_age\<close>, and the age never exceeds the
  hard limit. A mock value is served only when a mock was supplied, the live source failed, and the
  cache was absent, failed, missed or held a value beyond the hard limit. The failures listed are
  those of the tiers tried before, in order, with the errors they raised.\<close>

theorem resolved_is_honest:
  assumes "resolve_tiered now live cache mock max_age hard on_failure miss w = (Resolved r, w')"
  shows "honest now live cache mock max_age hard on_failure miss w r"
proof -
  obtain l w1 where l: "live w = (l, w1)" by (rule prod.exhaust)
  show ?thesis
  proof (cases l)
    case (Inr v)
    with assms l show ?thesis by (auto simp: resolve_tiered_def honest_def)
  next
    case (Inl exc)
    let ?fs = "[\<lparr>tf_tier = LIVE, tf_error = exc\<rparr>]"
    from assms l Inl obtain fs w2 where exc: "isinstance exc Exception"
      and f: "fail on_failure LIVE exc [] w1 = (Inr fs, w2)"
      by (auto simp: resolve_tiered_def split: if_splits prod.splits sum.splits)
    have fs: "fs = ?fs" using fail_snoc [OF f] by simp
    have failed: "live_failed live on_failure w exc w2"
      using l Inl exc f fs by (simp add: live_failed_def)
    show ?thesis
    proof (cases cache)
      case None
      then have "try_mock on_failure mock ?fs w2 = (Resolved r, w')"
        using assms l Inl f exc fs by (simp add: resolve_tiered_def)
      from try_mock_result [OF this] None failed show ?thesis by (auto simp: honest_def)
    next
      case (Some c)
      then have t: "try_cache now on_failure c mock max_age hard miss ?fs w2 = (Resolved r, w')"
        using assms l Inl f exc fs by (simp add: resolve_tiered_def)
      from try_cache_source [OF t] show ?thesis
      proof (elim disjE exE conjE)
        assume s: "served_from_cache now c miss w2 (tr_value r) (tr_age r)" "tr_tier r = CACHE" "tr_failures r = ?fs"
        with try_cache_result [OF t] have "tr_degraded r" "\<not> too_old hard (tr_age r)"
          "tr_stale r = (case tr_age r of None \<Rightarrow> False | Some a \<Rightarrow> max_age < a)"
          "tr_badge r = badge CACHE (tr_stale r) (tr_age r)" by simp_all
        with s Some failed show ?thesis
          unfolding honest_def by (auto simp: too_old_def split: option.splits)
      next
        fix e w3 w4
        assume m: "cache_unusable now c hard miss w2 e w3"
          "fail on_failure CACHE e ?fs w3 = (Inr (?fs @ [\<lparr>tf_tier = CACHE, tf_error = e\<rparr>]), w4)"
          "try_mock on_failure mock (?fs @ [\<lparr>tf_tier = CACHE, tf_error = e\<rparr>]) w4 = (Resolved r, w')"
        from try_mock_result [OF m(3)] m(1,2) Some failed show ?thesis
          unfolding honest_def by simp blast
      qed
    qed
  qed
qed

text \<open>An example: the live source fails, the cache holds a value recorded three hours ago.\<close>

definition down :: "(rat, string) callback" where
  "down w = (Inl (mk_exn OSError ''rpc down''), w)"

definition old_cache :: "(rat, string hit) callback" where
  "old_cache w = (Inr (Cached ''9650.5'' 0), w)"

lemma stale_run:
  "resolve_tiered fake_clock down (Some old_cache) None 300 None None ''none'' 10800 =
     (Resolved \<lparr>tr_value = ''9650.5'', tr_tier = CACHE, tr_degraded = True, tr_stale = True,
        tr_age = Some 10800, tr_failures = [\<lparr>tf_tier = LIVE, tf_error = mk_exn OSError ''rpc down''\<rparr>],
        tr_badge = ''cache (stale, 3h)''\<rparr>, 10800)"
proof -
  have "int_str 3 = ''3''" by code_simp
  then have "badge CACHE True (Some 10800) = ''cache (stale, 3h)''"
    by (simp add: badge_def human_age_def)
  then show ?thesis
    by (simp add: resolve_tiered_def down_def old_cache_def fail_def try_cache_def read_hit_def
        too_old_def)
qed

theorem resolved_is_honest_witness:
  "\<exists>r. fst (resolve_tiered fake_clock down (Some old_cache) None 300 None None ''none'' 10800) = Resolved r \<and>
     tr_badge r = ''cache (stale, 3h)'' \<and> tr_age r = Some 10800 \<and>
     honest fake_clock down (Some old_cache) None 300 None None ''none'' 10800 r"
  using resolved_is_honest [OF stale_run] stale_run by simp

text \<open>The age shown on a badge is a whole count of one unit, rounded down: the true age is at
  least the count and less than the count plus one, in that unit, and below a day the count stays
  below the next unit.\<close>

theorem human_age_rounds_down:
  assumes "0 \<le> s"
  shows "\<exists>n u k b. human_age s = int_str n @ u \<and> (u, k, b) \<in> set age_units \<and>
     0 \<le> n \<and> of_int n * k \<le> s \<and> s < (of_int n + 1) * k \<and> (b = None \<or> (\<exists>m. b = Some m \<and> n < m))"
proof -
  obtain u k b where u: "(u, k, b) \<in> set age_units" "human_age s = int_str \<lfloor>s / k\<rfloor> @ u" "0 < k"
    "case b of None \<Rightarrow> True | Some m \<Rightarrow> s < of_int m * k"
    using human_age_cases [OF assms] .
  have "\<lfloor>s / k\<rfloor> < m" if "b = Some m" for m
    using u(3,4) that by (simp add: floor_less_iff pos_divide_less_eq)
  with u assms floor_units [OF u(3), of s] show ?thesis by (cases b) fastforce+
qed

end
