(* ===== verification/Recovery.thy ===== *)
theory Recovery
  imports Shared_Breaker Tiered
begin

section \<open>Recovery\<close>

text \<open>
  What the other theories bound from above, this one bounds from below: a decorated function that
  fails for a while is answered with its value once it works again, and a circuit that opened closes
  again. The runs are those of the decorator on a shared breaker (\<open>whole_call\<close>), of plain functions and
  of coroutines.
\<close>

subsection \<open>The abstract loop\<close>

text \<open>\<open>P i\<close> holds of the world before attempt \<open>i\<close>, \<open>Q i\<close> after its failure.\<close>

lemma retry_loop_survives:
  assumes "\<And>i w. P i w \<Longrightarrow> \<exists>w1. grd w = (Inr (), w1) \<and> R i w1"
    and "\<And>i w. R i w \<Longrightarrow> i < k \<Longrightarrow> \<exists>e w1. try w = (Again e, w1) \<and> Q i w1"
    and "\<And>i w. Q i w \<Longrightarrow> i < k \<Longrightarrow> \<exists>w1. pause i w = (Inr (), w1) \<and> P (Suc i) w1"
    and "\<And>w. R k w \<Longrightarrow> \<exists>w1. try w = (Done x, w1) \<and> S w1"
    and "P i w" and "i \<le> k" and "k < i + n"
  shows "\<exists>w'. retry_loop grd try pause n i w = (Inr x, w') \<and> S w'"
  using assms(5-7)
proof (induction n arbitrary: i w)
  case (Suc n)
  from assms(1) [OF Suc.prems(1)] obtain w1 where g: "grd w = (Inr (), w1)" "R i w1" by blast
  show ?case
  proof (cases "i = k")
    case True
    with assms(4) g show ?thesis by fastforce
  next
    case False
    then have i: "i < k" "0 < n" using Suc.prems(2,3) by simp_all
    from assms(2) [OF g(2) i(1)] obtain e w2 where t: "try w1 = (Again e, w2)" "Q i w2" by blast
    from assms(3) [OF t(2) i(1)] obtain w3 where "pause i w2 = (Inr (), w3)" "P (Suc i) w3" by blast
    with Suc.IH [of "Suc i" w3] g t i Suc.prems show ?thesis by simp
  qed
qed simp

subsection \<open>A function that recovers\<close>

text \<open>What an attempt of a decorated function comes to, without a breaker.\<close>

definition attempt_verdict ::
  "pyclass \<Rightarrow> 'v clock \<Rightarrow> 'v policy \<Rightarrow> ('v, 'a) target \<Rightarrow> 'v \<Rightarrow> 'a verdict" where
  "attempt_verdict atimeout clk p target v =
     (case target of
        Plain fn \<Rightarrow> fst (sync_try clk fn (p\<lparr>rp_breaker := None\<rparr>) v)
      | Coroutine fn \<Rightarrow> fst (async_try atimeout fn (p\<lparr>rp_breaker := None\<rparr>) v))"

text \<open>\<open>calls\<close> counts the calls of the function and of nothing else.\<close>

definition counts_calls ::
  "('v \<Rightarrow> nat) \<Rightarrow> 'v clock \<Rightarrow> 'v clock \<Rightarrow> (rat \<Rightarrow> 'v \<Rightarrow> 'v) \<Rightarrow> 'v policy \<Rightarrow> ('v, 'a) target \<Rightarrow> bool" where
  "counts_calls calls bclk clk sleep p target \<longleftrightarrow>
     (\<forall>v. calls (snd (bclk v)) = calls v) \<and> (\<forall>v. calls (snd (clk v)) = calls v) \<and>
     (\<forall>d v. calls (sleep d v) = calls v) \<and> (\<forall>v. calls (snd (rp_random p v)) = calls v) \<and>
     (case target of
        Plain fn \<Rightarrow> \<forall>v. calls (snd (fn v)) = Suc (calls v)
      | Coroutine fn \<Rightarrow> \<forall>t v. (case fn t v of Finished r v' \<Rightarrow> calls v' | Expired v' \<Rightarrow> calls v') = Suc (calls v))"

text \<open>An attempt on the shared breaker.\<close>

definition attempt ::
  "pyclass \<Rightarrow> 'v clock \<Rightarrow> 'v clock \<Rightarrow> 'v policy \<Rightarrow> ('v, 'a) target \<Rightarrow> breaker \<times> 'v \<Rightarrow>
   'a verdict \<times> breaker \<times> 'v" where
  "attempt atimeout bclk clk p target =
     (case target of
        Plain fn \<Rightarrow> sync_try (beside clk) (beside fn) (sharing bclk p)
      | Coroutine fn \<Rightarrow> async_try atimeout (beside_task fn) (sharing bclk p))"

lemma retryable_any_breaker [simp]: "is_retryable (p\<lparr>rp_breaker := b\<rparr>) e = is_retryable p e"
  by (simp add: is_retryable_def split: option.split)

lemma attempt_result:
  "\<exists>v'. attempt atimeout bclk clk p target (cb, v) =
      (attempt_verdict atimeout clk p target v,
       (case attempt_verdict atimeout clk p target v of
          Done x \<Rightarrow> (record_success cb, v') | _ \<Rightarrow> record_failure bclk cb v')) \<and>
    (\<forall>calls sleep. counts_calls calls bclk clk sleep p target \<longrightarrow> calls v' = Suc (calls v))"
proof (cases target)
  case (Plain fn)
  obtain s v1 where 1: "clk v = (s, v1)" by (rule prod.exhaust)
  obtain r v2 where 2: "fn v1 = (r, v2)" by (rule prod.exhaust)
  obtain t v3 where 3: "clk v2 = (t, v3)" by (rule prod.exhaust)
  have c: "calls v2 = Suc (calls v) \<and> calls v3 = Suc (calls v)"
    if "counts_calls calls bclk clk sleep p target" for calls sleep
  proof -
    have clk: "calls (snd (clk u)) = calls u" and fn: "calls (snd (fn u)) = Suc (calls u)" for u
      using that Plain by (simp_all add: counts_calls_def)
    show ?thesis using clk [of v] fn [of v1] clk [of v2] 1 2 3 by simp
  qed
  show ?thesis
    using 1 2 3 Plain c
    by (cases r; intro exI [of _ "if isl r then v2 else v3"])
      (auto simp: attempt_def attempt_verdict_def sync_try_def Let_def)
next
  case (Coroutine fn)
  have c: "(case fn (rp_timeout p) v of Finished r v' \<Rightarrow> calls v' | Expired v' \<Rightarrow> calls v') = Suc (calls v)"
    if "counts_calls calls bclk clk sleep p target" for calls sleep
    using that Coroutine by (simp add: counts_calls_def)
  show ?thesis
  proof (cases "fn (rp_timeout p) v")
    case (Finished r v')
    with c Coroutine show ?thesis
      by (cases r)
        (auto simp: attempt_def attempt_verdict_def async_try_def wait_for_def)
  next
    case (Expired v')
    with c Coroutine show ?thesis
      by (auto simp: attempt_def attempt_verdict_def async_try_def wait_for_def)
  qed
qed

lemma whole_call_loop:
  assumes "1 \<le> rp_max_attempts p"
  shows "\<exists>call sleep'. whole_call atimeout bclk clk sleep p target = Inr call \<and>
    (sleep' = sleep_sync sleep p \<or> sleep' = sleep_async sleep p) \<and>
    (\<forall>w. call w = retry_loop (cb_guard (sharing bclk p)) (attempt atimeout bclk clk p target)
       (\<lambda>i (cb, v). case sleep' i v of (r, v') \<Rightarrow> (r, cb, v')) (nat (rp_max_attempts p)) 0 w)"
proof -
  have s: "sleep_sync (beside_sleep sleep) (sharing bclk p) = (\<lambda>i (cb, v). case sleep_sync sleep p i v of (r, v') \<Rightarrow> (r, cb, v'))"
    "sleep_async (beside_sleep sleep) (sharing bclk p) = (\<lambda>i (cb, v). case sleep_async sleep p i v of (r, v') \<Rightarrow> (r, cb, v'))"
    by (auto intro!: ext simp: sharing_sleep)
  show ?thesis
  proof (cases target)
    case (Plain fn)
    with assms show ?thesis
      by (intro exI [of _ "run_sync (beside clk) (beside_sleep sleep) (beside fn) (sharing bclk p)"]
          exI [of _ "sleep_sync sleep p"])
        (simp add: whole_call_def resilient_def run_sync_loop attempt_def s)
  next
    case (Coroutine fn)
    with assms show ?thesis
      by (intro exI [of _ "run_async atimeout (beside_sleep sleep) (beside_task fn) (sharing bclk p)"]
          exI [of _ "sleep_async sleep p"])
        (simp add: whole_call_def resilient_def run_async_loop attempt_def s)
  qed
qed

lemma pause_ok:
  assumes "rp_multiplier p ^ i < float_limit" and "counts_calls calls bclk clk sleep p target"
    and "sleep' = sleep_sync sleep p \<or> sleep' = sleep_async sleep p"
  shows "\<exists>v'. sleep' i v = (Inr (), v') \<and> calls v' = calls v"
proof -
  obtain r v1 where r: "rp_random p v = (r, v1)" by (rule prod.exhaust)
  have "calls v1 = calls v" "\<And>d. calls (sleep d v1) = calls v1"
    using assms(2) r unfolding counts_calls_def by (metis snd_conv, blast)
  then show ?thesis
    using assms(1,3) r
    by (auto simp: sleep_sync_def sleep_async_def backoff_def float_pow_def uniform_def Let_def)
qed

subsection \<open>Properties\<close>

text \<open>C6: transient failures are survived: a decorated function, plain or a coroutine, whose next \<open>k\<close>
  attempts fail in a way that may be repeated (a retryable error or a timeout) and which works from
  then on, is answered with its value, after exactly \<open>k + 1\<close> calls, as long as \<open>k\<close> is below
  \<^verbatim>\<open>max_attempts\<close> and the closed circuit is \<open>k\<close> failures short of its threshold; and then the failures
  are forgotten. The power of the multiplier stays a float.\<close>

theorem transient_failures_survived:
  assumes "counts_calls calls bclk clk sleep p target"
    and "\<forall>u. calls u < calls v + k \<longrightarrow> (\<exists>e. attempt_verdict atimeout clk p target u = Again e)"
    and "\<forall>u. calls v + k \<le> calls u \<longrightarrow> attempt_verdict atimeout clk p target u = Done x"
    and "int k < rp_max_attempts p" and "cb_state cb = CLOSED" and "cb_opened_at cb = None"
    and "cb_failure_count cb + int k < cb_failure_threshold cb"
    and "1 \<le> rp_multiplier p" and "rp_multiplier p ^ k < float_limit"
  shows "\<exists>call cb' v'. whole_call atimeout bclk clk sleep p target = Inr call \<and>
    call (cb, v) = (Inr x, cb', v') \<and> calls v' = calls v + k + 1 \<and>
    cb_state cb' = CLOSED \<and> cb_failure_count cb' = 0"
proof -
  define P where "P = (\<lambda>i (c :: breaker, u). calls u = calls v + i \<and> cb_state c = CLOSED \<and> cb_opened_at c = None \<and>
      cb_failure_count c = cb_failure_count cb + int i \<and> cb_failure_threshold c = cb_failure_threshold cb)"
  define S where "S = (\<lambda>(c :: breaker, u). calls u = calls v + k + 1 \<and> cb_state c = CLOSED \<and> cb_failure_count c = 0)"
  from assms(4) have m: "1 \<le> rp_max_attempts p" by simp
  obtain call sleep' where call: "whole_call atimeout bclk clk sleep p target = Inr call"
    "sleep' = sleep_sync sleep p \<or> sleep' = sleep_async sleep p"
    "\<forall>w. call w = retry_loop (cb_guard (sharing bclk p)) (attempt atimeout bclk clk p target)
       (\<lambda>i (cb, v). case sleep' i v of (r, v') \<Rightarrow> (r, cb, v')) (nat (rp_max_attempts p)) 0 w"
    using whole_call_loop [OF m] by blast
  have "\<exists>w'. retry_loop (cb_guard (sharing bclk p)) (attempt atimeout bclk clk p target)
      (\<lambda>i (cb, v). case sleep' i v of (r, v') \<Rightarrow> (r, cb, v')) (nat (rp_max_attempts p)) 0 (cb, v) =
        (Inr x, w') \<and> S w'"
  proof (rule retry_loop_survives [where P = P and R = P and Q = "\<lambda>i. P (Suc i)" and k = k])
    show "\<exists>w1. cb_guard (sharing bclk p) w = (Inr (), w1) \<and> P i w1" if "P i w" for i w
      using that by (cases w) (auto simp: P_def sharing_guard allow_def maybe_half_open_def)
    show "\<exists>e w1. attempt atimeout bclk clk p target w = (Again e, w1) \<and> P (Suc i) w1" if "P i w" "i < k" for i w
    proof -
      obtain c u where w: "w = (c, u)" by (rule prod.exhaust)
      with that have "calls u < calls v + k" by (simp add: P_def)
      with assms(2) obtain e where "attempt_verdict atimeout clk p target u = Again e" by blast
      with attempt_result [of atimeout bclk clk p target c u] assms(1) w that assms(7) show ?thesis
        by (auto simp: P_def record_failure_def Let_def)
    qed
    show "\<exists>w1. (case w of (cb, v) \<Rightarrow> case sleep' i v of (r, v') \<Rightarrow> (r, cb, v')) = (Inr (), w1) \<and> P (Suc i) w1"
      if "P (Suc i) w" "i < k" for i w
    proof -
      have "rp_multiplier p ^ i \<le> rp_multiplier p ^ k" using that(2) assms(8) by (intro power_increasing) auto
      with assms(9) have "rp_multiplier p ^ i < float_limit" by simp
      note pause = pause_ok [OF this assms(1) call(2)]
      obtain c u where w: "w = (c, u)" by (rule prod.exhaust)
      from pause obtain u' where "sleep' i u = (Inr (), u')" "calls u' = calls u" by blast
      with w that(1) show ?thesis by (simp add: P_def)
    qed
    show "\<exists>w1. attempt atimeout bclk clk p target w = (Done x, w1) \<and> S w1" if "P k w" for w
    proof -
      obtain c u where w: "w = (c, u)" by (rule prod.exhaust)
      with that assms(3) have "attempt_verdict atimeout clk p target u = Done x" by (simp add: P_def)
      with attempt_result [of atimeout bclk clk p target c u] assms(1) w that show ?thesis
        by (auto simp: P_def S_def record_success_def)
    qed
    show "P 0 (cb, v)" using assms(5,6) by (simp add: P_def)
  qed (use assms(4) in simp_all)
  with call(1,3) show ?thesis by (auto simp: S_def)
qed

text \<open>C24: a circuit that opened closes again: once the cooldown is over, the next call of a function
  that works is admitted and answered, the circuit is closed with no failures counted, and
  \<^verbatim>\<open>resolve_tiered\<close> over it serves the live value again, not degraded and with an empty trail.\<close>

theorem live_after_recovery:
  assumes "1 \<le> rp_max_attempts p"
    and "cb_reachable bclk cb" and "cb_state cb = OPEN" and "cooled bclk cb v"
    and "attempt_verdict atimeout clk p target (snd (bclk v)) = Done x"
  shows "\<exists>call cb' v'. whole_call atimeout bclk clk sleep p target = Inr call \<and>
    call (cb, v) = (Inr x, cb', v') \<and> cb_state cb' = CLOSED \<and> cb_failure_count cb' = 0 \<and>
    resolve_tiered now call cache mock max_age hard on_failure miss (cb, v) =
      (Resolved \<lparr>tr_value = x, tr_tier = LIVE, tr_degraded = False, tr_stale = False, tr_age = None,
         tr_failures = [], tr_badge = badge LIVE False None\<rparr>, cb', v')"
proof -
  obtain call sleep' where call: "whole_call atimeout bclk clk sleep p target = Inr call"
    "\<forall>w. call w = retry_loop (cb_guard (sharing bclk p)) (attempt atimeout bclk clk p target)
       (\<lambda>i (cb, v). case sleep' i v of (r, v') \<Rightarrow> (r, cb, v')) (nat (rp_max_attempts p)) 0 w"
    using whole_call_loop [OF assms(1)] by blast
  have inv: "cb_inv cb" by (rule cb_reachable_inv [OF assms(2)])
  obtain t u where b: "bclk v = (t, u)" by (rule prod.exhaust)
  obtain t0 where t0: "cb_opened_at cb = Some t0" "cb_cooldown cb \<le> t - t0"
    using assms(4) b by (auto simp: cooled_def split: option.splits)
  define c where "c = cb\<lparr>cb_state := HALF_OPEN, cb_half_open_calls := 1\<rparr>"
  have g: "cb_guard (sharing bclk p) (cb, v) = (Inr (), c, u)"
    using assms(3) b t0 inv
    by (simp add: sharing_guard allow_def maybe_half_open_def cb_inv_def c_def)
  obtain u' where "attempt atimeout bclk clk p target (c, u) = (Done x, record_success c, u')"
    using attempt_result [of atimeout bclk clk p target c u] assms(5) b by auto
  moreover obtain m where "nat (rp_max_attempts p) = Suc m" using assms(1) by (cases "nat (rp_max_attempts p)") auto
  ultimately have "call (cb, v) = (Inr x, record_success c, u')" using call(2) g by simp
  with call(1) show ?thesis by (auto simp: record_success_def resolve_tiered_def)
qed

text \<open>Examples: the function of the repository's test fails twice; and the sample breaker, tripped at time
  5, is asked at time 20.\<close>

definition calm_breaker :: breaker where
  "calm_breaker =
     \<lparr>cb_name = ''svc'', cb_failure_threshold = 3, cb_cooldown = 30, cb_half_open_max = 1,
      cb_state = CLOSED, cb_failure_count = 0, cb_opened_at = None, cb_half_open_calls = 0\<rparr>"

theorem transient_failures_survived_witness:
  "\<exists>call cb' v'. whole_call TimeoutError demo_clock demo_clock demo_sleep (demo_policy None) (Plain demo_fn) = Inr call \<and>
     call (calm_breaker, 0, 0) = (Inr ''recovered'', cb', v') \<and> fst v' = 3 \<and> cb_failure_count cb' = 0"
proof -
  have counts: "counts_calls fst demo_clock demo_clock demo_sleep (demo_policy None) (Plain demo_fn)"
    by (simp add: counts_calls_def demo_clock_def demo_sleep_def demo_fn_def)
  have verdict: "attempt_verdict TimeoutError demo_clock (demo_policy None) (Plain demo_fn) u =
      (if fst u < 2 then Again (mk_exn ValueError ''transient'') else Done ''recovered'')" for u
    by (simp add: attempt_verdict_def sync_try_def demo_clock_def demo_fn_def demo_policy_def is_retryable_def
        status_of_def no_attrs_def)
  have "(2::rat) ^ 2 < float_limit" using float_limit_pos by (simp add: float_limit_def)
  with transient_failures_survived [OF counts, of "(0, 0)" 2 TimeoutError "''recovered''" calm_breaker]
  show ?thesis by (force simp: verdict calm_breaker_def)
qed

theorem live_after_recovery_witness:
  "\<exists>call cb' v'. whole_call TimeoutError fake_clock fake_clock (\<lambda>d w. w) (demo_policy None)
       (Plain (idle (Inr ''live''))) = Inr call \<and>
     call (tripped, 20) = (Inr ''live'', cb', v') \<and> cb_state cb' = CLOSED"
proof -
  have r: "cb_reachable fake_clock tripped"
    using cb_reachable.called [OF cb_reachable.created [OF sample_breaker_new] surjective_pairing, of fake_clock Failure 5]
    by (simp add: tripped_def)
  have v: "attempt_verdict TimeoutError fake_clock (demo_policy None) (Plain (idle (Inr ''live''))) (snd (fake_clock 20)) =
      Done ''live''"
    by (simp add: attempt_verdict_def sync_try_def)
  have c: "1 \<le> rp_max_attempts (demo_policy None :: rat policy)" "cb_state tripped = OPEN"
    "cooled fake_clock tripped 20"
    by (simp_all add: tripped_simp sample_breaker_def cooled_def)
  note live = live_after_recovery [OF c(1) r c(2,3) v]
  show ?thesis using live [of "\<lambda>d w. w" "idle 0" None None 1 None None "''none''"] by blast
qed

end
