(* ===== verification/Onchain.thy ===== *)
theory Onchain
  imports Breaker_Contract Py_String
begin

section \<open>The on-chain write client\<close>

text \<open>
  Models \<^verbatim>\<open>onchain/python/resilient_onchain/client.py\<close>. Fees and nonces are Python integers;
  the state fetcher, the signer, the receipt wait, the clocks, the logger and the sleep are
  callbacks on a world of any type. The logger is assumed not to raise (its default does
  nothing), so it is a function from a message to a change of the world.
\<close>

subsection \<open>Errors\<close>

text \<open>\<^verbatim>\<open>OnchainWriteError\<close> and its subclasses: the class, the message, the code and the cause.\<close>

definition write_error :: "pyclass \<Rightarrow> string \<Rightarrow> string \<Rightarrow> exn option \<Rightarrow> exn" where
  "write_error cls msg code cause =
     Exn (mro_of cls) msg (no_attrs\<lparr>at_code := Some code\<rparr>) cause"

definition onchain_error :: "string \<Rightarrow> string \<Rightarrow> exn" where
  "onchain_error msg code = write_error OnchainWriteError msg code None"

definition tx_failed_error :: "string \<Rightarrow> exn" where
  "tx_failed_error msg = write_error TxFailedError msg ''TX_FAILED'' None"

definition onchain_circuit_open :: "string \<Rightarrow> exn" where
  "onchain_circuit_open msg = write_error OnchainCircuitOpenError msg ''CIRCUIT_OPEN'' None"

definition retry_exhausted_error :: "string \<Rightarrow> exn option \<Rightarrow> exn" where
  "retry_exhausted_error msg cause = write_error RetryExhaustedError msg ''RETRY_EXHAUSTED'' cause"

definition non_retryable_error :: "string \<Rightarrow> exn option \<Rightarrow> exn" where
  "non_retryable_error msg cause = write_error NonRetryableError msg ''NON_RETRYABLE'' cause"

subsection \<open>Data\<close>

record fee_fields =
  gas_price :: "int option"
  max_fee :: "int option"
  max_priority_fee :: "int option"

datatype receipt_status = SInt int | SBool bool | SStr string

record receipt =
  rc_status :: receipt_status
  rc_hash :: "string option"

record tx_context =
  tx_nonce :: int
  tx_fee :: fee_fields
  tx_attempt :: int

record 'w submit_result =
  sr_hash :: string
  sr_wait :: "('w, receipt) callback"

record state_result =
  st_nonce :: int
  st_fee :: fee_fields

text \<open>\<^verbatim>\<open>str(status)\<close>.\<close>

definition status_str :: "receipt_status \<Rightarrow> string" where
  "status_str s =
     (case s of
        SInt i \<Rightarrow> int_str i
      | SBool b \<Rightarrow> if b then ''True'' else ''False''
      | SStr t \<Rightarrow> t)"

definition is_receipt_success :: "receipt \<Rightarrow> bool" where
  "is_receipt_success r =
     (case rc_status r of
        SBool b \<Rightarrow> b
      | SInt i \<Rightarrow> i = 1
      | SStr s \<Rightarrow> py_lower s \<in> {''success'', ''1'', ''true'', ''ok''})"

subsection \<open>The circuit breaker\<close>

record onchain_breaker =
  ob_threshold :: int
  ob_cooldown :: rat
  ob_failures :: int
  ob_opened_at :: "rat option"

definition new_onchain_breaker :: "int \<Rightarrow> rat \<Rightarrow> exn + onchain_breaker" where
  "new_onchain_breaker threshold cooldown_s =
     (if threshold < 1 then Inl (onchain_error ''threshold must be >= 1'' ''BAD_CONFIG'')
      else Inr \<lparr>ob_threshold = threshold, ob_cooldown = cooldown_s, ob_failures = 0,
                ob_opened_at = None\<rparr>)"

definition assert_closed :: "'w clock \<Rightarrow> onchain_breaker \<Rightarrow> ('w, unit) callback" where
  "assert_closed now b w =
     (let err = Inl (onchain_circuit_open
            (''circuit open after '' @ int_str (ob_failures b) @ '' consecutive failures'')) in
      case ob_opened_at b of
        None \<Rightarrow> (Inr (), w)
      | Some t0 \<Rightarrow>
          (if ob_cooldown b > 0 then
             (let (t, w') = now w in
              if t - t0 \<ge> ob_cooldown b then (Inr (), w') else (err, w'))
           else (err, w)))"

definition ob_record_success :: "onchain_breaker \<Rightarrow> onchain_breaker" where
  "ob_record_success b = b\<lparr>ob_failures := 0, ob_opened_at := None\<rparr>"

definition ob_record_failure :: "'w clock \<Rightarrow> onchain_breaker \<Rightarrow> 'w \<Rightarrow> onchain_breaker \<times> 'w" where
  "ob_record_failure now b w =
     (let b1 = b\<lparr>ob_failures := ob_failures b + 1\<rparr> in
      if ob_failures b1 \<ge> ob_threshold b1 then
        (let (t, w') = now w in (b1\<lparr>ob_opened_at := Some t\<rparr>, w'))
      else (b1, w))"

definition is_open :: "'w clock \<Rightarrow> onchain_breaker \<Rightarrow> 'w \<Rightarrow> bool \<times> 'w" where
  "is_open now b w =
     (case assert_closed now b w of (Inl _, w') \<Rightarrow> (True, w') | (Inr _, w') \<Rightarrow> (False, w'))"

definition read_failures :: "onchain_breaker \<Rightarrow> int" where
  "read_failures b = ob_failures b"

subsection \<open>Fees\<close>

definition initial_fee :: "string \<Rightarrow> fee_fields \<Rightarrow> exn + fee_fields" where
  "initial_fee mode base =
     (if mode = ''legacy'' then
        (case gas_price base of
           None \<Rightarrow> Inl (onchain_error ''legacy mode requires gas_price'' ''BAD_FEE'')
         | Some g \<Rightarrow> Inr \<lparr>gas_price = Some g, max_fee = None, max_priority_fee = None\<rparr>)
      else
        (case max_fee base of
           None \<Rightarrow> Inl (onchain_error ''eip1559 mode requires max_fee_per_gas'' ''BAD_FEE'')
         | Some m \<Rightarrow>
             Inr \<lparr>gas_price = None, max_fee = Some m,
                  max_priority_fee =
                    Some (case max_priority_fee base of Some q \<Rightarrow> q | None \<Rightarrow> m)\<rparr>))"

definition bump :: "rat \<Rightarrow> int \<Rightarrow> int" where
  "bump factor v = (v * py_round (factor * 1000)) div 1000 + 1"

definition bump_fee :: "string \<Rightarrow> fee_fields \<Rightarrow> rat \<Rightarrow> exn + fee_fields" where
  "bump_fee mode fee factor =
     (if mode = ''legacy'' then
        (case gas_price fee of
           None \<Rightarrow> Inl (mk_exn AssertionError [])
         | Some g \<Rightarrow>
             Inr \<lparr>gas_price = Some (bump factor g), max_fee = None, max_priority_fee = None\<rparr>)
      else
        (case max_fee fee of
           None \<Rightarrow> Inl (mk_exn AssertionError [])
         | Some m \<Rightarrow>
             (let prio = (case max_priority_fee fee of Some q \<Rightarrow> q | None \<Rightarrow> m) in
              Inr \<lparr>gas_price = None, max_fee = Some (bump factor m),
                   max_priority_fee = Some (bump factor prio)\<rparr>)))"

subsection \<open>Classification of errors\<close>

definition nonce_phrases :: "string list" where
  "nonce_phrases =
     [''nonce too low'', ''nonce-too-low'', ''nonce is too low'', ''already known'',
      ''invalid nonce'']"

definition is_nonce_too_low :: "exn \<Rightarrow> bool" where
  "is_nonce_too_low err = (\<exists>s \<in> set nonce_phrases. occurs_in s (py_lower (exn_str err)))"

definition fatal_phrases :: "string list" where
  "fatal_phrases =
     [''insufficient funds'', ''invalid signature'', ''execution reverted'', ''unauthorized'']"

definition is_retryable_write :: "exn \<Rightarrow> bool" where
  "is_retryable_write err = (\<not> (\<exists>s \<in> set fatal_phrases. occurs_in s (py_lower (exn_str err))))"

subsection \<open>Sending\<close>

text \<open>What is logged, with the values the messages format.\<close>

datatype log_message =
    Attempt_sent int int int string
  | Attempt_confirmed int string
  | Nonce_refresh int
  | Bumping int string rat

record 'w send_opts =
  so_max_attempts :: int
  so_fee_mode :: string
  so_bump_factor :: rat
  so_timeout :: rat
  so_backoff_base :: rat
  so_idempotency_key :: "string option"
  so_already_sent :: "(string \<Rightarrow> ('w, bool) callback) option"
  so_breaker :: "'w breaker_ops option"
  so_logger :: "log_message \<Rightarrow> 'w \<Rightarrow> 'w"
  so_sleep :: "rat \<Rightarrow> 'w \<Rightarrow> 'w"

text \<open>\<^verbatim>\<open>SendOpts()\<close>, what a call without options gets; \<open>sleep\<close> is \<^verbatim>\<open>time.sleep\<close>.\<close>

definition default_opts :: "(rat \<Rightarrow> 'w \<Rightarrow> 'w) \<Rightarrow> 'w send_opts" where
  "default_opts sleep =
     \<lparr>so_max_attempts = 5, so_fee_mode = ''legacy'', so_bump_factor = 1125 / 1000, so_timeout = 120,
      so_backoff_base = 1, so_idempotency_key = None, so_already_sent = None, so_breaker = None,
      so_logger = (\<lambda>m w. w), so_sleep = sleep\<rparr>"

text \<open>The injected callbacks and the library functions used: the clock of \<^verbatim>\<open>_with_timeout\<close> and the
  decimal form of a float (in the timeout message, which is classified like any other).\<close>

record 'w provider =
  pv_fetch_state :: "('w, state_result) callback"
  pv_sign_send :: "tx_context \<Rightarrow> ('w, 'w submit_result) callback"
  pv_monotonic :: "'w clock"
  pv_float_str :: "rat \<Rightarrow> string"

definition with_timeout ::
  "'w provider \<Rightarrow> ('w, receipt) callback \<Rightarrow> rat \<Rightarrow> string \<Rightarrow> ('w, receipt) callback" where
  "with_timeout pv op timeout label w =
     (let (start, w1) = pv_monotonic pv w in
      case op w1 of
        (Inl e, w2) \<Rightarrow> (Inl e, w2)
      | (Inr result, w2) \<Rightarrow>
          (let (now, w3) = pv_monotonic pv w2 in
           if now - start > timeout then
             (Inl (onchain_error
                 (label @ '' exceeded timeout of '' @ pv_float_str pv timeout @ ''s'')
                 ''TIMEOUT''), w3)
           else (Inr result, w3)))"

definition ob_failed :: "'w send_opts \<Rightarrow> 'w \<Rightarrow> 'w" where
  "ob_failed opts w = (case so_breaker opts of None \<Rightarrow> w | Some ops \<Rightarrow> op_failure ops w)"

definition ob_succeeded :: "'w send_opts \<Rightarrow> 'w \<Rightarrow> 'w" where
  "ob_succeeded opts w = (case so_breaker opts of None \<Rightarrow> w | Some ops \<Rightarrow> op_success ops w)"

definition submit_and_wait ::
  "'w provider \<Rightarrow> 'w send_opts \<Rightarrow> int \<Rightarrow> fee_fields \<Rightarrow> int \<Rightarrow> ('w, receipt) callback" where
  "submit_and_wait pv opts nonce fee attempt w =
     (case pv_sign_send pv \<lparr>tx_nonce = nonce, tx_fee = fee, tx_attempt = attempt\<rparr> w of
        (Inl e, w1) \<Rightarrow> (Inl e, w1)
      | (Inr submitted, w1) \<Rightarrow>
          sr_wait submitted
            (so_logger opts (Attempt_sent attempt (so_max_attempts opts) nonce (sr_hash submitted)) w1))"

text \<open>The body of the \<^verbatim>\<open>try\<close> block: submit, wait, assert success.\<close>

definition try_attempt ::
  "'w provider \<Rightarrow> 'w send_opts \<Rightarrow> int \<Rightarrow> fee_fields \<Rightarrow> int \<Rightarrow> ('w, receipt) callback" where
  "try_attempt pv opts nonce fee attempt w =
     (case with_timeout pv (submit_and_wait pv opts nonce fee attempt) (so_timeout opts)
             (''attempt '' @ int_str attempt) w of
        (Inl e, w1) \<Rightarrow> (Inl e, w1)
      | (Inr receipt, w1) \<Rightarrow>
          (if \<not> is_receipt_success receipt
           then (Inl (tx_failed_error (''tx confirmed but reverted (status='' @
                   status_str (rc_status receipt) @ '')'')), ob_failed opts w1)
           else (Inr receipt,
                 so_logger opts (Attempt_confirmed attempt (case rc_hash receipt of None \<Rightarrow> [] | Some h \<Rightarrow> h))
                   (ob_succeeded opts w1))))"

text \<open>Nonce drifted: refresh nonce and fee.\<close>

definition refresh ::
  "'w provider \<Rightarrow> 'w send_opts \<Rightarrow> int \<Rightarrow> int \<Rightarrow> fee_fields \<Rightarrow> exn \<Rightarrow> ('w, int \<times> fee_fields) callback" where
  "refresh pv opts attempt nonce fee err w =
     (if is_nonce_too_low err then
        (case pv_fetch_state pv (so_logger opts (Nonce_refresh attempt) w) of
           (Inl e, w1) \<Rightarrow> (Inl e, w1)
         | (Inr refreshed, w1) \<Rightarrow>
             (case initial_fee (so_fee_mode opts) (st_fee refreshed) of
                Inl e \<Rightarrow> (Inl e, w1)
              | Inr f \<Rightarrow> (Inr (st_nonce refreshed, f), w1)))
      else (Inr (nonce, fee), w))"

text \<open>The body of \<^verbatim>\<open>except BaseException\<close>: it raises (\<open>Inl\<close>), or ends with the nonce and fee of
  the next attempt. The delay \<^verbatim>\<open>backoff_base_s * 2 ** (attempt - 1)\<close> is a float times an integer
  and overflows with the integer.\<close>

definition handle_error ::
  "'w provider \<Rightarrow> 'w send_opts \<Rightarrow> int \<Rightarrow> int \<Rightarrow> fee_fields \<Rightarrow> exn \<Rightarrow> ('w, int \<times> fee_fields) callback" where
  "handle_error pv opts attempt nonce fee err w =
     (case refresh pv opts attempt nonce fee err w of
        (Inl e, w1) \<Rightarrow> (Inl e, w1)
      | (Inr (n, f), w1) \<Rightarrow>
          (if is_nonce_too_low err \<and> attempt < so_max_attempts opts
           then (Inr (n, f), so_sleep opts (so_backoff_base opts) w1)
           else
             (let w2 = ob_failed opts w1 in
              if \<not> is_retryable_write err then
                (Inl (non_retryable_error
                   (''non-retryable on-chain error on attempt '' @ int_str attempt @ '': '' @ exn_str err)
                   (Some err)), w2)
              else if attempt < so_max_attempts opts then
                (case bump_fee (so_fee_mode opts) f (so_bump_factor opts) of
                   Inl e \<Rightarrow> (Inl e, w2)
                 | Inr f' \<Rightarrow>
                     (case int_as_float (2 ^ nat (attempt - 1)) of
                        Inl e \<Rightarrow> (Inl e, w2)
                      | Inr m \<Rightarrow>
                          (Inr (n, f'),
                           so_sleep opts (so_backoff_base opts * m)
                             (so_logger opts (Bumping attempt (exn_str err) (so_backoff_base opts * m)) w2))))
              else (Inr (n, f), w2))))"

text \<open>The loop, over the attempts \<^verbatim>\<open>range(1, max_attempts + 1)\<close> still has to give.\<close>

fun send_loop ::
  "'w provider \<Rightarrow> 'w send_opts \<Rightarrow> int list \<Rightarrow> int \<Rightarrow> fee_fields \<Rightarrow> exn option \<Rightarrow>
   ('w, receipt) callback" where
  "send_loop pv opts [] nonce fee last_err w =
     (Inl (retry_exhausted_error
        (''on-chain write failed after '' @ int_str (so_max_attempts opts) @ '' attempts: '' @
         (case last_err of None \<Rightarrow> ''None'' | Some e \<Rightarrow> exn_str e)) last_err), w)"
| "send_loop pv opts (attempt # rest) nonce fee last_err w =
     (case try_attempt pv opts nonce fee attempt w of
        (Inr receipt, w1) \<Rightarrow> (Inr receipt, w1)
      | (Inl err, w1) \<Rightarrow>
          (if isinstance err TxFailedError then (Inl err, w1)
           else (case handle_error pv opts attempt nonce fee err w1 of
                   (Inl e, w2) \<Rightarrow> (Inl e, w2)
                 | (Inr (n, f), w2) \<Rightarrow> send_loop pv opts rest n f (Some err) w2)))"

definition already_submitted :: "'w send_opts \<Rightarrow> ('w, bool) callback" where
  "already_submitted opts w =
     (case (so_idempotency_key opts, so_already_sent opts) of
        (Some key, Some sent) \<Rightarrow> sent key w
      | _ \<Rightarrow> (Inr False, w))"

definition breaker_check :: "'w send_opts \<Rightarrow> ('w, unit) callback" where
  "breaker_check opts w = (case so_breaker opts of None \<Rightarrow> (Inr (), w) | Some ops \<Rightarrow> op_guard ops w)"

definition send_with_retry :: "'w provider \<Rightarrow> 'w send_opts \<Rightarrow> ('w, receipt) callback" where
  "send_with_retry pv opts w =
     (if so_bump_factor opts \<le> 1 then (Inl (onchain_error ''bump_factor must be > 1'' ''BAD_CONFIG''), w)
      else if so_max_attempts opts < 1
        then (Inl (onchain_error ''max_attempts must be >= 1'' ''BAD_CONFIG''), w)
      else
        (case already_submitted opts w of
           (Inl e, w1) \<Rightarrow> (Inl e, w1)
         | (Inr True, w1) \<Rightarrow>
             (Inl (onchain_error
                (''idempotent: tx for key '' @ [CHR 0x27] @
                 (case so_idempotency_key opts of None \<Rightarrow> ''None'' | Some key \<Rightarrow> key) @
                 [CHR 0x27] @ '' already submitted'') ''ALREADY_SENT''), w1)
         | (Inr False, w1) \<Rightarrow>
             (case breaker_check opts w1 of
                (Inl e, w2) \<Rightarrow> (Inl e, w2)
              | (Inr _, w2) \<Rightarrow>
                  (case pv_fetch_state pv w2 of
                     (Inl e, w3) \<Rightarrow> (Inl e, w3)
                   | (Inr state, w3) \<Rightarrow>
                       (case initial_fee (so_fee_mode opts) (st_fee state) of
                          Inl e \<Rightarrow> (Inl e, w3)
                        | Inr fee \<Rightarrow>
                            send_loop pv opts [1..so_max_attempts opts] (st_nonce state) fee None w3)))))"

subsection \<open>The breaker: invariant and contract\<close>

definition ob_inv :: "onchain_breaker \<Rightarrow> bool" where
  "ob_inv b \<longleftrightarrow>
     1 \<le> ob_threshold b \<and> 0 \<le> ob_failures b \<and>
     (ob_opened_at b = None \<longleftrightarrow> ob_failures b < ob_threshold b)"

lemma ob_inv_new: "new_onchain_breaker n c = Inr b \<Longrightarrow> ob_inv b"
  by (auto simp: new_onchain_breaker_def ob_inv_def split: if_splits)

lemma ob_record_failure_inv: "ob_inv b \<Longrightarrow> ob_record_failure now b w = (b', w') \<Longrightarrow> ob_inv b'"
  by (auto simp: ob_record_failure_def ob_inv_def Let_def split: if_splits prod.splits)

lemma ob_record_success_inv: "ob_inv b \<Longrightarrow> ob_inv (ob_record_success b)"
  by (simp add: ob_record_success_def ob_inv_def)

definition ob_admits_at :: "rat \<Rightarrow> onchain_breaker \<Rightarrow> bool" where
  "ob_admits_at t b = (\<not> fst (is_open fake_clock b t))"

definition ob_fail_at :: "rat \<Rightarrow> onchain_breaker \<Rightarrow> onchain_breaker" where
  "ob_fail_at t b = fst (ob_record_failure fake_clock b t)"

lemma ob_admits_at_iff:
  "ob_admits_at t b \<longleftrightarrow>
     (case ob_opened_at b of None \<Rightarrow> True | Some t0 \<Rightarrow> 0 < ob_cooldown b \<and> ob_cooldown b \<le> t - t0)"
  by (auto simp: ob_admits_at_def is_open_def assert_closed_def Let_def split: option.splits)

lemma ob_fail_at_eq:
  "ob_fail_at t b = b\<lparr>ob_failures := ob_failures b + 1,
     ob_opened_at := (if ob_threshold b \<le> ob_failures b + 1 then Some t else ob_opened_at b)\<rparr>"
  by (simp add: ob_fail_at_def ob_record_failure_def Let_def)

interpretation chain: breaker_contract ob_inv ob_failures ob_threshold ob_cooldown
    ob_admits_at ob_fail_at ob_record_success
proof (unfold_locales, goal_cases)
  case (1 s t)
  then show ?case by (auto simp: ob_fail_at_eq ob_inv_def)
next
  case (2 s)
  then show ?case by (rule ob_record_success_inv)
next
  case (9 s t)
  then show ?case by (auto simp: ob_admits_at_iff ob_inv_def)
next
  case (10 s t' t)
  then show ?case by (auto simp: ob_admits_at_iff ob_fail_at_eq)
qed (auto simp: ob_fail_at_eq ob_record_success_def)

text \<open>A breaker object shared by several sends, in a world that holds it.\<close>

definition onchain_ref :: "'v clock \<Rightarrow> (onchain_breaker \<times> 'v) breaker_ops" where
  "onchain_ref now =
     \<lparr>op_guard = (\<lambda>(b, v). case assert_closed now b v of (r, v') \<Rightarrow> (r, (b, v'))),
      op_failure = (\<lambda>(b, v). ob_record_failure now b v),
      op_success = (\<lambda>(b, v). (ob_record_success b, v))\<rparr>"

subsection \<open>Fees: shape and growth\<close>

text \<open>Fees as \<open>initial_fee\<close> makes them for a mode, with non-negative amounts, and the order of a
  replacement: every amount strictly greater.\<close>

definition fee_ok :: "string \<Rightarrow> fee_fields \<Rightarrow> bool" where
  "fee_ok mode f \<longleftrightarrow>
     (if mode = ''legacy'' then (\<exists>g \<ge> 0. f = \<lparr>gas_price = Some g, max_fee = None, max_priority_fee = None\<rparr>)
      else (\<exists>m \<ge> 0. \<exists>q \<ge> 0. f = \<lparr>gas_price = None, max_fee = Some m, max_priority_fee = Some q\<rparr>))"

definition amount_less :: "int option \<Rightarrow> int option \<Rightarrow> bool" where
  "amount_less a b = (case (a, b) of (Some x, Some y) \<Rightarrow> x < y | (None, None) \<Rightarrow> True | _ \<Rightarrow> False)"

definition fee_less :: "fee_fields \<Rightarrow> fee_fields \<Rightarrow> bool" where
  "fee_less f g \<longleftrightarrow>
     amount_less (gas_price f) (gas_price g) \<and> amount_less (max_fee f) (max_fee g) \<and>
     amount_less (max_priority_fee f) (max_priority_fee g)"

definition amounts_nonneg :: "fee_fields \<Rightarrow> bool" where
  "amounts_nonneg f \<longleftrightarrow>
     (\<forall>v \<in> {gas_price f, max_fee f, max_priority_fee f}. case v of None \<Rightarrow> True | Some x \<Rightarrow> 0 \<le> x)"

lemma py_round_ge: "of_int n \<le> x \<Longrightarrow> n \<le> py_round x"
  using le_floor_iff [of n x] by (auto simp: py_round_def Let_def)

lemma bump_greater:
  assumes "1 < factor" and "0 \<le> v"
  shows "v < bump factor v"
proof -
  have "of_int 1000 \<le> factor * 1000" using assms(1) by simp
  then have "1000 \<le> py_round (factor * 1000)" by (rule py_round_ge)
  then have "v * 1000 \<le> v * py_round (factor * 1000)" using assms(2) by (rule mult_left_mono)
  then have "v * 1000 div 1000 \<le> v * py_round (factor * 1000) div 1000" by (rule zdiv_mono1) simp
  then show ?thesis by (simp add: bump_def)
qed

lemma initial_fee_ok: "amounts_nonneg base \<Longrightarrow> initial_fee mode base = Inr f \<Longrightarrow> fee_ok mode f"
  by (auto simp: initial_fee_def fee_ok_def amounts_nonneg_def split: if_splits option.splits)

lemma bump_fee_ok:
  assumes "fee_ok mode f" and "1 < factor"
  shows "\<exists>f'. bump_fee mode f factor = Inr f' \<and> fee_ok mode f' \<and> fee_less f f'"
proof (cases "mode = ''legacy''")
  case True
  with assms(1) obtain g where g: "0 \<le> g"
    and f: "f = \<lparr>gas_price = Some g, max_fee = None, max_priority_fee = None\<rparr>"
    by (auto simp: fee_ok_def)
  from bump_greater [OF assms(2) g] g True f show ?thesis
    by (simp add: bump_fee_def fee_ok_def fee_less_def amount_less_def)
next
  case False
  with assms(1) obtain m q where mq: "0 \<le> m" "0 \<le> q"
    and f: "f = \<lparr>gas_price = None, max_fee = Some m, max_priority_fee = Some q\<rparr>"
    by (auto simp: fee_ok_def)
  from bump_greater [OF assms(2) mq(1)] bump_greater [OF assms(2) mq(2)] mq False f show ?thesis
    by (simp add: bump_fee_def fee_ok_def fee_less_def amount_less_def)
qed

subsection \<open>What a send shows to the outside\<close>

text \<open>\<open>observes obs sent got\<close>: the reading \<open>obs\<close> of the world changes by \<open>sent\<close> when a transaction is
  handed to the signer, by \<open>got\<close> when the state is fetched, and by nothing else.\<close>

definition observes ::
  "('w \<Rightarrow> 'o) \<Rightarrow> (tx_context \<Rightarrow> 'o \<Rightarrow> 'o) \<Rightarrow> (exn + state_result \<Rightarrow> 'o \<Rightarrow> 'o) \<Rightarrow> 'w provider \<Rightarrow> 'w send_opts \<Rightarrow> bool"
where
  "observes obs sent got pv opts \<longleftrightarrow>
     (\<forall>ctx w. obs (snd (pv_sign_send pv ctx w)) = sent ctx (obs w)) \<and>
     (\<forall>ctx w s v. fst (pv_sign_send pv ctx w) = Inr s \<longrightarrow> obs (snd (sr_wait s v)) = obs v) \<and>
     (\<forall>w. obs (snd (pv_monotonic pv w)) = obs w) \<and>
     (\<forall>w. obs (snd (pv_fetch_state pv w)) = got (fst (pv_fetch_state pv w)) (obs w)) \<and>
     (\<forall>m w. obs (so_logger opts m w) = obs w) \<and>
     (\<forall>d w. obs (so_sleep opts d w) = obs w) \<and>
     (\<forall>w. obs (ob_failed opts w) = obs w) \<and>
     (\<forall>w. obs (ob_succeeded opts w) = obs w) \<and>
     (\<forall>w. obs (snd (already_submitted opts w)) = obs w) \<and>
     (\<forall>w. obs (snd (breaker_check opts w)) = obs w)"

lemma observes_try:
  assumes "observes obs sent got pv opts"
  shows "obs (snd (try_attempt pv opts n f a w)) = sent \<lparr>tx_nonce = n, tx_fee = f, tx_attempt = a\<rparr> (obs w)"
proof -
  let ?ctx = "\<lparr>tx_nonce = n, tx_fee = f, tx_attempt = a\<rparr>"
  have mono: "obs (snd (pv_monotonic pv v)) = obs v" for v using assms by (simp add: observes_def)
  obtain t w1 where 1: "pv_monotonic pv w = (t, w1)" by (rule prod.exhaust)
  have submit: "obs (snd (submit_and_wait pv opts n f a v)) = sent ?ctx (obs v)" for v
  proof -
    obtain r v1 where 2: "pv_sign_send pv ?ctx v = (r, v1)" by (rule prod.exhaust)
    have v1: "obs v1 = sent ?ctx (obs v)" using assms 2 unfolding observes_def by (metis snd_conv)
    show ?thesis
    proof (cases r)
      case (Inl e)
      with 2 v1 show ?thesis by (simp add: submit_and_wait_def)
    next
      case (Inr s)
      then have "obs (snd (sr_wait s u)) = obs u" for u
        using assms 2 unfolding observes_def by (metis fst_conv)
      with Inr 2 v1 assms show ?thesis by (simp add: submit_and_wait_def observes_def)
    qed
  qed
  obtain r w2 where 3: "submit_and_wait pv opts n f a w1 = (r, w2)" by (rule prod.exhaust)
  obtain t' w3 where 4: "pv_monotonic pv w2 = (t', w3)" by (rule prod.exhaust)
  have "obs w1 = obs w" and "obs w2 = sent ?ctx (obs w1)" and "obs w3 = obs w2"
    using mono [of w] mono [of w2] submit [of w1] 1 3 4 by simp_all
  then show ?thesis
    using assms by (auto simp: try_attempt_def with_timeout_def 1 3 4 Let_def observes_def split: sum.splits)
qed

text \<open>The state fetched by an error handler, if it fetches one.\<close>

definition drift_fetch :: "'w provider \<Rightarrow> 'w send_opts \<Rightarrow> int \<Rightarrow> 'w \<Rightarrow> exn + state_result" where
  "drift_fetch pv opts attempt w = fst (pv_fetch_state pv (so_logger opts (Nonce_refresh attempt) w))"

lemma observes_refresh:
  assumes "observes obs sent got pv opts"
  shows "obs (snd (refresh pv opts a n f err w)) =
    (if is_nonce_too_low err then got (drift_fetch pv opts a w) (obs w) else obs w)"
proof -
  let ?v = "so_logger opts (Nonce_refresh a) w"
  obtain r v where r: "pv_fetch_state pv ?v = (r, v)" by (rule prod.exhaust)
  have "obs (snd (pv_fetch_state pv ?v)) = got r (obs ?v)" "obs ?v = obs w"
    using assms r unfolding observes_def by (metis fst_conv)+
  with r show ?thesis by (auto simp: refresh_def drift_fetch_def split: sum.split)
qed

lemma observes_handle:
  assumes "observes obs sent got pv opts"
  shows "obs (snd (handle_error pv opts a n f err w)) =
    (if is_nonce_too_low err then got (drift_fetch pv opts a w) (obs w) else obs w)"
proof -
  obtain r w1 where 1: "refresh pv opts a n f err w = (r, w1)" by (rule prod.exhaust)
  then have "obs w1 = (if is_nonce_too_low err then got (drift_fetch pv opts a w) (obs w) else obs w)"
    using observes_refresh [OF assms, of a n f err w] by simp
  moreover have "obs (snd (handle_error pv opts a n f err w)) = obs w1"
    using assms by (auto simp: handle_error_def 1 Let_def observes_def split: sum.splits)
  ultimately show ?thesis by simp
qed

subsection \<open>Traces of submissions\<close>

text \<open>\<open>records subs\<close>: the reading \<open>subs\<close> of the world lists the transactions handed to the signer,
  and only the signer adds to it.\<close>

definition records ::
  "('w \<Rightarrow> tx_context list) \<Rightarrow> 'w provider \<Rightarrow> 'w send_opts \<Rightarrow> bool" where
  "records subs pv opts \<longleftrightarrow>
     (\<forall>ctx w. subs (snd (pv_sign_send pv ctx w)) = subs w @ [ctx]) \<and>
     (\<forall>ctx w s v. fst (pv_sign_send pv ctx w) = Inr s \<longrightarrow> subs (snd (sr_wait s v)) = subs v) \<and>
     (\<forall>w. subs (snd (pv_monotonic pv w)) = subs w) \<and>
     (\<forall>w. subs (snd (pv_fetch_state pv w)) = subs w) \<and>
     (\<forall>m w. subs (so_logger opts m w) = subs w) \<and>
     (\<forall>d w. subs (so_sleep opts d w) = subs w) \<and>
     (\<forall>w. subs (ob_failed opts w) = subs w) \<and>
     (\<forall>w. subs (ob_succeeded opts w) = subs w) \<and>
     (\<forall>w. subs (snd (already_submitted opts w)) = subs w) \<and>
     (\<forall>w. subs (snd (breaker_check opts w)) = subs w)"

lemma records_observes: "records subs pv opts \<longleftrightarrow> observes subs (\<lambda>ctx l. l @ [ctx]) (\<lambda>r l. l) pv opts"
  by (simp add: records_def observes_def)

lemma records_try:
  "records subs pv opts \<Longrightarrow>
     subs (snd (try_attempt pv opts n f a w)) = subs w @ [\<lparr>tx_nonce = n, tx_fee = f, tx_attempt = a\<rparr>]"
  unfolding records_observes by (rule observes_try)

lemma records_handle:
  "records subs pv opts \<Longrightarrow> subs (snd (handle_error pv opts a n f err w)) = subs w"
  unfolding records_observes by (drule observes_handle) simp

text \<open>What a provider sees of a send, in order: the fetches of the state, with their results, and the
  transactions submitted. \<open>logs ev\<close>: the reading \<open>ev\<close> of the world is that list.\<close>

datatype rpc_event = Fetched "exn + state_result" | Submitted tx_context

definition logs :: "('w \<Rightarrow> rpc_event list) \<Rightarrow> 'w provider \<Rightarrow> 'w send_opts \<Rightarrow> bool" where
  "logs ev pv opts \<longleftrightarrow> observes ev (\<lambda>ctx l. l @ [Submitted ctx]) (\<lambda>r l. l @ [Fetched r]) pv opts"

fun submissions :: "rpc_event list \<Rightarrow> tx_context list" where
  "submissions [] = []"
| "submissions (Fetched r # es) = submissions es"
| "submissions (Submitted c # es) = c # submissions es"

lemma submissions_append [simp]: "submissions (es @ fs) = submissions es @ submissions fs"
  by (induction es rule: submissions.induct) auto

text \<open>A transaction made from a state: its nonce, and the initial fee for what it quotes.\<close>

definition made_from :: "string \<Rightarrow> state_result \<Rightarrow> tx_context \<Rightarrow> bool" where
  "made_from mode st c \<longleftrightarrow> tx_nonce c = st_nonce st \<and> initial_fee mode (st_fee st) = Inr (tx_fee c)"

text \<open>What may come after the submission of \<open>c\<close>: nothing; or at once a replacement, with the same nonce
  and every fee amount strictly greater; or a fetch of the state, and after it nothing, or a transaction
  made from just that state.\<close>

fun continues :: "string \<Rightarrow> tx_context \<Rightarrow> rpc_event list \<Rightarrow> bool" where
  "continues mode c [] = True"
| "continues mode c (Submitted d # es) =
     (tx_attempt d = tx_attempt c + 1 \<and> tx_nonce d = tx_nonce c \<and> fee_less (tx_fee c) (tx_fee d) \<and>
      continues mode d es)"
| "continues mode c [Fetched r] = True"
| "continues mode c (Fetched r # Submitted d # es) =
     (tx_attempt d = tx_attempt c + 1 \<and> (\<exists>st. r = Inr st \<and> made_from mode st d) \<and> continues mode d es)"
| "continues mode c (Fetched r # Fetched q # es) = False"

text \<open>The events of one send: none, or a fetch, and then nothing or the first transaction, made from the
  state fetched.\<close>

fun send_log :: "string \<Rightarrow> rpc_event list \<Rightarrow> bool" where
  "send_log mode [] = True"
| "send_log mode [Fetched r] = True"
| "send_log mode (Fetched r # Submitted c # es) =
     (tx_attempt c = 1 \<and> (\<exists>st. r = Inr st \<and> made_from mode st c) \<and> continues mode c es)"
| "send_log mode es = False"

lemma continues_numbered:
  "continues mode c es \<Longrightarrow>
     List.map tx_attempt (submissions es) = [tx_attempt c + 1..tx_attempt c + int (length (submissions es))]"
proof (induction mode c es rule: continues.induct)
  case (2 mode c d es)
  then show ?case
    using upto_rec1 [of "tx_attempt c + 1" "tx_attempt c + int (length (submissions (Submitted d # es)))"]
    by (simp add: algebra_simps)
next
  case (4 mode c r d es)
  then show ?case
    using upto_rec1 [of "tx_attempt c + 1" "tx_attempt c + int (length (submissions (Submitted d # es)))"]
    by (simp add: algebra_simps)
qed auto

lemma send_log_numbered:
  assumes "send_log mode es"
  shows "List.map tx_attempt (submissions es) = [1..int (length (submissions es))]"
  using assms
proof (cases "(mode, es)" rule: send_log.cases)
  case (3 mode' r c rest)
  with assms continues_numbered [of mode c rest] show ?thesis
    using upto_rec1 [of 1 "int (length (submissions es))"] by (simp add: algebra_simps)
qed simp_all

definition wei :: "'w provider \<Rightarrow> bool" where
  "wei pv \<longleftrightarrow> (\<forall>v st. fst (pv_fetch_state pv v) = Inr st \<longrightarrow> amounts_nonneg (st_fee st))"

lemma handle_error_next:
  assumes "handle_error pv opts a n f err w = (Inr (n', f'), w')" and "a < so_max_attempts opts"
    and "wei pv" and "fee_ok (so_fee_mode opts) f" and "1 < so_bump_factor opts"
  shows "fee_ok (so_fee_mode opts) f' \<and>
    (if is_nonce_too_low err
     then \<exists>st. drift_fetch pv opts a w = Inr st \<and> n' = st_nonce st \<and> initial_fee (so_fee_mode opts) (st_fee st) = Inr f'
     else n' = n \<and> fee_less f f')"
proof (cases "is_nonce_too_low err")
  case True
  then obtain st where st: "drift_fetch pv opts a w = Inr st"
    and "initial_fee (so_fee_mode opts) (st_fee st) = Inr f'" and "n' = st_nonce st"
    using assms(1,2)
    by (auto simp: handle_error_def refresh_def drift_fetch_def split: sum.splits prod.splits)
  moreover have "amounts_nonneg (st_fee st)" using assms(3) st by (auto simp: wei_def drift_fetch_def)
  ultimately show ?thesis using True by (auto dest: initial_fee_ok)
next
  case False
  then show ?thesis
    using assms bump_fee_ok [OF assms(4,5)]
    by (auto simp: handle_error_def refresh_def Let_def split: sum.splits if_splits)
qed

lemma send_loop_extends:
  assumes "logs ev pv opts" and "send_loop pv opts as n f le w = (r, w')"
  shows "\<exists>new. ev w' = ev w @ new"
  using assms(2)
proof (induction as arbitrary: n f le w)
  case (Cons a as)
  note obs = assms(1) [unfolded logs_def]
  obtain t w1 where t: "try_attempt pv opts n f a w = (t, w1)" by (rule prod.exhaust)
  have 1: "\<exists>new. ev w1 = ev w @ new" using observes_try [OF obs, of n f a w] t by simp
  show ?case
  proof (cases t)
    case (Inl err)
    obtain h w2 where h: "handle_error pv opts a n f err w1 = (h, w2)" by (rule prod.exhaust)
    have 2: "\<exists>new. ev w2 = ev w @ new" using observes_handle [OF obs, of a n f err w1] h 1 by auto
    show ?thesis
    proof (cases "w' = w1 \<or> w' = w2")
      case False
      with Cons.prems t Inl h obtain n' f' where "send_loop pv opts as n' f' (Some err) w2 = (r, w')"
        by (auto split: sum.splits prod.splits if_splits)
      from Cons.IH [OF this] 2 show ?thesis by auto
    qed (use 1 2 in auto)
  qed (use Cons.prems t 1 in auto)
qed simp

lemma send_loop_trace:
  assumes rec: "logs ev pv opts" and wei: "wei pv" and bf: "1 < so_bump_factor opts"
    and m: "m = so_max_attempts opts"
    and "fee_ok (so_fee_mode opts) f" and "a \<le> m" and "send_loop pv opts [a..m] n f le w = (r, w')"
  shows "\<exists>rest. ev w' = ev w @ Submitted \<lparr>tx_nonce = n, tx_fee = f, tx_attempt = a\<rparr> # rest \<and>
    continues (so_fee_mode opts) \<lparr>tx_nonce = n, tx_fee = f, tx_attempt = a\<rparr> rest \<and>
    length (submissions rest) \<le> nat (m - a)"
  using assms(5-7)
proof (induction k \<equiv> "nat (m - a)" arbitrary: a n f le w)
  case (0 a n f le w)
  then have "[a..m] = [a]" by simp
  note obs = rec [unfolded logs_def]
  let ?ctx = "\<lparr>tx_nonce = n, tx_fee = f, tx_attempt = a\<rparr>"
  obtain t w1 where t: "try_attempt pv opts n f a w = (t, w1)" by (rule prod.exhaust)
  have s1: "ev w1 = ev w @ [Submitted ?ctx]" using observes_try [OF obs, of n f a w] t by simp
  show ?case
  proof (cases t)
    case (Inl err)
    obtain h w2 where h: "handle_error pv opts a n f err w1 = (h, w2)" by (rule prod.exhaust)
    have "ev w2 = ev w1 \<or> (\<exists>r. ev w2 = ev w1 @ [Fetched r])"
      using observes_handle [OF obs, of a n f err w1] h by auto
    moreover have "w' = w1 \<or> w' = w2"
      using 0 \<open>[a..m] = [a]\<close> t Inl h by (auto split: sum.splits prod.splits if_splits)
    ultimately show ?thesis using s1 by fastforce
  qed (use 0 \<open>[a..m] = [a]\<close> t s1 in auto)
next
  case (Suc k a n f le w)
  note obs = rec [unfolded logs_def]
  let ?ctx = "\<lparr>tx_nonce = n, tx_fee = f, tx_attempt = a\<rparr>"
  from Suc.hyps(2) have am: "a < m" and k: "k = nat (m - (a + 1))" by auto
  have up: "[a..m] = a # [a + 1..m]" using am by (intro upto_rec1) simp
  obtain t w1 where t: "try_attempt pv opts n f a w = (t, w1)" by (rule prod.exhaust)
  have s1: "ev w1 = ev w @ [Submitted ?ctx]" using observes_try [OF obs, of n f a w] t by simp
  have stop: ?case if "ev w' = ev w1 \<or> (\<exists>r. ev w' = ev w1 @ [Fetched r])" using that s1 by fastforce
  show ?case
  proof (cases "\<exists>err. t = Inl err \<and> \<not> isinstance err TxFailedError")
    case False
    with Suc.prems(3) t have "ev w' = ev w1" by (auto simp: up split: sum.splits if_splits)
    then show ?thesis by (intro stop) simp
  next
    case True
    then obtain err where err: "t = Inl err" "\<not> isinstance err TxFailedError" by auto
    obtain h w2 where h: "handle_error pv opts a n f err w1 = (h, w2)" by (rule prod.exhaust)
    have s2: "ev w2 = (if is_nonce_too_low err then ev w1 @ [Fetched (drift_fetch pv opts a w1)] else ev w1)"
      using observes_handle [OF obs, of a n f err w1] h by simp
    show ?thesis
    proof (cases h)
      case (Inl e)
      with Suc.prems(3) t err h s2 show ?thesis by (intro stop) (auto simp: up split: if_splits)
    next
      case (Inr nf)
      obtain n' f' where nf: "nf = (n', f')" by (rule prod.exhaust)
      let ?d = "\<lparr>tx_nonce = n', tx_fee = f', tx_attempt = a + 1\<rparr>"
      have loop: "send_loop pv opts [a + 1..m] n' f' (Some err) w2 = (r, w')"
        using Suc.prems(3) t err h Inr nf by (simp add: up)
      have "a < so_max_attempts opts" using am by (simp add: m)
      note nx = handle_error_next [OF h [unfolded Inr nf] this wei Suc.prems(1) bf]
      from Suc.hyps(1) [OF k _ _ loop] nx am obtain rest where rest:
        "ev w' = ev w2 @ Submitted ?d # rest" "continues (so_fee_mode opts) ?d rest"
        "length (submissions rest) \<le> nat (m - (a + 1))" by auto
      show ?thesis
      proof (cases "is_nonce_too_low err")
        case True
        with rest s1 s2 nx am show ?thesis
          by (intro exI [of _ "Fetched (drift_fetch pv opts a w1) # Submitted ?d # rest"]) (auto simp: made_from_def)
      next
        case False
        with rest s1 s2 nx am show ?thesis by (intro exI [of _ "Submitted ?d # rest"]) auto
      qed
    qed
  qed
qed

lemma send_with_retry_cases:
  assumes "send_with_retry pv opts w = (r, w')"
  shows "(\<exists>e. r = Inl e \<and> (w' = w \<or> w' = snd (already_submitted opts w) \<or>
       w' = snd (breaker_check opts (snd (already_submitted opts w))) \<or>
       w' = snd (pv_fetch_state pv (snd (breaker_check opts (snd (already_submitted opts w))))))) \<or>
    (\<exists>st f v. 1 < so_bump_factor opts \<and> 1 \<le> so_max_attempts opts \<and>
       fst (already_submitted opts w) = Inr False \<and>
       pv_fetch_state pv (snd (breaker_check opts (snd (already_submitted opts w)))) = (Inr st, v) \<and>
       initial_fee (so_fee_mode opts) (st_fee st) = Inr f \<and>
       send_loop pv opts [1..so_max_attempts opts] (st_nonce st) f None v = (r, w'))"
  using assms
  by (auto simp: send_with_retry_def split: if_splits sum.splits prod.splits bool.splits)

lemma send_loop_success:
  "send_loop pv opts as n f le w = (Inr rc, w') \<Longrightarrow>
     \<exists>n f a v. try_attempt pv opts n f a v = (Inr rc, w')"
proof (induction as arbitrary: n f le w)
  case (Cons a as)
  then show ?case by (auto split: sum.splits prod.splits if_splits)
qed simp

lemma try_attempt_success:
  "try_attempt pv opts n f a v = (Inr rc, w') \<Longrightarrow>
     is_receipt_success rc \<and>
     (\<exists>v1 v2. v1 = snd (pv_monotonic pv v) \<and> submit_and_wait pv opts n f a v1 = (Inr rc, v2) \<and>
        fst (pv_monotonic pv v2) - fst (pv_monotonic pv v) \<le> so_timeout opts)"
  by (auto simp: try_attempt_def with_timeout_def Let_def split: sum.splits prod.splits if_splits)

text \<open>The legacy fee after \<open>k\<close> bumps.\<close>

definition legacy_fee :: "int \<Rightarrow> fee_fields" where
  "legacy_fee g = \<lparr>gas_price = Some g, max_fee = None, max_priority_fee = None\<rparr>"

definition bumped :: "rat \<Rightarrow> int \<Rightarrow> nat \<Rightarrow> int" where
  "bumped factor g k = (bump factor ^^ k) g"

lemma bumped_simps: "bumped factor g 0 = g" "bumped factor (bump factor g) k = bumped factor g (Suc k)"
  by (simp_all add: bumped_def funpow_swap1)

text \<open>A signer that fails with the same transient error on every attempt before the \<open>m\<close>-th.\<close>

definition fails_before :: "'w provider \<Rightarrow> exn \<Rightarrow> int \<Rightarrow> bool" where
  "fails_before pv err m \<longleftrightarrow>
     (\<forall>ctx v. tx_attempt ctx < m \<longrightarrow> fst (pv_sign_send pv ctx v) = Inl err) \<and>
     is_retryable_write err \<and> \<not> is_nonce_too_low err \<and> \<not> isinstance err TxFailedError"

text \<open>Whatever is submitted as attempt \<open>m\<close> is confirmed within the timeout, with the receipt \<open>rc\<close>.\<close>

definition confirms :: "'w provider \<Rightarrow> 'w send_opts \<Rightarrow> int \<Rightarrow> receipt \<Rightarrow> bool" where
  "confirms pv opts m rc \<longleftrightarrow> is_receipt_success rc \<and>
     (\<forall>n f v. fst (with_timeout pv (submit_and_wait pv opts n f m) (so_timeout opts)
        (''attempt '' @ int_str m) v) = Inr rc)"

lemma fails_before_try:
  assumes "fails_before pv err m" and "a < m"
  shows "fst (try_attempt pv opts n f a w) = Inl err"
proof -
  obtain t w1 where 1: "pv_monotonic pv w = (t, w1)" by (rule prod.exhaust)
  let ?ctx = "\<lparr>tx_nonce = n, tx_fee = f, tx_attempt = a\<rparr>"
  obtain r w2 where 2: "pv_sign_send pv ?ctx w1 = (r, w2)" by (rule prod.exhaust)
  have "fst (pv_sign_send pv ?ctx w1) = Inl err" using assms by (simp add: fails_before_def)
  with 1 2 show ?thesis by (simp add: try_attempt_def with_timeout_def submit_and_wait_def)
qed

lemma confirms_try:
  assumes "confirms pv opts m rc"
  shows "fst (try_attempt pv opts n f m w) = Inr rc"
proof -
  obtain r w1 where t: "with_timeout pv (submit_and_wait pv opts n f m) (so_timeout opts)
      (''attempt '' @ int_str m) w = (r, w1)" by (rule prod.exhaust)
  have "r = Inr rc" "is_receipt_success rc" using assms t unfolding confirms_def by (metis fst_conv)+
  with t show ?thesis by (simp add: try_attempt_def)
qed

lemma pow_below: "k < 1024 \<Longrightarrow> int_as_float (2 ^ k) = Inr (2 ^ k)"
proof -
  assume "k < 1024"
  then have "(2::rat) ^ k \<le> 2 ^ 1023" by (intro power_increasing) auto
  with float_limit_pos show ?thesis by (simp add: int_as_float_def)
qed

lemma fails_before_handle:
  assumes "fails_before pv err m" and "so_fee_mode opts = ''legacy''" and "1 \<le> a" and "a < 1025"
    and "a < so_max_attempts opts"
  shows "fst (handle_error pv opts a n (legacy_fee g) err w) =
    Inr (n, legacy_fee (bump (so_bump_factor opts) g))"
  using assms pow_below [of "nat (a - 1)"]
  by (simp add: fails_before_def handle_error_def refresh_def bump_fee_def legacy_fee_def Let_def)

lemma fails_before_last:
  assumes "fails_before pv err m" and "a = so_max_attempts opts"
  shows "fst (handle_error pv opts a n f err w) = Inr (n, f)"
  using assms by (simp add: fails_before_def handle_error_def refresh_def Let_def)

text \<open>The submissions of \<open>k\<close> attempts from attempt \<open>a\<close> on, each at the fee of the one before, bumped.\<close>

definition bumped_txs :: "rat \<Rightarrow> int \<Rightarrow> int \<Rightarrow> int \<Rightarrow> nat \<Rightarrow> tx_context list" where
  "bumped_txs factor n g a k =
     List.map (\<lambda>i. \<lparr>tx_nonce = n, tx_fee = legacy_fee (bumped factor g i), tx_attempt = a + int i\<rparr>) [0..<k]"

lemma bumped_txs_simps:
  "bumped_txs factor n g a 0 = []"
  "bumped_txs factor n g a (Suc k) =
     \<lparr>tx_nonce = n, tx_fee = legacy_fee g, tx_attempt = a\<rparr> # bumped_txs factor n (bump factor g) (a + 1) k"
  unfolding bumped_txs_def map_upt_Suc by (simp_all add: bumped_simps algebra_simps)

lemma bumped_txs_snoc:
  "bumped_txs factor n g a (Suc k) = bumped_txs factor n g a k @
     [\<lparr>tx_nonce = n, tx_fee = legacy_fee (bumped factor g k), tx_attempt = a + int k\<rparr>]"
  by (simp add: bumped_txs_def)

text \<open>The loop gets through \<open>k\<close> transient failures.\<close>

lemma transient_prefix:
  assumes fails: "fails_before pv err m" and rec: "records subs pv opts"
    and opts: "so_fee_mode opts = ''legacy''" "M = so_max_attempts opts"
    and "1 \<le> a" and "a + int k \<le> M" and "a + int k \<le> m" and "a + int k \<le> 1025"
  shows "\<exists>le' w'. send_loop pv opts [a..M] n (legacy_fee g) le w =
      send_loop pv opts [a + int k..M] n (legacy_fee (bumped (so_bump_factor opts) g k)) le' w' \<and>
    subs w' = subs w @ bumped_txs (so_bump_factor opts) n g a k"
  using assms(5-8)
proof (induction k arbitrary: a g le w)
  case 0
  then show ?case by (auto simp: bumped_simps bumped_txs_simps)
next
  case (Suc k)
  let ?f = "so_bump_factor opts"
  have am: "a < m" "a < M" "a < 1025" using Suc.prems by simp_all
  obtain w1 where t: "try_attempt pv opts n (legacy_fee g) a w = (Inl err, w1)"
    using fails_before_try [OF fails am(1)] by (metis prod.collapse)
  obtain w2 where h: "handle_error pv opts a n (legacy_fee g) err w1 = (Inr (n, legacy_fee (bump ?f g)), w2)"
    using fails_before_handle [OF fails opts(1) Suc.prems(1) am(3)] am(2) opts(2) by (metis prod.collapse)
  have up: "[a..M] = a # [a + 1..M]" using Suc.prems by (intro upto_rec1) simp
  have s2: "subs w2 = subs w @ [\<lparr>tx_nonce = n, tx_fee = legacy_fee g, tx_attempt = a\<rparr>]"
    using records_try [OF rec, of n "legacy_fee g" a w] records_handle [OF rec, of a n "legacy_fee g" err w1] t h
    by simp
  have "send_loop pv opts [a..M] n (legacy_fee g) le w =
      send_loop pv opts [a + 1..M] n (legacy_fee (bump ?f g)) (Some err) w2"
    using t h fails by (simp add: up fails_before_def)
  moreover have "a + 1 + int k = a + int (Suc k)" by simp
  ultimately show ?case
    using Suc.IH [of "a + 1" "bump ?f g" "Some err" w2] Suc.prems s2 by (simp add: bumped_simps bumped_txs_simps add.assoc)
qed

lemma send_loop_schedule:
  assumes fails: "fails_before pv err m" and rec: "records subs pv opts"
    and opts: "so_fee_mode opts = ''legacy''" "M = so_max_attempts opts" "M \<le> 1025" and "1 \<le> m" "1 \<le> M"
    and loop: "send_loop pv opts [1..M] n (legacy_fee g) le w = (r, w')"
  shows "M < m \<longrightarrow> (\<exists>msg. r = Inl (retry_exhausted_error msg (Some err))) \<and>
      subs w' = subs w @ bumped_txs (so_bump_factor opts) n g 1 (nat M)"
    and "m \<le> M \<and> confirms pv opts m rc \<longrightarrow> r = Inr rc \<and>
      subs w' = subs w @ bumped_txs (so_bump_factor opts) n g 1 (nat m)"
proof -
  define k where "k = nat (min (m - 1) (M - 1))"
  have k: "1 + int k = min m M" using assms(6,7) by (simp add: k_def)
  let ?g = "bumped (so_bump_factor opts) g k"
  obtain le' v where p: "send_loop pv opts [1..M] n (legacy_fee g) le w = send_loop pv opts [min m M..M] n (legacy_fee ?g) le' v"
    "subs v = subs w @ bumped_txs (so_bump_factor opts) n g 1 k"
    using transient_prefix [OF fails rec opts(1,2), of 1 k n g le w] k min.cobounded2 [of m M] opts(3) by auto
  have up: "[min m M..M] = min m M # [min m M + 1..M]" by (intro upto_rec1) simp
  obtain t v1 where t: "try_attempt pv opts n (legacy_fee ?g) (min m M) v = (t, v1)" by (rule prod.exhaust)
  have s1: "subs v1 = subs w @ bumped_txs (so_bump_factor opts) n g 1 (Suc k)"
    using records_try [OF rec, of n "legacy_fee ?g" "min m M" v] t p(2) k by (simp add: bumped_txs_snoc)
  have n: "Suc k = nat (min m M)" using k by linarith
  show "M < m \<longrightarrow> (\<exists>msg. r = Inl (retry_exhausted_error msg (Some err))) \<and>
      subs w' = subs w @ bumped_txs (so_bump_factor opts) n g 1 (nat M)"
  proof
    assume M: "M < m"
    then have mm: "min m M = M" by simp
    obtain v2 where h: "handle_error pv opts M n (legacy_fee ?g) err v1 = (Inr (n, legacy_fee ?g), v2)"
      using fails_before_last [OF fails opts(2)] by (metis prod.collapse)
    have "t = Inl err" using fails_before_try [OF fails M] t mm by (metis fst_conv)
    moreover have "subs v2 = subs v1" using records_handle [OF rec, of M n "legacy_fee ?g" err v1] h by simp
    ultimately show "(\<exists>msg. r = Inl (retry_exhausted_error msg (Some err))) \<and>
        subs w' = subs w @ bumped_txs (so_bump_factor opts) n g 1 (nat M)"
      using loop p(1) up t h s1 n fails by (auto simp: mm fails_before_def)
  qed
  show "m \<le> M \<and> confirms pv opts m rc \<longrightarrow> r = Inr rc \<and>
      subs w' = subs w @ bumped_txs (so_bump_factor opts) n g 1 (nat m)"
  proof
    assume c: "m \<le> M \<and> confirms pv opts m rc"
    then have mm: "min m M = m" by simp
    have "t = Inr rc" using confirms_try [of pv opts m rc] c t mm by (metis fst_conv)
    then show "r = Inr rc \<and> subs w' = subs w @ bumped_txs (so_bump_factor opts) n g 1 (nat m)"
      using loop p(1) up t s1 n by (simp add: mm)
  qed
qed

subsection \<open>Properties\<close>

text \<open>Settings for the examples: the default options with a sleep that takes no time and a bump factor of
  3/2; a signer whose
  submissions all time out, in a world that lists what was handed to it.\<close>

definition demo_opts :: "int \<Rightarrow> 'w send_opts" where
  "demo_opts max_attempts =
     default_opts (\<lambda>d w. w)\<lparr>so_max_attempts := max_attempts, so_bump_factor := 3 / 2\<rparr>"

definition demo_error :: exn where
  "demo_error = mk_exn RuntimeError ''timeout''"

definition dead_rpc :: "tx_context list provider" where
  "dead_rpc =
     \<lparr>pv_fetch_state = (\<lambda>w. (Inr \<lparr>st_nonce = 7, st_fee = legacy_fee 100\<rparr>, w)),
      pv_sign_send = (\<lambda>ctx w. (Inl demo_error, w @ [ctx])),
      pv_monotonic = (\<lambda>w. (0, w)), pv_float_str = (\<lambda>x. ''120.0'')\<rparr>"

lemma demo_opts_sel [simp]:
  "so_max_attempts (demo_opts n) = n" "so_fee_mode (demo_opts n) = ''legacy''"
  "so_bump_factor (demo_opts n) = 3 / 2" "so_timeout (demo_opts n) = 120"
  "so_backoff_base (demo_opts n) = 1"
  "so_breaker (demo_opts n) = None" "so_idempotency_key (demo_opts n) = None"
  "so_already_sent (demo_opts n) = None"
  "so_logger (demo_opts n) m w = w" "so_sleep (demo_opts n) d w = w"
  by (simp_all add: demo_opts_def default_opts_def)

lemma dead_rpc_records: "records id dead_rpc (demo_opts n)"
  by (simp add: records_def dead_rpc_def ob_failed_def ob_succeeded_def already_submitted_def
      breaker_check_def)

lemma dead_rpc_fails: "fails_before dead_rpc demo_error m"
  by (simp add: fails_before_def dead_rpc_def demo_error_def is_retryable_write_def fatal_phrases_def
      is_nonce_too_low_def nonce_phrases_def py_lower_def py_lower_char_def)

lemma sample_bumps: "bumped (3 / 2) 100 0 = 100" "bumped (3 / 2) 100 (Suc 0) = 151"
  "bumped (3 / 2) 100 2 = 227"
  by (simp_all add: bumped_def bump_def py_round_def numeral_2_eq_2)

text \<open>An example: the signer refuses attempt 1 with a nonce that is too low, and times out from then on;
  the world is the list of events.\<close>

definition drifting_rpc :: "rpc_event list provider" where
  "drifting_rpc =
     \<lparr>pv_fetch_state = (\<lambda>w. let r = Inr \<lparr>st_nonce = (if w = [] then 7 else 9), st_fee = legacy_fee 100\<rparr>
        in (r, w @ [Fetched r])),
      pv_sign_send = (\<lambda>ctx w. (Inl (if tx_attempt ctx = 1 then mk_exn RuntimeError ''nonce too low'' else demo_error),
        w @ [Submitted ctx])),
      pv_monotonic = (\<lambda>w. (0, w)), pv_float_str = (\<lambda>x. ''120.0'')\<rparr>"

lemma drifting_rpc_logs: "logs id drifting_rpc (demo_opts n)"
  by (simp add: logs_def observes_def drifting_rpc_def ob_failed_def ob_succeeded_def already_submitted_def
      breaker_check_def Let_def)

lemma drifting_rpc_wei: "wei drifting_rpc"
  by (simp add: wei_def drifting_rpc_def amounts_nonneg_def legacy_fee_def Let_def)

text \<open>What one send does to the outside.\<close>

lemma send_events:
  assumes "logs ev pv opts" and "wei pv" and "send_with_retry pv opts w = (r, w')"
  shows "\<exists>new. ev w' = ev w @ new \<and> send_log (so_fee_mode opts) new \<and>
    length (submissions new) \<le> nat (so_max_attempts opts)"
proof -
  let ?v = "snd (breaker_check opts (snd (already_submitted opts w)))"
  have base: "ev (snd (already_submitted opts w)) = ev w" "ev ?v = ev w"
      "ev (snd (pv_fetch_state pv ?v)) = ev w @ [Fetched (fst (pv_fetch_state pv ?v))]"
    using assms(1) by (simp_all add: logs_def observes_def)
  from send_with_retry_cases [OF assms(3)] show ?thesis
  proof (elim disjE exE conjE)
    fix st f v
    assume "1 < so_bump_factor opts" and m: "1 \<le> so_max_attempts opts"
      and fetched: "pv_fetch_state pv ?v = (Inr st, v)"
      and fee: "initial_fee (so_fee_mode opts) (st_fee st) = Inr f"
      and loop: "send_loop pv opts [1..so_max_attempts opts] (st_nonce st) f None v = (r, w')"
    have "amounts_nonneg (st_fee st)" using assms(2) fetched unfolding wei_def by (metis fst_conv)
    then have ok: "fee_ok (so_fee_mode opts) f" using fee by (rule initial_fee_ok)
    from send_loop_trace [OF assms(1,2) \<open>1 < so_bump_factor opts\<close> refl ok m loop] obtain rest where
      "ev w' = ev v @ Submitted \<lparr>tx_nonce = st_nonce st, tx_fee = f, tx_attempt = 1\<rparr> # rest"
      "continues (so_fee_mode opts) \<lparr>tx_nonce = st_nonce st, tx_fee = f, tx_attempt = 1\<rparr> rest"
      "length (submissions rest) \<le> nat (so_max_attempts opts - 1)" by blast
    moreover have "ev v = ev w @ [Fetched (Inr st)]" using base(3) fetched by simp
    ultimately show ?thesis
      using fee m by (intro exI [of _ "Fetched (Inr st) # Submitted
        \<lparr>tx_nonce = st_nonce st, tx_fee = f, tx_attempt = 1\<rparr> # rest"]) (auto simp: made_from_def)
  qed (use base in auto)
qed

text \<open>C4: what one send submits, with any provider quoting non-negative fees: at most \<^verbatim>\<open>max_attempts\<close>
  transactions, numbered 1, 2, and so on. The first is made from the state fetched at the start. Each later one either
  follows the one before directly and replaces it (same nonce, every fee amount strictly higher), or
  follows a fetch of the state and is made from the very state that fetch returned, nonce and initial
  fee.\<close>

theorem submission_trace:
  assumes "logs ev pv opts" and "wei pv" and "ev w = []"
    and "send_with_retry pv opts w = (r, w')"
  shows "send_log (so_fee_mode opts) (ev w') \<and>
    length (submissions (ev w')) \<le> nat (so_max_attempts opts) \<and>
    List.map tx_attempt (submissions (ev w')) = [1..int (length (submissions (ev w')))]"
  using send_events [OF assms(1,2,4)] assms(3) send_log_numbered by auto

theorem submission_trace_witness:
  "send_log ''legacy'' (snd (send_with_retry drifting_rpc (demo_opts 3) [])) \<and>
   length (submissions (snd (send_with_retry drifting_rpc (demo_opts 3) []))) \<le> 3"
  using submission_trace [OF drifting_rpc_logs drifting_rpc_wei, of "[]" 3
      "fst (send_with_retry drifting_rpc (demo_opts 3) [])" "snd (send_with_retry drifting_rpc (demo_opts 3) [])"]
  by simp

text \<open>C27: the schedule of a legacy send whose signer fails in a transient way before attempt \<open>m\<close>. If there
  are fewer attempts than that, exactly \<^verbatim>\<open>max_attempts\<close> submissions are made and the send ends in
  \<^verbatim>\<open>RetryExhaustedError\<close> caused by the last error; if attempt \<open>m\<close> is made and confirmed in time, the
  send returns its receipt after exactly \<open>m\<close> submissions. All have the nonce fetched first, the \<open>k\<close>-th
  the fee bumped \<open>k - 1\<close> times. The bound 1025 keeps the backoff's power of two below the float range.\<close>

theorem send_schedule:
  assumes "records subs pv opts" and "fails_before pv err m" and "subs w = []" and "1 \<le> m"
    and "so_fee_mode opts = ''legacy''" and "1 < so_bump_factor opts"
    and "1 \<le> so_max_attempts opts" and "so_max_attempts opts \<le> 1025"
    and "so_idempotency_key opts = None" and "so_breaker opts = None"
    and "pv_fetch_state pv w = (Inr \<lparr>st_nonce = n, st_fee = legacy_fee g\<rparr>, v)"
    and "send_with_retry pv opts w = (r, w')"
  shows "(so_max_attempts opts < m \<longrightarrow>
      (\<exists>msg. r = Inl (retry_exhausted_error msg (Some err))) \<and>
      subs w' = bumped_txs (so_bump_factor opts) n g 1 (nat (so_max_attempts opts))) \<and>
    (m \<le> so_max_attempts opts \<and> confirms pv opts m rc \<longrightarrow>
      r = Inr rc \<and> subs w' = bumped_txs (so_bump_factor opts) n g 1 (nat m))"
proof -
  have loop: "send_loop pv opts [1..so_max_attempts opts] n (legacy_fee g) None v = (r, w')"
    using assms(5-12)
    by (simp add: send_with_retry_def already_submitted_def breaker_check_def initial_fee_def legacy_fee_def)
  have "subs v = []" using assms(1,3,11) unfolding records_def by (metis snd_conv)
  then show ?thesis
    using send_loop_schedule(1) [OF assms(2,1,5) refl assms(8,4,7) loop]
      send_loop_schedule(2) [OF assms(2,1,5) refl assms(8,4,7) loop, of rc] by simp
qed

theorem send_schedule_witness:
  "List.map (\<lambda>c. (tx_nonce c, gas_price (tx_fee c), tx_attempt c))
     (snd (send_with_retry dead_rpc (demo_opts 3) [])) =
   [(7, Some 100, 1), (7, Some 151, 2), (7, Some 227, 3)]"
proof -
  have "pv_fetch_state dead_rpc [] = (Inr \<lparr>st_nonce = 7, st_fee = legacy_fee 100\<rparr>, [])"
    by (simp add: dead_rpc_def)
  from send_schedule [OF dead_rpc_records [of 3] dead_rpc_fails [of 4] _ _ _ _ _ _ _ _ this surjective_pairing]
  have "snd (send_with_retry dead_rpc (demo_opts 3) []) = bumped_txs (3 / 2) 7 100 1 3" by simp
  moreover have "[0..<3] = [0, 1, 2 :: nat]" by (simp add: upt_rec)
  ultimately show ?thesis by (simp add: bumped_txs_def sample_bumps legacy_fee_def)
qed

text \<open>C32: a send is refused before it fetches or submits anything exactly for these reasons, in this
  order, and the error says which: a bump factor that is not above 1 or fewer than one attempt
  (\<^verbatim>\<open>BAD_CONFIG\<close>, with the option named); an idempotency check that fails (its own error) or finds the key
  submitted (\<^verbatim>\<open>ALREADY_SENT\<close>, with the key); a breaker that is open, with no cooldown or one that is not
  over (\<^verbatim>\<open>CIRCUIT_OPEN\<close>, with the number of failures), which is left as it is. Otherwise the state
  is fetched.\<close>

theorem refused_before_submission:
  assumes "logs ev pv opts" and "already_submitted opts w = (a, b, v)"
    and "so_breaker opts = None \<or> so_breaker opts = Some (onchain_ref now)"
    and "send_with_retry pv opts w = (r, w')"
  shows
    "if so_bump_factor opts \<le> 1
     then (r, w') = (Inl (onchain_error ''bump_factor must be > 1'' ''BAD_CONFIG''), w)
     else if so_max_attempts opts < 1
     then (r, w') = (Inl (onchain_error ''max_attempts must be >= 1'' ''BAD_CONFIG''), w)
     else if isl a then r = Inl (projl a) \<and> w' = (b, v) \<and> ev w' = ev w
     else if projr a
     then r = Inl (onchain_error (''idempotent: tx for key '' @ [CHR 0x27] @ the (so_idempotency_key opts) @
            [CHR 0x27] @ '' already submitted'') ''ALREADY_SENT'') \<and> w' = (b, v) \<and> ev w' = ev w
     else if so_breaker opts \<noteq> None \<and>
       (\<exists>t0. ob_opened_at b = Some t0 \<and> (ob_cooldown b \<le> 0 \<or> fst (now v) - t0 < ob_cooldown b))
     then r = Inl (write_error OnchainCircuitOpenError
            (''circuit open after '' @ int_str (ob_failures b) @ '' consecutive failures'') ''CIRCUIT_OPEN'' None) \<and>
          fst w' = b \<and> ev w' = ev w
     else \<exists>q new. ev w' = ev w @ Fetched q # new"
proof -
  let ?c = "breaker_check opts (b, v)"
  have "ev (b, v) = ev (snd (already_submitted opts w))" using assms(2) by simp
  then have bv: "ev (b, v) = ev w" using assms(1) by (simp only: logs_def observes_def)
  then have c: "ev (snd ?c) = ev w" using assms(1) by (simp add: logs_def observes_def)
  have key: "\<exists>k. so_idempotency_key opts = Some k" if "a = Inr True"
    using assms(2) that by (auto simp: already_submitted_def split: option.splits)
  have check: "(fst ?c = Inr () \<longleftrightarrow> \<not> (so_breaker opts \<noteq> None \<and>
       (\<exists>t0. ob_opened_at b = Some t0 \<and> (ob_cooldown b \<le> 0 \<or> fst (now v) - t0 < ob_cooldown b)))) \<and>
     (fst ?c \<noteq> Inr () \<longrightarrow> fst (snd ?c) = b \<and> fst ?c = Inl (write_error OnchainCircuitOpenError
            (''circuit open after '' @ int_str (ob_failures b) @ '' consecutive failures'') ''CIRCUIT_OPEN'' None))"
    using assms(3) by (auto simp: breaker_check_def onchain_ref_def assert_closed_def onchain_circuit_open_def Let_def
        split: option.splits prod.splits if_splits)
  obtain x u where xu: "?c = (x, u)" by (rule prod.exhaust)
  show ?thesis
  proof (cases "1 < so_bump_factor opts \<and> 1 \<le> so_max_attempts opts \<and> a = Inr False \<and> x = Inr ()")
    case False
    with assms(2,4) bv c key check xu show ?thesis
      by (cases a; cases x) (auto simp: send_with_retry_def not_le not_less split: if_splits bool.splits)
  next
    case True
    obtain q u1 where q: "pv_fetch_state pv u = (q, u1)" by (rule prod.exhaust)
    have u1: "ev u1 = ev w @ [Fetched q]"
      using assms(1) q c xu unfolding logs_def observes_def by (metis fst_conv snd_conv)
    have "\<exists>new. ev w' = ev u1 @ new"
    proof (cases "\<exists>st f. q = Inr st \<and> initial_fee (so_fee_mode opts) (st_fee st) = Inr f")
      case False
      with True assms(2,4) xu q have "w' = u1" by (auto simp: send_with_retry_def split: sum.splits)
      then show ?thesis by simp
    next
      case t: True
      then obtain st f where st: "q = Inr st" "initial_fee (so_fee_mode opts) (st_fee st) = Inr f" by blast
      with True assms(2,4) xu q have loop:
        "send_loop pv opts [1..so_max_attempts opts] (st_nonce st) f None u1 = (r, w')"
        by (simp add: send_with_retry_def)
      from send_loop_extends [OF assms(1) loop] show ?thesis .
    qed
    with True u1 check xu show ?thesis by auto
  qed
qed

text \<open>Two examples: a key that was submitted, and a breaker that is open.\<close>

definition guarded_opts :: "(string \<Rightarrow> bool) \<Rightarrow> (onchain_breaker \<times> rpc_event list) send_opts" where
  "guarded_opts sent = demo_opts 3\<lparr>so_idempotency_key := Some ''job-42'', so_already_sent := Some (\<lambda>k w. (Inr (sent k), w)),
     so_breaker := Some (onchain_ref (\<lambda>v. (60, v)))\<rparr>"

definition quiet_rpc :: "(onchain_breaker \<times> rpc_event list) provider" where
  "quiet_rpc =
     \<lparr>pv_fetch_state = (\<lambda>(b, w). let r = Inr \<lparr>st_nonce = 7, st_fee = legacy_fee 100\<rparr> in (r, b, w @ [Fetched r])),
      pv_sign_send = (\<lambda>ctx (b, w). (Inl demo_error, b, w @ [Submitted ctx])),
      pv_monotonic = (\<lambda>w. (0, w)), pv_float_str = (\<lambda>x. ''120.0'')\<rparr>"

definition open_breaker :: onchain_breaker where
  "open_breaker = \<lparr>ob_threshold = 3, ob_cooldown = 30, ob_failures = 3, ob_opened_at = Some 50\<rparr>"

lemma quiet_rpc_logs: "logs snd quiet_rpc (guarded_opts sent)"
  by (auto simp: logs_def observes_def quiet_rpc_def guarded_opts_def ob_failed_def ob_succeeded_def
      already_submitted_def breaker_check_def onchain_ref_def ob_record_failure_def assert_closed_def Let_def
      split: option.splits if_splits)

theorem refused_before_submission_witness:
  "fst (send_with_retry quiet_rpc (guarded_opts (\<lambda>k. k = ''job-42'')) (open_breaker, [])) =
     Inl (onchain_error (''idempotent: tx for key '' @ [CHR 0x27] @ ''job-42'' @ [CHR 0x27] @ '' already submitted'')
       ''ALREADY_SENT'') \<and>
   at_code (exn_attrs (projl (fst (send_with_retry quiet_rpc (guarded_opts (\<lambda>k. False)) (open_breaker, []))))) =
     Some ''CIRCUIT_OPEN'' \<and>
   snd (snd (send_with_retry quiet_rpc (guarded_opts (\<lambda>k. False)) (open_breaker, []))) = []"
proof -
  have a: "already_submitted (guarded_opts sent) (open_breaker, []) = (Inr (sent ''job-42''), open_breaker, [])" for sent
    by (simp add: already_submitted_def guarded_opts_def)
  have b: "so_breaker (guarded_opts sent) = None \<or> so_breaker (guarded_opts sent) = Some (onchain_ref (\<lambda>v. (60, v)))" for sent
    by (simp add: guarded_opts_def)
  note o = guarded_opts_def open_breaker_def write_error_def
  show ?thesis
    using refused_before_submission [OF quiet_rpc_logs a b surjective_pairing, of "\<lambda>k. k = ''job-42''"]
      refused_before_submission [OF quiet_rpc_logs a b surjective_pairing, of "\<lambda>k. False"]
    by (auto simp: o)
qed

text \<open>C31: a send returns only a receipt that reports success and that the wait of one of its
  submissions returned within the timeout.\<close>

theorem send_returns_success:
  assumes "send_with_retry pv opts w = (Inr rc, w')"
  shows "is_receipt_success rc \<and>
    (\<exists>n f a v v1 v2. v1 = snd (pv_monotonic pv v) \<and> submit_and_wait pv opts n f a v1 = (Inr rc, v2) \<and>
       fst (pv_monotonic pv v2) - fst (pv_monotonic pv v) \<le> so_timeout opts)"
proof -
  from send_with_retry_cases [OF assms] obtain as n f v where
    "send_loop pv opts as n f None v = (Inr rc, w')" by auto
  from send_loop_success [OF this] obtain n f a v where "try_attempt pv opts n f a v = (Inr rc, w')"
    by blast
  from try_attempt_success [OF this] show ?thesis by blast
qed

text \<open>A chain: it executes a transaction with its next nonce, refuses a lower one, quotes the fees
  \<open>quote\<close>, and answers a wait after \<open>delay\<close> seconds, which depends on the attempt. \<open>str\<close> writes floats.\<close>

record chain =
  ch_next :: int
  ch_executed :: "tx_context list"
  ch_time :: rat

definition mined :: receipt where
  "mined = \<lparr>rc_status = SInt 1, rc_hash = Some ''0xok''\<rparr>"

definition chain_provider :: "fee_fields \<Rightarrow> (rat \<Rightarrow> string) \<Rightarrow> (int \<Rightarrow> rat) \<Rightarrow> chain provider" where
  "chain_provider quote str delay =
     \<lparr>pv_fetch_state = (\<lambda>w. (Inr \<lparr>st_nonce = ch_next w, st_fee = quote\<rparr>, w)),
      pv_sign_send =
        (\<lambda>ctx w. if tx_nonce ctx < ch_next w then (Inl (mk_exn RuntimeError ''nonce too low''), w)
          else (Inr \<lparr>sr_hash = ''0x'',
                     sr_wait = (\<lambda>v. (Inr mined, v\<lparr>ch_time := ch_time v + delay (tx_attempt ctx)\<rparr>))\<rparr>,
                w\<lparr>ch_next := ch_next w + 1, ch_executed := ch_executed w @ [ctx]\<rparr>)),
      pv_monotonic = (\<lambda>w. (ch_time w, w)), pv_float_str = str\<rparr>"

definition genesis :: chain where
  "genesis = \<lparr>ch_next = 7, ch_executed = [], ch_time = 0\<rparr>"

theorem send_returns_success_witness:
  "is_receipt_success mined \<and>
   fst (send_with_retry (chain_provider (legacy_fee 100) (\<lambda>t. ''120.0'') (\<lambda>a. 1)) (demo_opts 5) genesis) = Inr mined"
proof -
  obtain w' where run: "send_with_retry (chain_provider (legacy_fee 100) (\<lambda>t. ''120.0'') (\<lambda>a. 1)) (demo_opts 5) genesis = (Inr mined, w')"
    by (simp add: send_with_retry_def already_submitted_def breaker_check_def chain_provider_def genesis_def
        initial_fee_def legacy_fee_def upto_rec1 try_attempt_def with_timeout_def submit_and_wait_def
        is_receipt_success_def mined_def ob_succeeded_def)
  from send_returns_success [OF run] run show ?thesis by simp
qed

text \<open>The message of a timeout is classified as transient, whatever the float in it: every phrase searched
  for has an \<^verbatim>\<open>n\<close>, and the message has none.\<close>

definition float_text :: "string \<Rightarrow> bool" where
  "float_text t \<longleftrightarrow> set t \<subseteq> set ''0123456789.e+-''"

lemma timeout_transient:
  assumes "float_text t"
  defines "late \<equiv> onchain_error ((''attempt '' @ int_str 1) @ '' exceeded timeout of '' @ t @ ''s'') ''TIMEOUT''"
  shows "\<not> is_nonce_too_low late" "is_retryable_write late" "\<not> isinstance late TxFailedError"
proof -
  have "CHR ''n'' \<notin> set (py_lower (int_str 1))" by code_simp
  moreover have "CHR ''n'' \<notin> set (py_lower t)"
  proof -
    have "list_all (\<lambda>c. py_lower_char c \<noteq> CHR ''n'') ''0123456789.e+-''" by code_simp
    with assms(1) show ?thesis by (auto simp: float_text_def py_lower_def list_all_iff)
  qed
  moreover have "CHR ''n'' \<notin> set (py_lower ''attempt '')" "CHR ''n'' \<notin> set (py_lower '' exceeded timeout of '')"
    "CHR ''n'' \<notin> set (py_lower ''s'')" by code_simp+
  ultimately have n: "CHR ''n'' \<notin> set (py_lower (exn_str late))"
    by (auto simp: late_def onchain_error_def write_error_def py_lower_def)
  have "CHR ''n'' \<in> set p" if "p \<in> set (nonce_phrases @ fatal_phrases)" for p
    using that by (auto simp: nonce_phrases_def fatal_phrases_def)
  with n occurs_in_set show "\<not> is_nonce_too_low late" "is_retryable_write late"
    unfolding is_nonce_too_low_def is_retryable_write_def by fastforce+
  show "\<not> isinstance late TxFailedError" by (simp add: late_def onchain_error_def write_error_def)
qed

lemma initial_fee_bumps: "initial_fee mode base = Inr f \<Longrightarrow> \<exists>f'. bump_fee mode f factor = Inr f'"
  by (auto simp: initial_fee_def bump_fee_def split: if_splits option.splits)

text \<open>C37: one send can execute twice. On any chain, with any options that allow three attempts and use no
  breaker or idempotency key: if attempt 1 is mined but its receipt comes after the timeout, and that of attempt 3
  would come in time, the replacement with the same nonce is refused as \<^verbatim>\<open>nonce too low\<close>, which the
  client takes for a drifted nonce: it fetches the next one and submits the same write again, and that
  is executed too. The caller sees one success.\<close>

theorem timeout_after_mining_sends_twice:
  assumes "so_timeout opts < delay 1" and "delay 3 \<le> so_timeout opts" and "3 \<le> so_max_attempts opts"
    and "1 < so_bump_factor opts" and "initial_fee (so_fee_mode opts) quote = Inr fee"
    and "so_idempotency_key opts = None" and "so_breaker opts = None"
    and "\<forall>m w. so_logger opts m w = w" and "\<forall>d w. so_sleep opts d w = w\<lparr>ch_time := ch_time w + d\<rparr>"
    and "float_text (str (so_timeout opts))"
  shows "\<exists>w'. send_with_retry (chain_provider quote str delay) opts w = (Inr mined, w') \<and>
     ch_executed w' = ch_executed w @
       [\<lparr>tx_nonce = ch_next w, tx_fee = fee, tx_attempt = 1\<rparr>, \<lparr>tx_nonce = ch_next w + 1, tx_fee = fee, tx_attempt = 3\<rparr>]"
proof -
  let ?pv = "chain_provider quote str delay"
  let ?n = "ch_next w"
  let ?late = "onchain_error ((''attempt '' @ int_str 1) @ '' exceeded timeout of '' @ str (so_timeout opts) @ ''s'') ''TIMEOUT''"
  let ?low = "mk_exn RuntimeError ''nonce too low''"
  have late: "\<not> is_nonce_too_low ?late" "is_retryable_write ?late" "\<not> isinstance ?late TxFailedError"
    by (rule timeout_transient [OF assms(10)])+
  have low: "is_nonce_too_low ?low"
    by (simp add: is_nonce_too_low_def nonce_phrases_def py_lower_def py_lower_char_def)
  obtain fee' where fee': "bump_fee (so_fee_mode opts) fee (so_bump_factor opts) = Inr fee'"
    using initial_fee_bumps [OF assms(5)] by blast
  let ?c1 = "\<lparr>tx_nonce = ?n, tx_fee = fee, tx_attempt = 1\<rparr>"
  let ?w1 = "\<lparr>ch_next = ?n + 1, ch_executed = ch_executed w @ [?c1], ch_time = ch_time w + delay 1, \<dots> = chain.more w\<rparr>"
  let ?w2 = "?w1\<lparr>ch_time := ch_time ?w1 + so_backoff_base opts\<rparr>"
  let ?w3 = "?w2\<lparr>ch_time := ch_time ?w2 + so_backoff_base opts\<rparr>"
  note simps = try_attempt_def with_timeout_def submit_and_wait_def chain_provider_def assms(8)
  have t1: "try_attempt ?pv opts ?n fee 1 w = (Inl ?late, ?w1)"
    using assms(1) by (simp add: simps)
  have h1: "handle_error ?pv opts 1 ?n fee ?late ?w1 = (Inr (?n, fee'), ?w2)"
    using late pow_below [of 0] assms(3,7,8,9) fee' by (simp add: handle_error_def refresh_def ob_failed_def)
  have t2: "try_attempt ?pv opts ?n fee' 2 ?w2 = (Inl ?low, ?w2)"
    by (simp add: simps)
  have h2: "handle_error ?pv opts 2 ?n fee' ?low ?w2 = (Inr (?n + 1, fee), ?w3)"
    using low assms(3,5,8,9) by (simp add: handle_error_def refresh_def chain_provider_def)
  have t3: "\<exists>w'. try_attempt ?pv opts (?n + 1) fee 3 ?w3 = (Inr mined, w') \<and>
      ch_executed w' = ch_executed w @ [?c1, \<lparr>tx_nonce = ?n + 1, tx_fee = fee, tx_attempt = 3\<rparr>]"
    using assms(2,7) by (simp add: simps is_receipt_success_def mined_def ob_succeeded_def)
  have up: "[1..so_max_attempts opts] = 1 # 2 # 3 # [4..so_max_attempts opts]"
    using assms(3) upto_rec1 [of 1 "so_max_attempts opts"] upto_rec1 [of 2 "so_max_attempts opts"]
      upto_rec1 [of 3 "so_max_attempts opts"] by simp
  have fetched: "pv_fetch_state ?pv w = (Inr \<lparr>st_nonce = ?n, st_fee = quote\<rparr>, w)"
    by (simp add: chain_provider_def)
  have "send_with_retry ?pv opts w = send_loop ?pv opts (1 # 2 # 3 # [4..so_max_attempts opts]) ?n fee None w"
    using assms(3-7) by (simp add: send_with_retry_def already_submitted_def breaker_check_def fetched up
        del: send_loop.simps)
  with t1 h1 t2 h2 t3 late show ?thesis by auto
qed

text \<open>The chain at its start, the default timeout of 120 seconds, and a first receipt after 200.\<close>

theorem timeout_after_mining_sends_twice_witness:
  "\<exists>w'. send_with_retry (chain_provider (legacy_fee 100) (\<lambda>t. ''120.0'') (\<lambda>a. if a = 1 then 200 else 1))
       (default_opts (\<lambda>d w. w\<lparr>ch_time := ch_time w + d\<rparr>)) genesis = (Inr mined, w') \<and>
     List.map tx_nonce (ch_executed w') = [7, 8]"
proof -
  have fee: "initial_fee ''legacy'' (legacy_fee 100) = Inr (legacy_fee 100)"
    by (simp add: initial_fee_def legacy_fee_def)
  show ?thesis
    using timeout_after_mining_sends_twice [of "default_opts (\<lambda>d w. w\<lparr>ch_time := ch_time w + d\<rparr>)"
        "\<lambda>a. if a = 1 then 200 else 1" "legacy_fee 100" "legacy_fee 100" "\<lambda>t. ''120.0''" genesis] fee
    by (auto simp: default_opts_def float_text_def genesis_def)
qed

lemma five_attempts: "[1..5] = [1, 2, 3, 4, 5 :: int]"
  by (simp add: upto_rec1)

text \<open>The client does not stop on \<^verbatim>\<open>KeyboardInterrupt\<close>: raised inside an attempt, it is caught as
  any error, counted as transient, and the write is submitted again.\<close>

theorem interrupt_is_retried:
  "let pv = dead_rpc\<lparr>pv_sign_send := (\<lambda>ctx w.
         (if tx_attempt ctx = 1 then Inl (mk_exn KeyboardInterrupt [])
          else Inr \<lparr>sr_hash = ''0x'', sr_wait = (\<lambda>v. (Inr mined, v))\<rparr>, w @ [ctx]))\<rparr>
   in fst (send_with_retry pv (demo_opts 5) []) = Inr mined \<and>
      length (snd (send_with_retry pv (demo_opts 5) [])) = 2"
  by (simp add: send_with_retry_def already_submitted_def breaker_check_def dead_rpc_def five_attempts
      initial_fee_def legacy_fee_def try_attempt_def with_timeout_def submit_and_wait_def
      handle_error_def refresh_def is_nonce_too_low_def is_retryable_write_def nonce_phrases_def
      fatal_phrases_def py_lower_def ob_failed_def ob_succeeded_def bump_fee_def pow_below [of 0, simplified]
      is_receipt_success_def mined_def Let_def)

text \<open>The off-chain breaker: any run of failures that reaches the threshold shuts it, for the
  cooldown counted from the last of them; with a cooldown of 0 (the default) it stays shut however
  late it is asked.\<close>

theorem onchain_breaker_opens:
  assumes "ob_inv b" and "ob_threshold b \<le> ob_failures b + int (length ts)" and "ts \<noteq> []"
    and "ob_cooldown b \<le> 0 \<or> t' < last ts + ob_cooldown b"
  shows "fst (is_open fake_clock (fold ob_fail_at ts b) t')"
proof (cases "t' < last ts + ob_cooldown b")
  case True
  from chain.opens_after_burst [OF assms(1-3) True] show ?thesis by (simp add: ob_admits_at_def)
next
  case False
  have cool: "ob_cooldown (fold ob_fail_at ts b) = ob_cooldown b" by (rule chain.holdoff_fail_many)
  have "ob_threshold b \<le> ob_failures (fold ob_fail_at ts b)"
    using assms(1,2) by (rule chain.fails_reach)
  then have "ob_opened_at (fold ob_fail_at ts b) \<noteq> None"
    using chain.inv_fail_many [OF assms(1), of ts] chain.limit_fail_many [of ts b]
    by (auto simp: ob_inv_def)
  then have "\<not> ob_admits_at t' (fold ob_fail_at ts b)"
    using False assms(4) cool by (auto simp: ob_admits_at_iff)
  then show ?thesis by (simp add: ob_admits_at_def)
qed

end
