(* ===== verification/Verification_Gate.thy ===== *)
theory Verification_Gate
  imports Py_String "HOL-Library.Multiset"
begin

section \<open>The verification gate\<close>

text \<open>
  Models \<^verbatim>\<open>python/src/cubiczan_resilience/verification_gate.py\<close>: the gate object a report
  carries, its two renderings, and \<^verbatim>\<open>build_gate\<close>, the confidence arithmetic. Violations are
  strings (\<^verbatim>\<open>str(v)\<close> of a string is the string).
\<close>

definition CLEAR :: string where "CLEAR = ''CLEAR''"

definition REQUIRES_HUMAN_VERIFICATION :: string where
  "REQUIRES_HUMAN_VERIFICATION = ''REQUIRES_HUMAN_VERIFICATION''"

definition PENALTY_PER_VIOLATION :: int where "PENALTY_PER_VIOLATION = 12"

definition CONFIDENCE_FLOOR :: int where "CONFIDENCE_FLOOR = 50"

definition SEVERITY_FLOOR :: string where "SEVERITY_FLOOR = ''floor''"

lemmas gate_constants = CLEAR_def REQUIRES_HUMAN_VERIFICATION_def PENALTY_PER_VIOLATION_def
  CONFIDENCE_FLOOR_def SEVERITY_FLOOR_def

record verification_gate =
  vg_status :: string
  vg_confidence :: int
  vg_violations :: "string list"

definition is_clear :: "verification_gate \<Rightarrow> bool" where
  "is_clear g = (vg_status g = CLEAR)"

text \<open>The values of the dictionary that \<^verbatim>\<open>to_dict\<close> returns, in insertion order.\<close>

datatype gate_value = GStr string | GInt int | GList "string list"

definition gate_to_dict :: "verification_gate \<Rightarrow> (string \<times> gate_value) list" where
  "gate_to_dict g =
     [(''status'', GStr (vg_status g)), (''confidence'', GInt (vg_confidence g)),
      (''violations'', GList (vg_violations g))]"

definition blocking_issues_lines :: "verification_gate \<Rightarrow> string list" where
  "blocking_issues_lines g =
     (if vg_violations g = [] then [] else List.map (\<lambda>item. ''- '' @ item) (vg_violations g))"

definition build_gate :: "string list \<Rightarrow> string option \<Rightarrow> exn + verification_gate" where
  "build_gate violations hint =
     (if hint \<noteq> None \<and> hint \<noteq> Some SEVERITY_FLOOR
      then Inl (mk_exn ValueError (''unknown severity_hint '' @ py_repr (the hint) @
             '': the only supported value is SEVERITY_FLOOR ('' @ py_repr SEVERITY_FLOOR @ '') or None''))
      else
        (let cleaned = List.filter (\<lambda>v. py_strip v \<noteq> []) violations in
         if cleaned = []
         then Inr \<lparr>vg_status = CLEAR, vg_confidence = 100, vg_violations = []\<rparr>
         else
           (let confidence =
              (if hint = Some SEVERITY_FLOOR then CONFIDENCE_FLOOR
               else max CONFIDENCE_FLOOR (100 - PENALTY_PER_VIOLATION * int (length cleaned))) in
            Inr \<lparr>vg_status = REQUIRES_HUMAN_VERIFICATION, vg_confidence = confidence,
                 vg_violations = cleaned\<rparr>)))"

subsection \<open>What the gate says\<close>

text \<open>A violation counts when it is not blank.\<close>

definition substantive :: "string \<Rightarrow> bool" where
  "substantive v \<longleftrightarrow> (\<exists>c \<in> set v. \<not> is_space c)"

lemma py_strip_substantive: "(py_strip v \<noteq> []) = substantive v"
  by (auto simp: py_strip_empty substantive_def)

definition penalty_score :: "nat \<Rightarrow> int" where
  "penalty_score n = (if n = 0 then 100 else max CONFIDENCE_FLOOR (100 - PENALTY_PER_VIOLATION * int n))"

lemma penalty_score_bounds: "50 \<le> penalty_score n" "penalty_score n \<le> 100"
  "penalty_score n = 100 \<longleftrightarrow> n = 0" "n \<le> m \<Longrightarrow> penalty_score m \<le> penalty_score n"
  by (auto simp: penalty_score_def gate_constants)

lemma build_gate_confidence:
  "build_gate vs hint = Inr g \<Longrightarrow>
     vg_violations g = List.filter substantive vs \<and>
     vg_confidence g = (if hint = None \<or> vg_violations g = [] then penalty_score (length (vg_violations g))
       else CONFIDENCE_FLOOR)"
  by (auto simp: build_gate_def Let_def py_strip_substantive penalty_score_def split: if_splits)

lemma build_gate_status:
  "build_gate vs hint = Inr g \<Longrightarrow>
     vg_status g = (if vg_violations g = [] then CLEAR else REQUIRES_HUMAN_VERIFICATION)"
  by (auto simp: build_gate_def Let_def split: if_splits)

lemma build_gate_accepts:
  "(\<exists>g. build_gate vs hint = Inr g) \<longleftrightarrow> hint \<in> {None, Some SEVERITY_FLOOR}"
  by (auto simp: build_gate_def Let_def)

subsection \<open>Properties\<close>

text \<open>C28: the status, the confidence and the evidence of a gate always agree: the violations are
  exactly the non-blank ones, in order and verbatim; \<^verbatim>\<open>CLEAR\<close>, confidence 100 and an empty list of
  violations each mean the other two; any other gate requires a human, with a confidence between 50
  and 88, and its rendered block has one line per violation.\<close>

theorem gate_verdict:
  assumes "build_gate vs hint = Inr g"
  shows "vg_violations g = List.filter substantive vs \<and>
     (is_clear g \<longleftrightarrow> vg_confidence g = 100) \<and>
     (is_clear g \<longleftrightarrow> (\<forall>v \<in> set vs. \<not> substantive v)) \<and>
     (\<not> is_clear g \<longrightarrow> vg_status g = REQUIRES_HUMAN_VERIFICATION \<and>
        50 \<le> vg_confidence g \<and> vg_confidence g \<le> 88) \<and>
     blocking_issues_lines g = List.map ((@) ''- '') (List.filter substantive vs)"
proof -
  note c = build_gate_confidence [OF assms] and s = build_gate_status [OF assms]
  have clear: "is_clear g \<longleftrightarrow> vg_violations g = []"
    using s by (auto simp: is_clear_def gate_constants)
  have "penalty_score (length (vg_violations g)) \<le> 88" if "vg_violations g \<noteq> []"
  proof -
    from that have "1 \<le> length (vg_violations g)" by (cases "vg_violations g") auto
    from penalty_score_bounds(4) [OF this] show ?thesis by (simp add: penalty_score_def gate_constants)
  qed
  with c s show ?thesis
    unfolding clear
    by (auto simp: filter_empty_conv blocking_issues_lines_def penalty_score_bounds gate_constants)
qed

theorem gate_verdict_witness:
  "\<exists>g. build_gate [''row 7 missing source_url'', '' ''] None = Inr g \<and> vg_confidence g = 88 \<and>
     \<not> is_clear g \<and> blocking_issues_lines g = [''- row 7 missing source_url'']"
proof -
  have s: "substantive ''row 7 missing source_url'' \<and> \<not> substantive '' ''" by code_simp
  have g: "build_gate [''row 7 missing source_url'', '' ''] None =
      Inr \<lparr>vg_status = REQUIRES_HUMAN_VERIFICATION, vg_confidence = 88,
        vg_violations = [''row 7 missing source_url'']\<rparr>"
    using s by (simp add: build_gate_def py_strip_substantive gate_constants)
  from gate_verdict [OF this] s g show ?thesis by simp
qed

text \<open>Confidence is a function of how many substantive violations there are: two reports with the
  same violations in any order score the same, more violations never score higher, and pinning with
  the severity hint never raises the score; any other hint is refused whatever the violations.\<close>

theorem gate_confidence_antitone:
  assumes "build_gate vs hint = Inr g" and "build_gate ws hint = Inr h" and "mset vs \<subseteq># mset ws"
  shows "vg_confidence h \<le> vg_confidence g \<and>
     (mset vs = mset ws \<longrightarrow> vg_confidence h = vg_confidence g) \<and>
     (\<exists>p. build_gate ws (Some SEVERITY_FLOOR) = Inr p \<and> vg_confidence p \<le> vg_confidence h) \<and>
     hint \<in> {None, Some SEVERITY_FLOOR}"
proof -
  note c = build_gate_confidence [OF assms(1)] build_gate_confidence [OF assms(2)]
  have sub: "mset (List.filter substantive vs) \<subseteq># mset (List.filter substantive ws)"
    using multiset_filter_mono [OF assms(3)] by simp
  from size_mset_mono [OF this]
  have le: "length (vg_violations g) \<le> length (vg_violations h)"
    using c by (simp only: size_mset)
  have eq: "length (vg_violations g) = length (vg_violations h)" if "mset vs = mset ws"
    using that c by (metis mset_filter size_mset)
  have hint: "hint \<in> {None, Some SEVERITY_FLOOR}" using build_gate_accepts assms(1) by blast
  obtain p where p: "build_gate ws (Some SEVERITY_FLOOR) = Inr p"
    using build_gate_accepts [of ws "Some SEVERITY_FLOOR"] by auto
  have "vg_confidence p \<le> vg_confidence h"
    using build_gate_confidence [OF p] c(2) penalty_score_bounds(1) by (auto simp: CONFIDENCE_FLOOR_def)
  moreover have "vg_confidence h \<le> vg_confidence g"
    using c le penalty_score_bounds(1,4) by (auto simp: CONFIDENCE_FLOOR_def)
  moreover have "vg_confidence h = vg_confidence g" if "mset vs = mset ws"
  proof -
    from eq [OF that] have "(vg_violations g = []) = (vg_violations h = [])" by (metis length_0_conv)
    with eq [OF that] c show ?thesis by auto
  qed
  ultimately show ?thesis using p hint by auto
qed

end
