(* ===== verification/Fastapi_Helpers.thy ===== *)
theory Fastapi_Helpers
  imports Py_String
begin

section \<open>Fail-closed request authentication and CORS\<close>

text \<open>
  Models \<^verbatim>\<open>python/src/cubiczan_resilience/fastapi_helpers.py\<close>. FastAPI is not part of the
  sources: the credentials its \<^verbatim>\<open>HTTPBearer\<close> scheme extracts are an argument of the dependency,
  and its \<^verbatim>\<open>HTTPException\<close> is a constructor with the status, the detail and the headers the
  code gives it. The environment at request time is a map.
\<close>

record credentials =
  cr_scheme :: string
  cr_token :: string

datatype request_error =
    Http_exception int string "(string \<times> string) list"
  | Type_error string
  | Value_error string

type_synonym environ = "string \<rightharpoonup> string"

text \<open>\<^verbatim>\<open>hmac.compare_digest\<close> of the standard library on two strings: it refuses a string with a
  character outside ASCII.\<close>

definition is_ascii :: "string \<Rightarrow> bool" where
  "is_ascii s = list_all (\<lambda>c. (of_char c :: nat) < 128) s"

definition compare_digest :: "string \<Rightarrow> string \<Rightarrow> request_error + bool" where
  "compare_digest a b =
     (if is_ascii a \<and> is_ascii b then Inr (a = b)
      else Inl (Type_error ''comparing strings with non-ASCII characters is not supported''))"

definition unauthorized :: "string \<Rightarrow> request_error" where
  "unauthorized detail = Http_exception 401 detail [(''WWW-Authenticate'', ''Bearer'')]"

text \<open>The inner function \<^verbatim>\<open>dependency\<close> of \<^verbatim>\<open>require_auth\<close>.\<close>

definition require_auth :: "string \<Rightarrow> environ \<Rightarrow> credentials option \<Rightarrow> request_error + string" where
  "require_auth env_var environ credentials =
     (let expected = (case environ env_var of None \<Rightarrow> [] | Some v \<Rightarrow> v) in
      if expected = [] then Inl (Http_exception 503 ''authentication is not configured'' [])
      else
        (case credentials of
           None \<Rightarrow> Inl (unauthorized ''missing bearer credentials'')
         | Some c \<Rightarrow>
             if py_lower (cr_scheme c) \<noteq> ''bearer''
             then Inl (unauthorized ''missing bearer credentials'')
             else
               (case compare_digest (cr_token c) expected of
                  Inl e \<Rightarrow> Inl e
                | Inr same \<Rightarrow>
                    if \<not> same then Inl (unauthorized ''invalid token'') else Inr (cr_token c))))"

record cors_kwargs =
  allow_origins :: "string list"
  allow_creds :: bool
  allow_methods :: "string list"
  allow_headers :: "string list"

definition cors_allowlist ::
  "string list \<Rightarrow> bool \<Rightarrow> string list option \<Rightarrow> string list option \<Rightarrow> request_error + cors_kwargs" where
  "cors_allowlist origins creds methods headers =
     (if creds \<and> List.member origins ''*''
      then Inl (Value_error (''refusing wildcard origin '' @ [CHR 0x27] @ ''*'' @ [CHR 0x27] @
             '' with allow_credentials=True; list explicit origins instead''))
      else Inr \<lparr>allow_origins = origins, allow_creds = creds,
                allow_methods = (case methods of None \<Rightarrow> [''*''] | Some ms \<Rightarrow> ms),
                allow_headers = (case headers of None \<Rightarrow> [''*''] | Some hs \<Rightarrow> hs)\<rparr>)"

subsection \<open>Who gets in\<close>

definition configured :: "environ \<Rightarrow> string \<Rightarrow> string \<Rightarrow> bool" where
  "configured environ var expected \<longleftrightarrow> environ var = Some expected \<and> expected \<noteq> []"

definition bearer_token :: "credentials option \<Rightarrow> string \<Rightarrow> bool" where
  "bearer_token creds token \<longleftrightarrow>
     (\<exists>c. creds = Some c \<and> py_lower (cr_scheme c) = ''bearer'' \<and> cr_token c = token)"

lemma not_configured:
  "(\<nexists>s. configured environ var s) \<Longrightarrow>
     require_auth var environ creds = Inl (Http_exception 503 ''authentication is not configured'' [])"
  by (auto simp: require_auth_def configured_def split: option.splits)

lemma no_bearer:
  "configured environ var s \<Longrightarrow> (\<nexists>t. bearer_token creds t) \<Longrightarrow>
     require_auth var environ creds = Inl (unauthorized ''missing bearer credentials'')"
  by (auto simp: require_auth_def configured_def bearer_token_def split: option.splits)

lemma bearer_compared:
  "configured environ var s \<Longrightarrow> bearer_token creds t \<Longrightarrow>
     require_auth var environ creds =
       (if is_ascii t \<and> is_ascii s then if t = s then Inr t else Inl (unauthorized ''invalid token'')
        else Inl (Type_error ''comparing strings with non-ASCII characters is not supported''))"
  by (auto simp: require_auth_def configured_def bearer_token_def compare_digest_def)

text \<open>C29: authentication fails closed, on every branch. A request passes exactly when a non-empty
  secret is configured and a bearer token equal to it (and ASCII) is presented; without a secret every
  request gets 503; with one, every other request gets 401 with a \<^verbatim>\<open>WWW-Authenticate\<close> header,
  except when the token or the secret has a character outside ASCII: then \<^verbatim>\<open>compare_digest\<close>
  raises \<^verbatim>\<open>TypeError\<close>, an internal error instead of the documented 401.\<close>

theorem auth_outcomes:
  "(require_auth var environ creds = Inr t \<longleftrightarrow>
      configured environ var t \<and> bearer_token creds t \<and> is_ascii t) \<and>
   (require_auth var environ creds = Inl (Http_exception 503 ''authentication is not configured'' []) \<longleftrightarrow>
      (\<nexists>s. configured environ var s)) \<and>
   ((\<exists>d. require_auth var environ creds = Inl (unauthorized d)) \<longleftrightarrow>
      (\<exists>s. configured environ var s \<and>
         ((\<nexists>u. bearer_token creds u) \<or>
          (\<exists>u. bearer_token creds u \<and> is_ascii u \<and> is_ascii s \<and> u \<noteq> s)))) \<and>
   ((\<exists>d. require_auth var environ creds = Inl (Type_error d)) \<longleftrightarrow>
      (\<exists>s u. configured environ var s \<and> bearer_token creds u \<and> (\<not> is_ascii u \<or> \<not> is_ascii s)))"
proof -
  consider (off) "\<nexists>s. configured environ var s"
    | (anon) s where "configured environ var s" "\<nexists>u. bearer_token creds u"
    | (token) s u where "configured environ var s" "bearer_token creds u" by blast
  then show ?thesis
  proof cases
    case off
    with not_configured [OF off, of creds] show ?thesis by (auto simp: unauthorized_def)
  next
    case anon
    with no_bearer [OF anon] show ?thesis by (auto simp: unauthorized_def)
  next
    case token
    have uniq: "configured environ var s' \<longleftrightarrow> s' = s" "bearer_token creds u' \<longleftrightarrow> u' = u" for s' u'
      using token by (auto simp: configured_def bearer_token_def)
    show ?thesis
      unfolding bearer_compared [OF token] uniq by (auto simp: unauthorized_def)
  qed
qed

text \<open>An example: the right token, and one with a character outside ASCII.\<close>

theorem auth_outcomes_witness:
  "require_auth ''KEY'' [''KEY'' \<mapsto> ''s3cret''] (Some \<lparr>cr_scheme = ''Bearer'', cr_token = ''s3cret''\<rparr>) = Inr ''s3cret'' \<and>
   (\<exists>d. require_auth ''KEY'' [''KEY'' \<mapsto> ''s3cret''] (Some \<lparr>cr_scheme = ''Bearer'', cr_token = [CHR 0xE9]\<rparr>) =
     Inl (Type_error d))"
proof
  have low: "py_lower ''Bearer'' = ''bearer''" by code_simp
  have b: "bearer_token (Some \<lparr>cr_scheme = ''Bearer'', cr_token = t\<rparr>) t" for t
    by (simp add: bearer_token_def low)
  have a: "is_ascii ''s3cret''" "\<not> is_ascii [CHR 0xE9]" by code_simp+
  have c: "configured [''KEY'' \<mapsto> ''s3cret''] ''KEY'' ''s3cret''"
    by (simp add: configured_def)
  show "require_auth ''KEY'' [''KEY'' \<mapsto> ''s3cret''] (Some \<lparr>cr_scheme = ''Bearer'', cr_token = ''s3cret''\<rparr>) = Inr ''s3cret''"
    by (rule iffD2 [OF conjunct1 [OF auth_outcomes]]) (intro conjI a b c)
  show "\<exists>d. require_auth ''KEY'' [''KEY'' \<mapsto> ''s3cret''] (Some \<lparr>cr_scheme = ''Bearer'', cr_token = [CHR 0xE9]\<rparr>) =
     Inl (Type_error d)"
    by (rule iffD2 [OF conjunct2 [OF conjunct2 [OF conjunct2 [OF auth_outcomes]]]])
      (rule exI [of _ "''s3cret''"], rule exI [of _ "[CHR 0xE9]"], intro conjI disjI1 a b c)
qed

text \<open>The generated CORS settings never combine a wildcard origin with credentials: the call is
  refused exactly then, and otherwise the origins and the credentials flag pass unchanged.\<close>

lemma cors_never_wildcard_with_credentials:
  "(case cors_allowlist origins creds methods headers of
      Inl e \<Rightarrow> creds \<and> ''*'' \<in> set origins
    | Inr k \<Rightarrow> \<not> (allow_creds k \<and> ''*'' \<in> set (allow_origins k)) \<and>
        allow_origins k = origins \<and> allow_creds k = creds)"
  by (simp add: cors_allowlist_def)

end
