(* ===== verification/Json.thy ===== *)
theory Json
  imports Py_String "HOL-Library.List_Lexorder" "HOL-Library.Char_ord"
begin

section \<open>The JSON of the standard library, as the sources call it\<close>

text \<open>
  \<^verbatim>\<open>json.dumps\<close> in the two forms the sources use (the default one, and sorted keys with compact
  separators) and \<^verbatim>\<open>json.loads\<close>.

  \<^item> A dictionary is an association list in insertion order; its keys are strings or integers.
  \<^item> A float is the text of its \<^verbatim>\<open>repr\<close>. Reading a float and printing it again is an argument
    \<open>fl\<close> of the reader (it maps a number token to the \<^verbatim>\<open>repr\<close> of the float it denotes).
  \<^item> \<open>JOther\<close> is an object \<^verbatim>\<open>json\<close> cannot serialise.
  \<^item> Strings have code points below 256; an escape that denotes a larger one is outside the model,
    and the reader says so with an error of its own (\<open>Beyond_model\<close>).
  \<^item> The reader recurses with fuel; twice the length of its input is enough
    (\<open>json_parse_total\<close> in \<^verbatim>\<open>Json_Reader\<close>).
\<close>

datatype pykey = KInt int | KStr string

text \<open>Python compares two strings, or two integers; the order between the kinds is never used
  (sorting a dictionary with both raises \<^verbatim>\<open>TypeError\<close>).\<close>

instantiation pykey :: linorder
begin

fun less_eq_pykey :: "pykey \<Rightarrow> pykey \<Rightarrow> bool" where
  "less_eq_pykey (KInt i) (KInt j) = (i \<le> j)"
| "less_eq_pykey (KInt i) (KStr t) = True"
| "less_eq_pykey (KStr s) (KInt j) = False"
| "less_eq_pykey (KStr s) (KStr t) = (s \<le> t)"

definition less_pykey :: "pykey \<Rightarrow> pykey \<Rightarrow> bool" where
  "less_pykey x y = (x \<le> y \<and> \<not> y \<le> x)"

instance
proof
  fix x y z :: pykey
  show "(x < y) = (x \<le> y \<and> \<not> y \<le> x)" by (simp add: less_pykey_def)
  show "x \<le> x" by (cases x) auto
  show "x \<le> y \<Longrightarrow> y \<le> z \<Longrightarrow> x \<le> z" by (cases x; cases y; cases z) auto
  show "x \<le> y \<Longrightarrow> y \<le> x \<Longrightarrow> x = y" by (cases x; cases y) auto
  show "x \<le> y \<or> y \<le> x" by (cases x; cases y) auto
qed

end

datatype json =
    JNull | JBool bool | JInt int | JFloat string | JStr string
  | JList "json list" | JObj "(pykey \<times> json) list" | JOther

subsection \<open>Dictionaries\<close>

definition dict_get :: "('k \<times> 'v) list \<Rightarrow> 'k \<Rightarrow> 'v option" where
  "dict_get d k = map_of d k"

definition dict_set :: "('k \<times> 'v) list \<Rightarrow> 'k \<Rightarrow> 'v \<Rightarrow> ('k \<times> 'v) list" where
  "dict_set d k v =
     (if k \<in> set (List.map fst d) then List.map (\<lambda>(j, u). (j, if j = k then v else u)) d
      else d @ [(k, v)])"

lemma dict_update_keys: "List.map fst (List.map (\<lambda>(j, u). (j, if j = k then v else u)) d) = List.map fst d"
  by (induction d) auto

lemma dict_update_get:
  "map_of (List.map (\<lambda>(j, u). (j, if j = k then v else u)) d) j =
     (if j = k \<and> map_of d k \<noteq> None then Some v else map_of d j)"
  by (induction d) auto

lemma dict_get_set [simp]: "dict_get (dict_set d k v) j = (if j = k then Some v else dict_get d j)"
proof (cases "k \<in> set (List.map fst d)")
  case True
  then have "map_of d k \<noteq> None" by (simp only: map_of_eq_None_iff) simp
  with True show ?thesis by (simp add: dict_get_def dict_set_def dict_update_get del: not_None_eq)
next
  case False
  then have "map_of d k = None" by (simp only: map_of_eq_None_iff) simp
  with False show ?thesis by (simp add: dict_get_def dict_set_def map_add_def split: option.split)
qed

lemma dict_set_keys: "distinct (List.map fst d) \<Longrightarrow> distinct (List.map fst (dict_set d k v))"
  by (cases "k \<in> set (List.map fst d)") (simp_all only: dict_set_def if_True if_False dict_update_keys, simp)

lemma dict_set_new: "k \<notin> set (List.map fst d) \<Longrightarrow> dict_set d k v = d @ [(k, v)]"
  by (simp add: dict_set_def)

subsection \<open>Printing\<close>

record json_format =
  jf_item :: string
  jf_key :: string
  jf_sort :: bool

definition default_format :: json_format where
  "default_format = \<lparr>jf_item = '', '', jf_key = '': '', jf_sort = False\<rparr>"

definition compact_format :: json_format where
  "compact_format = \<lparr>jf_item = '','', jf_key = '':'', jf_sort = True\<rparr>"

text \<open>\<^verbatim>\<open>ensure_ascii\<close>: everything but the printable ASCII characters is escaped.\<close>

definition esc_char :: "char \<Rightarrow> string" where
  "esc_char c =
     (let n = (of_char c :: nat) in
      if n = 34 then [CHR 0x5C, CHR 0x22]
      else if n = 92 then [CHR 0x5C, CHR 0x5C]
      else if n = 10 then [CHR 0x5C, CHR ''n'']
      else if n = 13 then [CHR 0x5C, CHR ''r'']
      else if n = 9 then [CHR 0x5C, CHR ''t'']
      else if n = 12 then [CHR 0x5C, CHR ''f'']
      else if n = 8 then [CHR 0x5C, CHR ''b'']
      else if 32 \<le> n \<and> n \<le> 126 then [c]
      else [CHR 0x5C, CHR ''u'', CHR ''0'', CHR ''0'', hex_digit (n div 16), hex_digit (n mod 16)])"

definition json_string :: "string \<Rightarrow> string" where
  "json_string s = CHR 0x22 # concat (List.map esc_char s) @ [CHR 0x22]"

definition key_str :: "pykey \<Rightarrow> string" where
  "key_str k = (case k of KInt i \<Rightarrow> int_str i | KStr s \<Rightarrow> s)"

definition in_order :: "json_format \<Rightarrow> (pykey \<times> 'a) list \<Rightarrow> (pykey \<times> 'a) list" where
  "in_order f d = (if jf_sort f then sort_key fst d else d)"

definition member_text :: "json_format \<Rightarrow> pykey \<times> string \<Rightarrow> string" where
  "member_text f m = json_string (key_str (fst m)) @ jf_key f @ snd m"

fun json_text :: "json_format \<Rightarrow> json \<Rightarrow> string" where
  "json_text f JNull = ''null''"
| "json_text f (JBool b) = (if b then ''true'' else ''false'')"
| "json_text f (JInt i) = int_str i"
| "json_text f (JFloat t) = t"
| "json_text f (JStr s) = json_string s"
| "json_text f (JList vs) =
     CHR ''['' # py_join (jf_item f) (List.map (json_text f) vs) @ [CHR '']'']"
| "json_text f (JObj d) =
     CHR ''{'' #
     py_join (jf_item f)
       (List.map (member_text f) (in_order f (List.map (\<lambda>(k, v). (k, json_text f v)) d))) @ [CHR ''}'']"
| "json_text f JOther = []"

text \<open>\<^verbatim>\<open>dumps\<close> raises \<^verbatim>\<open>TypeError\<close> on an object it cannot serialise, and when it has to
  sort keys of both kinds.\<close>

definition is_kint :: "pykey \<Rightarrow> bool" where
  "is_kint k = (case k of KInt _ \<Rightarrow> True | KStr _ \<Rightarrow> False)"

definition comparable :: "pykey list \<Rightarrow> bool" where
  "comparable ks = (list_all is_kint ks \<or> list_all (Not \<circ> is_kint) ks)"

fun serialisable :: "json_format \<Rightarrow> json \<Rightarrow> bool" where
  "serialisable f (JList vs) = list_all (serialisable f) vs"
| "serialisable f (JObj d) =
     ((jf_sort f \<longrightarrow> comparable (List.map fst d)) \<and> list_all (\<lambda>(k, v). serialisable f v) d)"
| "serialisable f JOther = False"
| "serialisable f v = True"

definition json_dumps :: "json_format \<Rightarrow> json \<Rightarrow> exn + string" where
  "json_dumps f v =
     (if serialisable f v then Inr (json_text f v)
      else Inl (mk_exn TypeError ''not JSON serializable''))"

subsection \<open>Reading\<close>

datatype json_error = Bad_json | Beyond_model | Out_of_fuel

definition is_ws :: "char \<Rightarrow> bool" where
  "is_ws c = (let n = (of_char c :: nat) in n = 32 \<or> n = 9 \<or> n = 10 \<or> n = 13)"

definition skip_ws :: "string \<Rightarrow> string" where
  "skip_ws s = dropWhile is_ws s"

definition hex_val :: "char \<Rightarrow> nat option" where
  "hex_val c =
     (let n = (of_char c :: nat) in
      if 48 \<le> n \<and> n \<le> 57 then Some (n - 48)
      else if 97 \<le> n \<and> n \<le> 102 then Some (n - 87)
      else if 65 \<le> n \<and> n \<le> 70 then Some (n - 55)
      else None)"

definition hex4 :: "char \<Rightarrow> char \<Rightarrow> char \<Rightarrow> char \<Rightarrow> nat option" where
  "hex4 a b c d =
     (case (hex_val a, hex_val b, hex_val c, hex_val d) of
        (Some w, Some x, Some y, Some z) \<Rightarrow> Some (4096 * w + 256 * x + 16 * y + z)
      | _ \<Rightarrow> None)"

definition unescape :: "char \<Rightarrow> char option" where
  "unescape c =
     (if c = CHR 0x22 \<or> c = CHR 0x5C \<or> c = CHR ''/'' then Some c
      else if c = CHR ''n'' then Some (CHR 0x0A)
      else if c = CHR ''r'' then Some (CHR 0x0D)
      else if c = CHR ''t'' then Some (CHR 0x09)
      else if c = CHR ''f'' then Some (CHR 0x0C)
      else if c = CHR ''b'' then Some (CHR 0x08)
      else None)"

definition put_char :: "char \<Rightarrow> json_error + string \<times> string \<Rightarrow> json_error + string \<times> string" where
  "put_char c r = (case r of Inl e \<Rightarrow> Inl e | Inr (s, rest) \<Rightarrow> Inr (c # s, rest))"

text \<open>The rest of a string after its opening quote.\<close>

fun scan_string :: "string \<Rightarrow> json_error + string \<times> string" where
  "scan_string [] = Inl Bad_json"
| "scan_string (c # cs) =
     (if c = CHR 0x22 then Inr ([], cs)
      else if c = CHR 0x5C then
        (case cs of
           [] \<Rightarrow> Inl Bad_json
         | e # r \<Rightarrow>
             if e = CHR ''u'' then
               (case r of
                  w # x # y # z # r' \<Rightarrow>
                    (case hex4 w x y z of
                       None \<Rightarrow> Inl Bad_json
                     | Some n \<Rightarrow>
                         if n < 256 then put_char (char_of n) (scan_string r') else Inl Beyond_model)
                | _ \<Rightarrow> Inl Bad_json)
             else
               (case unescape e of
                  None \<Rightarrow> Inl Bad_json
                | Some d \<Rightarrow> put_char d (scan_string r)))
      else if (of_char c :: nat) < 32 then Inl Bad_json
      else put_char c (scan_string cs))"

text \<open>A number: an optional sign, an integer part, an optional fraction and an optional exponent;
  the token, whether it is a float, and what follows.\<close>

definition scan_sign :: "string \<Rightarrow> string \<times> string" where
  "scan_sign s = (case s of c # r \<Rightarrow> if c = CHR ''-'' then ([c], r) else ([], s) | [] \<Rightarrow> ([], s))"

definition scan_int :: "string \<Rightarrow> string \<times> string" where
  "scan_int s =
     (case s of
        c # r \<Rightarrow>
          if c = CHR ''0'' then ([c], r) else (takeWhile is_digit s, dropWhile is_digit s)
      | [] \<Rightarrow> ([], []))"

definition scan_frac :: "string \<Rightarrow> string \<times> string" where
  "scan_frac s =
     (case s of
        c # r \<Rightarrow>
          if c = CHR ''.'' \<and> takeWhile is_digit r \<noteq> []
          then (c # takeWhile is_digit r, dropWhile is_digit r) else ([], s)
      | [] \<Rightarrow> ([], []))"

definition exp_sign :: "string \<Rightarrow> string \<times> string" where
  "exp_sign s =
     (case s of c # r \<Rightarrow> if c = CHR ''-'' \<or> c = CHR ''+'' then ([c], r) else ([], s) | [] \<Rightarrow> ([], s))"

definition scan_exp :: "string \<Rightarrow> string \<times> string" where
  "scan_exp s =
     (case s of
        c # r \<Rightarrow>
          (case exp_sign r of
             (sg, q) \<Rightarrow>
               if (c = CHR ''e'' \<or> c = CHR ''E'') \<and> takeWhile is_digit q \<noteq> []
               then (c # sg @ takeWhile is_digit q, dropWhile is_digit q) else ([], s))
      | [] \<Rightarrow> ([], []))"

definition scan_number :: "string \<Rightarrow> (string \<times> bool \<times> string) option" where
  "scan_number s =
     (case scan_sign s of
        (sg, s1) \<Rightarrow>
          (case scan_int s1 of
             (i, s2) \<Rightarrow>
               if i = [] then None
               else (case scan_frac s2 of
                       (fr, s3) \<Rightarrow>
                         (case scan_exp s3 of
                            (ex, s4) \<Rightarrow> Some (sg @ i @ fr @ ex, fr \<noteq> [] \<or> ex \<noteq> [], s4)))))"

definition digits_val :: "string \<Rightarrow> nat" where
  "digits_val s = foldl (\<lambda>a c. 10 * a + ((of_char c :: nat) - 48)) 0 s"

definition int_val :: "string \<Rightarrow> int" where
  "int_val s =
     (case s of c # r \<Rightarrow> if c = CHR ''-'' then - int (digits_val r) else int (digits_val s) | [] \<Rightarrow> 0)"

text \<open>Numbers and constants.\<close>

definition scan_atom :: "(string \<Rightarrow> string) \<Rightarrow> string \<Rightarrow> json_error + json \<times> string" where
  "scan_atom fl s =
     (if starts_with ''null'' s then Inr (JNull, drop 4 s)
      else if starts_with ''true'' s then Inr (JBool True, drop 4 s)
      else if starts_with ''false'' s then Inr (JBool False, drop 5 s)
      else
        (case scan_number s of
           Some (t, is_float, r) \<Rightarrow> Inr (if is_float then JFloat (fl t) else JInt (int_val t), r)
         | None \<Rightarrow>
             if starts_with ''NaN'' s then Inr (JFloat ''NaN'', drop 3 s)
             else if starts_with ''Infinity'' s then Inr (JFloat ''Infinity'', drop 8 s)
             else if starts_with ''-Infinity'' s then Inr (JFloat ''-Infinity'', drop 9 s)
             else Inl Bad_json))"

fun json_value :: "(string \<Rightarrow> string) \<Rightarrow> nat \<Rightarrow> string \<Rightarrow> json_error + json \<times> string"
and json_items ::
  "(string \<Rightarrow> string) \<Rightarrow> nat \<Rightarrow> json list \<Rightarrow> string \<Rightarrow> json_error + json \<times> string"
and json_members ::
  "(string \<Rightarrow> string) \<Rightarrow> nat \<Rightarrow> (pykey \<times> json) list \<Rightarrow> string \<Rightarrow> json_error + json \<times> string"
where
  "json_value fl 0 s = Inl Out_of_fuel"
| "json_value fl (Suc n) s =
     (case s of
        [] \<Rightarrow> Inl Bad_json
      | c # cs \<Rightarrow>
          if c = CHR 0x22 then
            (case scan_string cs of Inl e \<Rightarrow> Inl e | Inr (t, r) \<Rightarrow> Inr (JStr t, r))
          else if c = CHR ''['' then
            (if starts_with '']'' (skip_ws cs) then Inr (JList [], tl (skip_ws cs))
             else json_items fl n [] (skip_ws cs))
          else if c = CHR ''{'' then
            (if starts_with ''}'' (skip_ws cs) then Inr (JObj [], tl (skip_ws cs))
             else json_members fl n [] (skip_ws cs))
          else scan_atom fl s)"
| "json_items fl 0 acc s = Inl Out_of_fuel"
| "json_items fl (Suc n) acc s =
     (case json_value fl n s of
        Inl e \<Rightarrow> Inl e
      | Inr (v, r) \<Rightarrow>
          (case skip_ws r of
             [] \<Rightarrow> Inl Bad_json
           | c # r' \<Rightarrow>
               if c = CHR '']'' then Inr (JList (acc @ [v]), r')
               else if c = CHR '','' then json_items fl n (acc @ [v]) (skip_ws r')
               else Inl Bad_json))"
| "json_members fl 0 acc s = Inl Out_of_fuel"
| "json_members fl (Suc n) acc s =
     (case s of
        [] \<Rightarrow> Inl Bad_json
      | q # cs \<Rightarrow>
          if q \<noteq> CHR 0x22 then Inl Bad_json
          else
            (case scan_string cs of
               Inl e \<Rightarrow> Inl e
             | Inr (k, r) \<Rightarrow>
                 (case skip_ws r of
                    [] \<Rightarrow> Inl Bad_json
                  | c # r1 \<Rightarrow>
                      if c \<noteq> CHR '':'' then Inl Bad_json
                      else
                        (case json_value fl n (skip_ws r1) of
                           Inl e \<Rightarrow> Inl e
                         | Inr (v, r2) \<Rightarrow>
                             (case skip_ws r2 of
                                [] \<Rightarrow> Inl Bad_json
                              | d # r3 \<Rightarrow>
                                  if d = CHR ''}'' then Inr (JObj (dict_set acc (KStr k) v), r3)
                                  else if d = CHR '','' then
                                    json_members fl n (dict_set acc (KStr k) v) (skip_ws r3)
                                  else Inl Bad_json)))))"

definition json_parse :: "(string \<Rightarrow> string) \<Rightarrow> string \<Rightarrow> json_error + json" where
  "json_parse fl s =
     (case json_value fl (Suc (2 * length s)) (skip_ws s) of
        Inl e \<Rightarrow> Inl e
      | Inr (v, r) \<Rightarrow> if skip_ws r = [] then Inr v else Inl Bad_json)"

definition beyond_model :: exn where
  "beyond_model = mk_exn (UserClass ''beyond the model'') ''code point above 255''"

definition json_loads :: "(string \<Rightarrow> string) \<Rightarrow> string \<Rightarrow> exn + json" where
  "json_loads fl s =
     (case json_parse fl s of
        Inr v \<Rightarrow> Inr v
      | Inl Beyond_model \<Rightarrow> Inl beyond_model
      | Inl _ \<Rightarrow> Inl (mk_exn JSONDecodeError ''Expecting value''))"

end
