(* ===== verification/Json_Roundtrip.thy ===== *)
theory Json_Roundtrip
  imports Json
begin

section \<open>Reading back what was printed\<close>

text \<open>
  The reader inverts the printer: strings, numbers, then values by induction; \<open>loaded\<close> is the value
  that comes back (integer keys become strings, and sorted keys stay sorted). Then what the reader
  can return, and that its fuel is never exhausted.
\<close>

subsection \<open>Strings\<close>

lemma literal_digits: "is_digit (CHR ''0'')" "\<not> is_digit (CHR ''-'')" "digit_char 0 = CHR ''0''"
  by code_simp+

lemma hex_val_digit: "d < 16 \<Longrightarrow> hex_val (hex_digit d) = Some d"
  by (auto simp: hex_val_def hex_digit_def)

lemma hex4_escape: "n < 256 \<Longrightarrow> hex4 (CHR ''0'') (CHR ''0'') (hex_digit (n div 16)) (hex_digit (n mod 16)) = Some n"
proof -
  assume "n < 256"
  then have "hex_val (hex_digit (n div 16)) = Some (n div 16)" "hex_val (hex_digit (n mod 16)) = Some (n mod 16)"
    by (auto intro!: hex_val_digit)
  moreover have "hex_val (CHR ''0'') = Some 0" by code_simp
  ultimately show ?thesis by (simp add: hex4_def)
qed

lemma char_eqI: "of_char c = (of_char d :: nat) \<Longrightarrow> c = d"
  by simp

lemma of_char_lt: "(of_char c :: nat) < 256"
  by (metis char_of_mod_256 mod_less_divisor of_char_of of_char_mod_256 zero_less_numeral)

lemma scan_esc_char: "scan_string (esc_char c @ t) = put_char c (scan_string t)"
proof -
  let ?n = "of_char c :: nat"
  consider "?n = 34" | "?n = 92" | "?n = 10" | "?n = 13" | "?n = 9" | "?n = 12" | "?n = 8"
    | (plain) "?n \<notin> {34, 92, 10, 13, 9, 12, 8}" "32 \<le> ?n" "?n \<le> 126"
    | (hex) "?n \<notin> {34, 92, 10, 13, 9, 12, 8}" "\<not> (32 \<le> ?n \<and> ?n \<le> 126)" by auto
  then show ?thesis
  proof cases
    case 1 then have "c = CHR 0x22" by (intro char_eqI) simp
    with 1 show ?thesis by (simp add: esc_char_def unescape_def)
  next
    case 2 then have "c = CHR 0x5C" by (intro char_eqI) simp
    with 2 show ?thesis by (simp add: esc_char_def unescape_def)
  next
    case 3 then have "c = CHR 0x0A" by (intro char_eqI) simp
    with 3 show ?thesis by (simp add: esc_char_def unescape_def)
  next
    case 4 then have "c = CHR 0x0D" by (intro char_eqI) simp
    with 4 show ?thesis by (simp add: esc_char_def unescape_def)
  next
    case 5 then have "c = CHR 0x09" by (intro char_eqI) simp
    with 5 show ?thesis by (simp add: esc_char_def unescape_def)
  next
    case 6 then have "c = CHR 0x0C" by (intro char_eqI) simp
    with 6 show ?thesis by (simp add: esc_char_def unescape_def)
  next
    case 7 then have "c = CHR 0x08" by (intro char_eqI) simp
    with 7 show ?thesis by (simp add: esc_char_def unescape_def)
  next
    case plain
    then have "c \<noteq> CHR 0x22" "c \<noteq> CHR 0x5C" by auto
    with plain show ?thesis by (simp add: esc_char_def)
  next
    case hex
    with hex4_escape [OF of_char_lt [of c]] of_char_lt [of c] show ?thesis
      by (auto simp: esc_char_def Let_def)
  qed
qed

lemma scan_json_string: "scan_string (concat (List.map esc_char s) @ CHR 0x22 # r) = Inr (s, r)"
proof (induction s)
  case (Cons c s)
  then show ?case by (simp only: list.map concat.simps append_assoc scan_esc_char) (simp add: put_char_def)
qed simp

definition printable :: "char \<Rightarrow> bool" where
  "printable c \<longleftrightarrow> 32 \<le> (of_char c :: nat) \<and> (of_char c :: nat) \<le> 126"

lemma printable_hex: "d < 16 \<Longrightarrow> printable (hex_digit d)"
  by (auto simp: printable_def hex_digit_def)

lemma printable_esc: "c \<in> set (esc_char d) \<Longrightarrow> printable c"
proof -
  have "of_char d div 16 < (16 :: nat)" using of_char_lt [of d] by (simp add: less_mult_imp_div_less)
  then have "printable (hex_digit (of_char d div 16))" "printable (hex_digit (of_char d mod 16))"
    by (auto intro!: printable_hex)
  then show "c \<in> set (esc_char d) \<Longrightarrow> printable c"
    by (auto simp: esc_char_def Let_def printable_def split: if_splits)
qed

lemma printable_json_string: "c \<in> set (json_string s) \<Longrightarrow> printable c"
  using printable_esc by (auto simp: json_string_def printable_def)

subsection \<open>Numbers\<close>

text \<open>What may follow a number without being read as part of it.\<close>

definition number_char :: "char \<Rightarrow> bool" where
  "number_char c \<longleftrightarrow> is_digit c \<or> c = CHR ''.'' \<or> c = CHR ''e'' \<or> c = CHR ''E'' \<or> c = CHR ''+'' \<or> c = CHR ''-''"

definition stops :: "string \<Rightarrow> bool" where
  "stops s \<longleftrightarrow> s = [] \<or> \<not> number_char (hd s)"

lemma stops_simps [simp]: "stops []" "stops (CHR '','' # s)" "stops (CHR '']'' # s)" "stops (CHR ''}'' # s)"
  by (simp_all add: stops_def number_char_def is_digit_def)

lemma take_digits_stop:
  "stops r \<Longrightarrow> takeWhile is_digit (s @ r) = takeWhile is_digit s"
  "stops r \<Longrightarrow> dropWhile is_digit (s @ r) = dropWhile is_digit s @ r"
proof -
  assume r: "stops r"
  have "takeWhile is_digit r = []" "dropWhile is_digit r = r"
    using r by (cases r; auto simp: stops_def number_char_def)+
  then show "takeWhile is_digit (s @ r) = takeWhile is_digit s"
    "dropWhile is_digit (s @ r) = dropWhile is_digit s @ r"
    by (induction s) auto
qed

lemma exp_sign_stop: "stops r \<Longrightarrow> exp_sign (s @ r) = (fst (exp_sign s), snd (exp_sign s) @ r)"
  by (cases s; cases r) (auto simp: exp_sign_def stops_def number_char_def)

lemma scan_exp_stop: "stops r \<Longrightarrow> scan_exp (s @ r) = (fst (scan_exp s), snd (scan_exp s) @ r)"
proof (cases s)
  case Nil
  assume "stops r"
  with Nil show ?thesis by (cases r) (auto simp: scan_exp_def stops_def number_char_def split: prod.splits)
next
  case (Cons c q)
  assume r: "stops r"
  obtain sg p where "exp_sign q = (sg, p)" by (rule prod.exhaust)
  with Cons r exp_sign_stop [OF r, of q] take_digits_stop [OF r, of p] show ?thesis
    by (simp add: scan_exp_def)
qed

lemma scan_frac_stop: "stops r \<Longrightarrow> scan_frac (s @ r) = (fst (scan_frac s), snd (scan_frac s) @ r)"
proof (cases s)
  case Nil
  assume "stops r"
  with Nil show ?thesis by (cases r) (auto simp: scan_frac_def stops_def number_char_def)
next
  case (Cons c q)
  assume "stops r"
  with Cons take_digits_stop [OF this, of q] show ?thesis by (simp add: scan_frac_def)
qed

lemma scan_int_stop: "stops r \<Longrightarrow> scan_int (s @ r) = (fst (scan_int s), snd (scan_int s) @ r)"
proof (cases s)
  case Nil
  assume r: "stops r"
  have "CHR ''0'' = hd r \<Longrightarrow> r \<noteq> [] \<Longrightarrow> False"
    using r literal_digits(1) by (metis stops_def number_char_def)
  with Nil take_digits_stop [OF r, of "[]"] show ?thesis by (cases r) (auto simp: scan_int_def)
next
  case (Cons c q)
  assume "stops r"
  with Cons take_digits_stop [OF this, of "c # q"] show ?thesis by (simp add: scan_int_def)
qed

lemma scan_sign_stop: "stops r \<Longrightarrow> scan_sign (s @ r) = (fst (scan_sign s), snd (scan_sign s) @ r)"
  by (cases s; cases r) (auto simp: scan_sign_def stops_def number_char_def)

lemma scan_number_stop:
  assumes "stops r"
  shows "scan_number (s @ r) = map_option (\<lambda>(t, b, q). (t, b, q @ r)) (scan_number s)"
  by (simp add: scan_number_def scan_sign_stop [OF assms] scan_int_stop [OF assms]
      scan_frac_stop [OF assms] scan_exp_stop [OF assms] split: prod.splits)

text \<open>The \<^verbatim>\<open>repr\<close> of a float: a float token, or one of the three special values as \<^verbatim>\<open>json\<close> prints
  them.\<close>

definition float_token :: "string \<Rightarrow> bool" where
  "float_token t \<longleftrightarrow> scan_number t = Some (t, True, []) \<or>
     t = ''NaN'' \<or> t = ''Infinity'' \<or> t = ''-Infinity''"

text \<open>Integers.\<close>

lemma digits_val_snoc: "digits_val (s @ [c]) = 10 * digits_val s + (of_char c - 48)"
  by (simp add: digits_val_def)

lemma digits_val_nat_str: "digits_val (nat_str n) = n"
proof (induction n rule: nat_str.induct)
  case (1 n)
  show ?case
  proof (cases "n < 10")
    case True
    then show ?thesis by (subst nat_str.simps) (simp add: digits_val_def of_char_digit)
  next
    case False
    then have "nat_str n = nat_str (n div 10) @ [digit_char (n mod 10)]" by (subst nat_str.simps) simp
    with False 1 show ?thesis by (simp add: digits_val_snoc of_char_digit)
  qed
qed

lemma nat_str_no_sign: "nat_str n \<noteq> CHR ''-'' # s"
  using nat_str_digits [of n] literal_digits(2) by (metis list.set_intros(1))

lemma int_val_int_str: "int_val (int_str i) = i"
proof -
  have "int_val (nat_str n) = int n" for n
    using nat_str_no_sign [of n] nat_str_nonempty [of n] digits_val_nat_str [of n]
    by (auto simp: int_val_def split: list.splits)
  then show ?thesis by (simp add: int_str_def int_val_def digits_val_nat_str)
qed

lemma nat_str_hd: "hd (nat_str n) = CHR ''0'' \<Longrightarrow> nat_str n = ''0''"
proof (induction n rule: nat_str.induct)
  case (1 n)
  show ?case
  proof (cases "n < 10")
    case True
    with 1 have "digit_char n = CHR ''0''" by (simp add: nat_str.simps [of n])
    then have "of_char (digit_char n) = (48 :: nat)" by simp
    with True have "n = 0" by (simp add: of_char_digit)
    then show ?thesis by (simp add: nat_str.simps [of 0] literal_digits)
  next
    case False
    then have n: "nat_str n = nat_str (n div 10) @ [digit_char (n mod 10)]" by (subst nat_str.simps) simp
    with 1 have "hd (nat_str (n div 10)) = CHR ''0''" by (simp add: hd_append)
    with 1 False have "nat_str (n div 10) = ''0''" by simp
    with digits_val_nat_str [of "n div 10"] False show ?thesis by (simp add: digits_val_def)
  qed
qed

lemma scan_int_nat: "scan_int (nat_str n) = (nat_str n, [])"
proof -
  have d: "takeWhile is_digit (nat_str n) = nat_str n" "dropWhile is_digit (nat_str n) = []"
    using nat_str_digits [of n] by (simp_all add: takeWhile_eq_all_conv dropWhile_eq_Nil_conv)
  show ?thesis
  proof (cases "nat_str n")
    case (Cons c s)
    then have "c = CHR ''0'' \<Longrightarrow> s = []" using nat_str_hd [of n] by simp
    with Cons d show ?thesis by (auto simp: scan_int_def)
  qed simp
qed

lemma scan_number_int: "scan_number (int_str i) = Some (int_str i, False, [])"
proof -
  have "scan_sign (nat_str n) = ([], nat_str n)" for n
    using nat_str_no_sign [of n] by (auto simp: scan_sign_def split: list.splits)
  moreover have "scan_sign (CHR 0x2D # s) = ([CHR 0x2D], s)" for s by (simp add: scan_sign_def)
  ultimately show ?thesis
    by (simp add: scan_number_def int_str_def scan_int_nat scan_frac_def scan_exp_def)
qed

subsection \<open>Values\<close>

text \<open>The character a value begins with.\<close>

definition value_head :: "char \<Rightarrow> bool" where
  "value_head c \<longleftrightarrow> is_digit c \<or> c \<in> set ''-nftNI[{'' \<or> c = CHR 0x22"

lemma value_head_simps [simp]:
  "value_head (CHR ''n'')" "value_head (CHR ''f'')" "value_head (CHR ''t'')" "value_head (CHR ''N'')"
  "value_head (CHR ''I'')" "value_head (CHR ''-'')" "value_head (CHR ''['')" "value_head (CHR ''{'')"
  "value_head (CHR 0x22)"
  by (simp_all add: value_head_def)

lemma value_head_not:
  assumes "value_head c"
  shows "\<not> is_ws c" "c \<noteq> CHR '']''" "c \<noteq> CHR ''}''" "c \<noteq> CHR '',''"
  using assms by (auto simp: value_head_def is_ws_def is_digit_def Let_def)

lemma skip_ws_head: "s \<noteq> [] \<Longrightarrow> \<not> is_ws (hd s) \<Longrightarrow> skip_ws s = s"
  by (cases s) (auto simp: skip_ws_def)

lemma skip_ws_simps [simp]:
  "skip_ws [] = []" "skip_ws (CHR '','' # s) = CHR '','' # s" "skip_ws (CHR '']'' # s) = CHR '']'' # s"
  "skip_ws (CHR ''}'' # s) = CHR ''}'' # s" "skip_ws (CHR '':'' # s) = CHR '':'' # s"
  "skip_ws (CHR '' '' # s) = skip_ws s" "skip_ws (CHR 0x22 # s) = CHR 0x22 # s"
  by (simp_all add: skip_ws_def is_ws_def)

lemma starts_with_self [simp]: "starts_with p (p @ r)"
  by (induction p) auto

lemma starts_with_hd: "starts_with p s \<Longrightarrow> p \<noteq> [] \<Longrightarrow> s \<noteq> [] \<and> hd s = hd p"
  by (cases p; cases s) auto

lemma scan_number_hd: "scan_number s = Some x \<Longrightarrow> s \<noteq> [] \<and> (is_digit (hd s) \<or> hd s = CHR ''-'')"
  using literal_digits(1)
  by (cases s) (auto simp: scan_number_def scan_sign_def scan_int_def split: if_splits prod.splits)

lemma digit_not_letter: "is_digit c \<Longrightarrow> c \<notin> set ''nftNI[{'' \<and> c \<noteq> CHR 0x22"
  by (auto simp: is_digit_def)

lemma int_str_hd: "is_digit (hd (int_str i)) \<or> hd (int_str i) = CHR ''-''"
  using scan_number_hd [OF scan_number_int [of i]] by blast

lemma scan_atom_number:
  assumes "scan_number t = Some (t, b, [])" and "stops r"
  shows "scan_atom fl (t @ r) = Inr (if b then JFloat (fl t) else JInt (int_val t), r)"
proof -
  have hd: "t \<noteq> [] \<and> (is_digit (hd t) \<or> hd t = CHR ''-'')" by (rule scan_number_hd [OF assms(1)])
  then have "\<not> starts_with p (t @ r)" if "p \<in> {''null'', ''true'', ''false''}" for p
    using that starts_with_hd [of p "t @ r"] digit_not_letter [of "hd t"] by auto
  then show ?thesis
    using scan_number_stop [OF assms(2), of t] assms(1) by (simp add: scan_atom_def)
qed

lemma scan_atom_special:
  assumes "t = ''NaN'' \<or> t = ''Infinity'' \<or> t = ''-Infinity''"
  shows "scan_atom fl (t @ r) = Inr (JFloat t, r)"
proof -
  have "takeWhile is_digit (CHR ''I'' # s) = []" for s by (simp add: is_digit_def)
  then have "scan_number (''-Infinity'' @ r) = None"
    by (simp add: scan_number_def scan_sign_def scan_int_def)
  moreover have "scan_number (''NaN'' @ r) = None" "scan_number (''Infinity'' @ r) = None"
    using scan_number_hd [of "''NaN'' @ r"] scan_number_hd [of "''Infinity'' @ r"]
    by (cases "scan_number (''NaN'' @ r)"; cases "scan_number (''Infinity'' @ r)";
        auto simp: is_digit_def)+
  ultimately show ?thesis using assms by (auto simp: scan_atom_def)
qed

text \<open>A text that reads back as a value, whatever may follow it.\<close>

definition reads :: "(string \<Rightarrow> string) \<Rightarrow> string \<Rightarrow> json \<Rightarrow> bool" where
  "reads fl t v \<longleftrightarrow> t \<noteq> [] \<and> value_head (hd t) \<and>
     (\<forall>n r. length t < n \<longrightarrow> stops r \<longrightarrow> json_value fl n (t @ r) = Inr (v, r))"

lemma reads_atomI:
  assumes "t \<noteq> []" "value_head (hd t)" "hd t \<notin> set ''[{''" "hd t \<noteq> CHR 0x22"
    and "\<And>r. stops r \<Longrightarrow> scan_atom fl (t @ r) = Inr (v, r)"
  shows "reads fl t v"
proof -
  have "json_value fl n (t @ r) = Inr (v, r)" if "length t < n" "stops r" for n r
  proof -
    from that(1) obtain m where "n = Suc m" by (cases n) auto
    moreover from assms(1) obtain c s where "t = c # s" by (cases t) auto
    ultimately show ?thesis using assms(3-4) assms(5) [OF that(2)] by simp
  qed
  with assms(1,2) show ?thesis by (simp add: reads_def)
qed

lemma reads_atoms:
  "reads fl ''null'' JNull" "reads fl ''true'' (JBool True)" "reads fl ''false'' (JBool False)"
  "reads fl (int_str i) (JInt i)"
proof -
  show "reads fl ''null'' JNull" "reads fl ''true'' (JBool True)" "reads fl ''false'' (JBool False)"
    by (rule reads_atomI; simp add: scan_atom_def)+
  have "hd (int_str i) \<notin> set ''[{''" "hd (int_str i) \<noteq> CHR 0x22"
    using int_str_hd [of i] digit_not_letter [of "hd (int_str i)"] by auto
  moreover have "value_head (hd (int_str i))" using int_str_hd [of i] by (auto simp: value_head_def)
  moreover have "int_str i \<noteq> []" using scan_number_hd [OF scan_number_int [of i]] by simp
  ultimately show "reads fl (int_str i) (JInt i)"
    by (intro reads_atomI) (simp_all add: scan_atom_number [OF scan_number_int] int_val_int_str)
qed

lemma reads_float:
  assumes "float_token t" and "fl t = t"
  shows "reads fl t (JFloat t)"
proof (cases "scan_number t = Some (t, True, [])")
  case True
  from scan_number_hd [OF this] digit_not_letter [of "hd t"] show ?thesis
    by (intro reads_atomI)
      (auto simp: value_head_def scan_atom_number [OF True] assms(2))
next
  case False
  with assms have s: "t = ''NaN'' \<or> t = ''Infinity'' \<or> t = ''-Infinity''"
    by (auto simp: float_token_def)
  then show ?thesis by (intro reads_atomI scan_atom_special) auto
qed

lemma reads_string: "reads fl (json_string s) (JStr s)"
proof -
  have "json_value fl n (json_string s @ r) = Inr (JStr s, r)" if "length (json_string s) < n" for n r
    using that scan_json_string [of s r] by (cases n) (simp_all add: json_string_def)
  then show ?thesis by (simp add: reads_def) (simp add: json_string_def)
qed

definition format_ok :: "json_format \<Rightarrow> bool" where
  "format_ok f \<longleftrightarrow> jf_item f \<in> {'','', '', ''} \<and> jf_key f \<in> {'':'', '': ''}"

lemma formats_ok [simp]: "format_ok default_format" "format_ok compact_format"
  by (simp_all add: format_ok_def default_format_def compact_format_def)

lemma reads_use: "reads fl t v \<Longrightarrow> length t < n \<Longrightarrow> stops r \<Longrightarrow> json_value fl n (t @ r) = Inr (v, r)"
  by (simp add: reads_def)

lemma reads_skip_ws: "reads fl t v \<Longrightarrow> skip_ws (t @ r) = t @ r"
  by (rule skip_ws_head) (auto simp: reads_def dest: value_head_not(1))

lemma py_join_Cons: "py_join sep (t # ts) = t @ (if ts = [] then [] else sep @ py_join sep ts)"
  by (cases ts) auto

lemma join_skip_ws:
  "list_all2 (reads fl) ts vs \<Longrightarrow> ts \<noteq> [] \<Longrightarrow> skip_ws (py_join sep ts @ r) = py_join sep ts @ r"
  by (cases ts) (auto simp: list_all2_Cons1 reads_skip_ws py_join_Cons)

lemma items_read:
  assumes "list_all2 (reads fl) ts vs" "ts \<noteq> []" "sep \<in> {'','', '', ''}"
    and "Suc (length (py_join sep ts)) < n"
  shows "json_items fl n acc (py_join sep ts @ CHR '']'' # r) = Inr (JList (acc @ vs), r)"
  using assms
proof (induction sep ts arbitrary: vs n acc rule: py_join.induct)
  case (2 sep t)
  then obtain v where v: "vs = [v]" "reads fl t v" by (auto simp: list_all2_Cons1)
  from 2 obtain m where n: "n = Suc m" by (cases n) auto
  with 2 have "length t < m" by simp
  with v n show ?case by (simp add: reads_use)
next
  case (3 sep t u ts)
  then obtain v ws where v: "vs = v # ws" "reads fl t v" "list_all2 (reads fl) (u # ts) ws"
    by (auto simp: list_all2_Cons1)
  from 3 obtain m where n: "n = Suc m" by (cases n) auto
  obtain sp where sep: "sep = CHR '','' # sp" "sp = [] \<or> sp = '' ''" using 3 by auto
  have len: "length t < m" "Suc (length (py_join sep (u # ts))) < m"
    using 3(5) n sep by auto
  have "skip_ws (sp @ py_join sep (u # ts) @ s) = py_join sep (u # ts) @ s" for s
    using sep(2) join_skip_ws [OF v(3)] by auto
  moreover have "json_value fl m (t @ sep @ s) = Inr (v, sep @ s)" for s
    using v(2) len(1) sep by (intro reads_use) auto
  ultimately show ?case
    using 3(1) [OF v(3) _ 3(4) len(2)] n v(1) sep(1) by simp
qed simp

definition member :: "string \<Rightarrow> string \<times> string \<Rightarrow> string" where
  "member ks m = json_string (fst m) @ ks @ snd m"

lemma members_read:
  assumes "list_all2 (\<lambda>m v. reads fl (snd m) v) ms vs" "ms \<noteq> []" "sep \<in> {'','', '', ''}"
    and "ks \<in> {'':'', '': ''}"
    and "Suc (length (py_join sep (List.map (member ks) ms))) < n"
    and "distinct (List.map fst acc @ List.map (KStr \<circ> fst) ms)"
  shows "json_members fl n acc (py_join sep (List.map (member ks) ms) @ CHR ''}'' # r) =
    Inr (JObj (acc @ zip (List.map (KStr \<circ> fst) ms) vs), r)"
  using assms
proof (induction ms arbitrary: vs n acc)
  case (Cons km ms)
  obtain k t where km: "km = (k, t)" by (rule prod.exhaust)
  from Cons km obtain v ws where v: "vs = v # ws" "reads fl t v"
    "list_all2 (\<lambda>m v. reads fl (snd m) v) ms ws" by (auto simp: list_all2_Cons1)
  from Cons obtain m where n: "n = Suc m" by (cases n) auto
  have step: "json_members fl n acc (member ks (k, t) @ d # s) =
      (if d = CHR ''}'' then Inr (JObj (acc @ [(KStr k, v)]), s)
       else json_members fl m (acc @ [(KStr k, v)]) (skip_ws s))"
    if "length t < m" "d = CHR ''}'' \<or> d = CHR '',''" for d s
  proof -
    have str: "scan_string (concat (List.map esc_char k) @ CHR 0x22 # q) = Inr (k, q)" for q
      by (rule scan_json_string)
    have key: "skip_ws (ks @ q) = CHR '':'' # tl ks @ q" for q using Cons.prems(4) by auto
    have ws: "skip_ws (tl ks @ t @ q) = t @ q" for q
      using Cons.prems(4) reads_skip_ws [OF v(2)] by auto
    have val: "json_value fl m (t @ d # s) = Inr (v, d # s)"
      using v(2) that by (intro reads_use) auto
    have new: "dict_set acc (KStr k) v = acc @ [(KStr k, v)]"
      using Cons.prems(6) km by (intro dict_set_new) auto
    have dws: "skip_ws (d # s) = d # s" using that(2) by auto
    show ?thesis
      using that(2) by (auto simp: n member_def json_string_def str key ws val new dws)
  qed
  show ?case
  proof (cases ms)
    case Nil
    with Cons.prems(5) km n have "length t < m" by (simp add: member_def)
    with Nil v km show ?thesis by (simp add: step)
  next
    case (Cons km' ms')
    let ?rest = "py_join sep (List.map (member ks) ms)"
    obtain sp where sep: "sep = CHR '','' # sp" "sp = [] \<or> sp = '' ''" using Cons.prems(3) by auto
    have join: "py_join sep (List.map (member ks) (km # ms)) = member ks (k, t) @ sep @ ?rest"
      using Cons km by simp
    have len: "length t < m" "Suc (length ?rest) < m"
      using Cons.prems(5) n sep unfolding join by (auto simp: member_def)
    have hd: "skip_ws (?rest @ q) = ?rest @ q" for q
      using Cons by (auto simp: member_def json_string_def py_join_Cons)
    have "json_members fl m (acc @ [(KStr k, v)]) (?rest @ CHR ''}'' # r) =
        Inr (JObj ((acc @ [(KStr k, v)]) @ zip (List.map (KStr \<circ> fst) ms) ws), r)"
      using Cons.prems(3,4,6) v(3) Cons len(2) km by (intro Cons.IH) auto
    then show ?thesis
      unfolding join using sep hd v(1) km by (auto simp: step len(1) comp_def)
  qed
qed simp

subsection \<open>The round trip\<close>

text \<open>What comes back: the keys as strings, in the order printed.\<close>

fun loaded :: "json_format \<Rightarrow> json \<Rightarrow> json" where
  "loaded f (JList vs) = JList (List.map (loaded f) vs)"
| "loaded f (JObj d) =
     JObj (List.map (\<lambda>(k, v). (KStr (key_str k), v))
       (in_order f (List.map (\<lambda>(k, v). (k, loaded f v)) d)))"
| "loaded f v = v"

text \<open>Values that survive the trip: floats are printed as their own \<^verbatim>\<open>repr\<close>, and no two keys of a
  dictionary have the same text.\<close>

fun json_ok :: "(string \<Rightarrow> string) \<Rightarrow> json \<Rightarrow> bool" where
  "json_ok fl (JFloat t) = (float_token t \<and> fl t = t)"
| "json_ok fl (JList vs) = list_all (json_ok fl) vs"
| "json_ok fl (JObj d) =
     (distinct (List.map (\<lambda>m. key_str (fst m)) d) \<and> list_all (\<lambda>(k, v). json_ok fl v) d)"
| "json_ok fl JOther = False"
| "json_ok fl v = True"

lemma insort_key_map: "insort_key g (h x) (List.map h xs) = List.map h (insort_key (g \<circ> h) x xs)"
  by (induction xs) auto

lemma sort_key_map: "sort_key g (List.map h xs) = List.map h (sort_key (g \<circ> h) xs)"
  by (induction xs) (simp_all add: insort_key_map comp_def)

lemma in_order_map: "in_order f (List.map (\<lambda>(k, v). (k, g v)) d) = List.map (\<lambda>(k, v). (k, g v)) (in_order f d)"
proof -
  have "(\<lambda>m. fst (case m of (k, v) \<Rightarrow> (k, g v))) = fst" by auto
  then have "sort_key (\<lambda>m. fst (case m of (k, v) \<Rightarrow> (k, g v))) d = sort_key fst d"
    by (rule arg_cong)
  then show ?thesis by (simp add: in_order_def sort_key_map comp_def)
qed

lemma set_in_order [simp]: "set (in_order f d) = set d"
  by (simp add: in_order_def)

lemma in_order_Nil [simp]: "in_order f d = [] \<longleftrightarrow> d = []"
  by (metis set_in_order set_empty)

lemma distinct_in_order: "distinct (List.map g d) \<Longrightarrow> distinct (List.map g (in_order f d))"
  by (auto simp: in_order_def distinct_map)

theorem reads_json:
  assumes "json_ok fl v" "format_ok f"
  shows "reads fl (json_text f v) (loaded f v)"
  using assms
proof (induction f v rule: json_text.induct)
  case (1 f)
  then show ?case by (simp add: reads_atoms)
next
  case (2 f b)
  then show ?case by (simp add: reads_atoms)
next
  case (3 f i)
  then show ?case by (simp add: reads_atoms)
next
  case (4 f t)
  then show ?case by (simp add: reads_float)
next
  case (5 f s)
  then show ?case by (simp add: reads_string)
next
  case (6 f vs)
  let ?ts = "List.map (json_text f) vs"
  have items: "list_all2 (reads fl) ?ts (List.map (loaded f) vs)"
    using 6 by (auto simp: list_all2_conv_all_nth list_all_iff)
  have "json_value fl n (json_text f (JList vs) @ r) = Inr (loaded f (JList vs), r)"
    if n: "length (json_text f (JList vs)) < n" for n r
  proof (cases vs)
    case Nil
    with n show ?thesis by (cases n) simp_all
  next
    case (Cons u us)
    from n obtain m where m: "n = Suc m" "Suc (length (py_join (jf_item f) ?ts)) < m" by (cases n) auto
    have ne: "?ts \<noteq> []" using Cons by simp
    have "reads fl (json_text f u) (loaded f u)" using items Cons by simp
    then have "json_text f u \<noteq> []" "hd (json_text f u) \<noteq> CHR '']''"
      by (auto simp: reads_def dest: value_head_not(2))
    then have "\<not> starts_with '']'' (py_join (jf_item f) ?ts @ CHR '']'' # r)"
      using Cons by (cases "json_text f u") (auto simp: py_join_Cons)
    with m join_skip_ws [OF items ne] items_read [OF items ne _ m(2)] 6(3)
    show ?thesis by (simp add: format_ok_def)
  qed
  then show ?case by (simp add: reads_def del: json_value.simps)
next
  case (7 f d)
  let ?o = "in_order f d"
  let ?ms = "List.map (\<lambda>(k, v). (key_str k, json_text f v)) ?o"
  let ?vs = "List.map (\<lambda>(k, v). loaded f v) ?o"
  have "reads fl (json_text f v) (loaded f v)" if "(k, v) \<in> set d" for k v
    using 7 that by (auto simp: list_all_iff)
  then have members: "list_all2 (\<lambda>m v. reads fl (snd m) v) ?ms ?vs"
    by (auto simp: list_all2_conv_all_nth split: prod.splits) (metis nth_mem set_in_order)
  have tx: "json_text f (JObj d) =
      CHR ''{'' # py_join (jf_item f) (List.map (member (jf_key f)) ?ms) @ [CHR ''}'']"
    unfolding json_text.simps in_order_map by (simp add: member_def member_text_def comp_def split_def)
  have load: "loaded f (JObj d) = JObj (zip (List.map (KStr \<circ> fst) ?ms) ?vs)"
    unfolding loaded.simps in_order_map by (simp add: zip_map_map split_def zip_same_conv_map comp_def)
  have dist: "distinct (List.map (KStr \<circ> fst) ?ms)"
    using 7(2) distinct_in_order [of "\<lambda>m. key_str (fst m)" d f]
    by (simp add: distinct_map inj_on_def comp_def split_def)
  have "json_value fl n (json_text f (JObj d) @ r) = Inr (loaded f (JObj d), r)"
    if n: "length (json_text f (JObj d)) < n" for n r
  proof (cases "d = []")
    case True
    with n show ?thesis by (cases n) (simp_all add: in_order_def)
  next
    case False
    let ?t = "py_join (jf_item f) (List.map (member (jf_key f)) ?ms)"
    from n obtain m where m: "n = Suc m" "Suc (length ?t) < m" unfolding tx by (cases n) auto
    have ne: "?ms \<noteq> []" using False by simp
    then obtain c where "?t = CHR 0x22 # c"
      by (cases ?ms) (auto simp: py_join_Cons member_def json_string_def)
    then have ws: "skip_ws (?t @ q) = ?t @ q" "\<not> starts_with ''}'' (?t @ q)" for q by simp_all
    show ?thesis
      unfolding tx load
      using m ws members_read [OF members ne _ _ m(2), of "[]" r] 7(3) dist by (simp add: format_ok_def)
  qed
  then show ?case by (simp add: reads_def del: json_value.simps)
next
  case (8 f)
  then show ?case by simp
qed

end
