(* ===== verification/Json_Reader.thy ===== *)
theory Json_Reader
  imports Json_Roundtrip
begin

section \<open>What the reader returns\<close>

text \<open>
  The round trip of \<^verbatim>\<open>dumps\<close> and \<^verbatim>\<open>loads\<close> on whole texts, the characters a text is made of, that
  the reader's fuel suffices, and that what it returns can be printed and read again.
\<close>

subsection \<open>Whole texts\<close>

lemma json_parse_text:
  assumes "json_ok fl v" "format_ok f"
  shows "json_parse fl (json_text f v) = Inr (loaded f v)"
proof -
  have r: "reads fl (json_text f v) (loaded f v)" by (rule reads_json [OF assms])
  have "json_value fl (Suc (2 * length (json_text f v))) (json_text f v @ []) = Inr (loaded f v, [])"
    by (rule reads_use [OF r]) simp_all
  with reads_skip_ws [OF r, of "[]"] show ?thesis by (simp add: json_parse_def del: json_value.simps)
qed

lemma json_loads_text:
  "json_ok fl v \<Longrightarrow> format_ok f \<Longrightarrow> json_loads fl (json_text f v) = Inr (loaded f v)"
  by (simp add: json_loads_def json_parse_text)

lemma json_ok_serialisable: "json_ok fl v \<Longrightarrow> \<not> jf_sort f \<Longrightarrow> serialisable f v"
  by (induction f v rule: serialisable.induct) (auto simp: list_all_iff)

text \<open>Dictionaries all of whose keys are strings.\<close>

fun str_keyed :: "json \<Rightarrow> bool" where
  "str_keyed (JList vs) = list_all str_keyed vs"
| "str_keyed (JObj d) = (list_all (\<lambda>(k, v). \<not> is_kint k \<and> str_keyed v) d)"
| "str_keyed v = True"

lemma not_is_kint: "\<not> is_kint k \<longleftrightarrow> k = KStr (key_str k)"
  by (cases k) (auto simp: is_kint_def key_str_def)

lemma key_str_KStr [simp]: "key_str (KStr s) = s" "\<not> is_kint (KStr s)"
  by (simp_all add: key_str_def is_kint_def)

lemma str_keyed_serialisable: "json_ok fl v \<Longrightarrow> str_keyed v \<Longrightarrow> serialisable f v"
  by (induction f v rule: serialisable.induct) (auto simp: list_all_iff comparable_def, fastforce)

lemma default_order [simp]: "in_order default_format d = d"
  by (simp add: in_order_def default_format_def)

lemma loaded_default: "str_keyed v \<Longrightarrow> loaded default_format v = v"
proof (induction "default_format" v rule: loaded.induct)
  case (1 vs)
  then show ?case by (auto simp: list_all_iff intro!: map_idI)
next
  case (2 d)
  then have "(\<lambda>(k, v). (KStr (key_str k), loaded default_format v)) m = m" if "m \<in> set d" for m
    using that by (auto simp: list_all_iff not_is_kint)
  then show ?case by (auto simp: comp_def split_def intro!: map_idI)
qed simp_all

subsection \<open>Characters\<close>

lemma digits_printable: "is_digit c \<Longrightarrow> printable c"
  by (auto simp: is_digit_def printable_def Let_def)

lemma takeWhile_digits: "c \<in> set (takeWhile is_digit s) \<Longrightarrow> printable c"
  by (auto dest: set_takeWhileD digits_printable)

lemma scan_number_printable:
  assumes "scan_number s = Some (t, b, r)" "c \<in> set t"
  shows "printable c"
proof -
  have p: "printable (CHR ''-'')" "printable (CHR ''+'')" "printable (CHR ''.'')" "printable (CHR ''e'')"
    "printable (CHR ''E'')" "printable (CHR ''0'')"
    by (simp_all add: printable_def)
  have "c \<in> set (fst (scan_sign u)) \<Longrightarrow> printable c" for u
    using p by (auto simp: scan_sign_def split: list.splits if_splits)
  moreover have "c \<in> set (fst (scan_int u)) \<Longrightarrow> printable c" for u
    using p takeWhile_digits by (auto simp: scan_int_def simp del: takeWhile.simps split: list.splits if_splits)
  moreover have "c \<in> set (fst (scan_frac u)) \<Longrightarrow> printable c" for u
    using p takeWhile_digits by (auto simp: scan_frac_def split: list.splits if_splits)
  moreover have "c \<in> set (fst (scan_exp u)) \<Longrightarrow> printable c" for u
    using p takeWhile_digits digits_printable
    by (auto simp: scan_exp_def exp_sign_def split: list.splits if_splits prod.splits)
  ultimately show ?thesis
    using assms by (auto simp: scan_number_def split: prod.splits if_splits) (metis fst_conv)+
qed

lemma float_token_printable: "float_token t \<Longrightarrow> c \<in> set t \<Longrightarrow> printable c"
  by (auto simp: float_token_def dest: scan_number_printable) (auto simp: printable_def)

lemma py_join_set: "set (py_join sep ts) \<subseteq> set sep \<union> \<Union> (set ` set ts)"
  by (induction sep ts rule: py_join.induct) auto

lemma format_ok_printable:
  "format_ok f \<Longrightarrow> c \<in> set (jf_item f) \<or> c \<in> set (jf_key f) \<Longrightarrow> printable c"
  by (auto simp: format_ok_def printable_def)

lemma json_text_printable:
  "json_ok fl v \<Longrightarrow> format_ok f \<Longrightarrow> c \<in> set (json_text f v) \<Longrightarrow> printable c"
proof (induction f v arbitrary: c rule: json_text.induct)
  case (3 f i)
  then show ?case using int_str_chars digits_printable by (fastforce simp: printable_def)
next
  case (6 f vs)
  then show ?case
    using subsetD [OF py_join_set [of "jf_item f" "List.map (json_text f) vs"], of c]
      format_ok_printable [of f c]
    by (auto simp: list_all_iff printable_def)
next
  case (7 f d)
  have "printable c" if "(k, v) \<in> set d" "c \<in> set (member_text f (k, json_text f v))" for k v
    using 7 that format_ok_printable [of f c] printable_json_string
    by (fastforce simp: member_text_def list_all_iff)
  then have "\<forall>m \<in> set (in_order f (List.map (\<lambda>(k, v). (k, json_text f v)) d)).
      c \<in> set (member_text f m) \<longrightarrow> printable c" by auto
  then show ?case
    using 7(4) subsetD [OF py_join_set [of "jf_item f"
        "List.map (member_text f) (in_order f (List.map (\<lambda>(k, v). (k, json_text f v)) d))"], of c]
      format_ok_printable [OF 7(3), of c]
    by (auto simp: printable_def)
qed (auto simp: printable_json_string float_token_printable split: if_splits, auto simp: printable_def)

lemma printable_no_linebreak: "printable c \<Longrightarrow> \<not> is_linebreak c"
  by (auto simp: printable_def is_linebreak_def Let_def)

subsection \<open>Fuel\<close>

lemma put_char_cases:
  "put_char c r = Inr (t, q) \<longleftrightarrow> (\<exists>u. r = Inr (u, q) \<and> t = c # u)"
  "put_char c r = Inl e \<longleftrightarrow> r = Inl e"
  by (auto simp: put_char_def split: sum.splits prod.splits)

lemma scan_string_step:
  obtains (quote) "scan_string (c # cs) = Inr ([], cs)"
  | (bad) e where "scan_string (c # cs) = Inl e" "e \<noteq> Out_of_fuel"
  | (more) d q where "scan_string (c # cs) = put_char d (scan_string q)" "length q < length (c # cs)"
proof -
  consider "c = CHR 0x22" | (esc) "c = CHR 0x5C" | (raw) "c \<noteq> CHR 0x22" "c \<noteq> CHR 0x5C" by blast
  then show thesis
  proof cases
    case esc
    show thesis
    proof (cases cs)
      case (Cons e r)
      show thesis
      proof (cases "e = CHR ''u''")
        case True
        have "\<exists>w x y z r'. r = w # x # y # z # r'" if "\<not> length r < 4"
          using that by (auto simp: not_less numeral_eq_Suc Suc_le_length_iff)
        then consider w x y z r' where "r = w # x # y # z # r'" | "length r < 4" by blast
        then show thesis
        proof cases
          case 1
          show thesis
          proof (cases "hex4 w x y z")
            case None
            with 1 esc Cons True show thesis by (auto intro: bad)
          next
            case (Some n)
            with 1 esc Cons True show thesis
              by (cases "n < 256") (auto intro: bad more [of "char_of n" r'])
          qed
        next
          case 2
          then have "scan_string (c # cs) = Inl Bad_json"
            using esc Cons True by (auto split: list.split)
          then show thesis by (rule bad) simp
        qed
      next
        case False
        with esc Cons show thesis
          by (cases "unescape e") (auto intro: bad more)
      qed
    qed (use esc in \<open>auto intro: bad\<close>)
  next
    case raw
    then show thesis by (cases "(of_char c :: nat) < 32") (auto intro: bad more)
  qed (auto intro: quote)
qed
lemma scan_string_shorter: "scan_string s = Inr (t, r) \<Longrightarrow> length r < length s"
proof (induction s arbitrary: t rule: measure_induct_rule [where f = length])
  case (less s)
  show ?case
  proof (cases s)
    case (Cons c cs)
    show ?thesis
    proof (cases c cs rule: scan_string_step)
      case (more d q)
      with less.prems Cons obtain u where "scan_string q = Inr (u, r)"
        by (auto simp: put_char_cases simp del: scan_string.simps)
      with less.IH [of q] more(2) Cons show ?thesis by force
    qed (use less.prems Cons in auto)
  qed (use less.prems in simp)
qed

lemma scan_string_fuel: "scan_string s \<noteq> Inl Out_of_fuel"
proof (induction s rule: measure_induct_rule [where f = length])
  case (less s)
  show ?case
  proof (cases s)
    case (Cons c cs)
    show ?thesis
      by (cases c cs rule: scan_string_step)
        (use less.IH Cons in \<open>auto simp: put_char_cases simp del: scan_string.simps\<close>)
  qed simp
qed

lemma scan_number_shorter:
  assumes "scan_number s = Some (t, b, r)"
  shows "length r < length s"
proof -
  have "scan_sign u = (a, q) \<Longrightarrow> length q \<le> length u" for u a q
    by (auto simp: scan_sign_def split: list.splits if_splits)
  moreover have "scan_int u = (a, q) \<Longrightarrow> a \<noteq> [] \<Longrightarrow> length q < length u" for u a q
    by (auto simp: scan_int_def length_dropWhile_le less_Suc_eq_le split: list.splits if_splits)
  moreover have "scan_frac u = (a, q) \<Longrightarrow> length q \<le> length u" for u a q
    by (auto simp: scan_frac_def split: list.splits if_splits)
      (meson le_SucI length_dropWhile_le)
  moreover have "exp_sign u = (a, q) \<Longrightarrow> length q \<le> length u" for u a q
    by (auto simp: exp_sign_def split: list.splits if_splits)
  then have "scan_exp u = (a, q) \<Longrightarrow> length q \<le> length u" for u a q
    by (auto simp: scan_exp_def split: list.splits if_splits prod.splits)
      (meson le_SucI length_dropWhile_le le_trans)+
  ultimately show ?thesis
    using assms by (auto simp: scan_number_def split: prod.splits if_splits) (meson le_less_trans less_le_trans)+
qed

lemma starts_with_length: "starts_with p s \<Longrightarrow> length p \<le> length s"
  by (induction p s rule: starts_with.induct) auto

lemma scan_atom_shorter: "scan_atom fl s = Inr (v, r) \<Longrightarrow> length r < length s"
  by (auto simp: scan_atom_def split: if_splits option.splits
      dest!: starts_with_length scan_number_shorter)

lemma scan_atom_fuel: "scan_atom fl s \<noteq> Inl Out_of_fuel"
  by (auto simp: scan_atom_def split: option.splits)

lemma skip_ws_length: "length (skip_ws s) \<le> length s"
  by (simp add: skip_ws_def length_dropWhile_le)

lemma skip_ws_Cons: "skip_ws s = c # r \<Longrightarrow> length r < length s"
  using skip_ws_length [of s] by simp

lemma json_shorter:
  "json_value fl n s = Inr (v, r) \<Longrightarrow> length r < length s"
  "json_items fl n acc s = Inr (v, r) \<Longrightarrow> length r < length s"
  "json_members fl n d s = Inr (v, r) \<Longrightarrow> length r < length s"
proof (induction fl n s and fl n acc s and fl n d s arbitrary: v r and v r and v r
    rule: json_value_json_items_json_members.induct)
  case (2 fl n s)
  show ?case
  proof (cases s)
    case (Cons c cs)
    have "length (tl (skip_ws cs)) \<le> length cs" using skip_ws_length [of cs] by simp
    with 2 Cons skip_ws_length [of cs] show ?thesis
      by (force simp: less_Suc_eq_le split: if_splits sum.splits prod.splits
          dest: scan_string_shorter scan_atom_shorter)
  qed (use 2 in simp)
next
  case (4 fl n acc s)
  then obtain w q where w: "json_value fl n s = Inr (w, q)" by (auto split: sum.splits)
  with 4 obtain c p where c: "skip_ws q = c # p" by (auto split: list.splits)
  have "length q < length s" using 4(1) w by blast
  moreover have "length p < length q" using c by (rule skip_ws_Cons)
  moreover have "length r < length (skip_ws p) \<or> r = p" using 4 w c by (auto split: if_splits)
  ultimately show ?case using skip_ws_length [of p] by auto
next
  case (6 fl n d s)
  then obtain cs where s: "s = CHR 0x22 # cs" by (auto split: list.splits if_splits)
  with 6 obtain k q where k: "scan_string cs = Inr (k, q)" by (auto split: sum.splits)
  with 6 s obtain p where p: "skip_ws q = CHR '':'' # p" by (auto split: list.splits if_splits)
  with 6 s k obtain w q' where w: "json_value fl n (skip_ws p) = Inr (w, q')" by (auto split: sum.splits)
  with 6 s k p obtain c p' where c: "skip_ws q' = c # p'" by (auto split: list.splits)
  have "length q < length cs" using k by (rule scan_string_shorter)
  moreover have "length p < length q" using p by (rule skip_ws_Cons)
  moreover have "length q' < length (skip_ws p)" using 6(1) s k p w by simp
  moreover have "length p' < length q'" using c by (rule skip_ws_Cons)
  moreover have "length r < length (skip_ws p') \<or> r = p'" using 6 s k p w c by (auto split: if_splits)
  ultimately show ?case using skip_ws_length [of p] skip_ws_length [of p'] s by auto
qed simp_all

lemma json_fuel:
  "2 * length s < n \<Longrightarrow> json_value fl n s \<noteq> Inl Out_of_fuel"
  "2 * length s + 1 < n \<Longrightarrow> json_items fl n acc s \<noteq> Inl Out_of_fuel"
  "2 * length s + 1 < n \<Longrightarrow> json_members fl n d s \<noteq> Inl Out_of_fuel"
proof (induction fl n s and fl n acc s and fl n d s rule: json_value_json_items_json_members.induct)
  case (2 fl n s)
  show ?case
  proof (cases s)
    case (Cons c cs)
    with 2(3) skip_ws_length [of cs] have "2 * length (skip_ws cs) + 1 < n" by simp
    with 2(1,2) Cons scan_string_fuel [of cs] scan_atom_fuel [of fl s] show ?thesis
      by (auto split: sum.splits)
  qed simp
next
  case (4 fl n acc s)
  have v: "json_value fl n s \<noteq> Inl Out_of_fuel" using 4 by auto
  show ?case
  proof (cases "json_value fl n s")
    case (Inr wq)
    obtain w q where w: "json_value fl n s = Inr (w, q)" using Inr by (metis prod.exhaust)
    show ?thesis
    proof (cases "skip_ws q")
      case (Cons c p)
      have "length (skip_ws p) < length s"
        using skip_ws_Cons [OF Cons] json_shorter(1) [OF w] skip_ws_length [of p] by linarith
      with 4(3) have "2 * length (skip_ws p) + 1 < n" by linarith
      with 4(2) [OF w _ Cons] w Cons show ?thesis by auto
    qed (use w in simp)
  qed (use v in auto)
next
  case (6 fl n d s)
  show ?case
  proof (cases "\<exists>cs k q p. s = CHR 0x22 # cs \<and> scan_string cs = Inr (k, q) \<and> skip_ws q = CHR '':'' # p")
    case True
    then obtain cs k q p where s: "s = CHR 0x22 # cs" and k: "scan_string cs = Inr (k, q)"
      and p: "skip_ws q = CHR '':'' # p" by blast
    have lp: "length (skip_ws p) < length cs"
      using scan_string_shorter [OF k] skip_ws_Cons [OF p] skip_ws_length [of p] by linarith
    then have v: "json_value fl n (skip_ws p) \<noteq> Inl Out_of_fuel" using 6 s k p by simp
    show ?thesis
    proof (cases "json_value fl n (skip_ws p)")
      case (Inr wq)
      then obtain w q' where w: "json_value fl n (skip_ws p) = Inr (w, q')" by (metis prod.exhaust)
      show ?thesis
      proof (cases "skip_ws q'")
        case (Cons c p')
        have "length (skip_ws p') < length cs"
          using lp skip_ws_Cons [OF Cons] json_shorter(1) [OF w] skip_ws_length [of p'] by linarith
        with 6(3) s have "2 * length (skip_ws p') + 1 < n" by simp
        with 6(2) s k p w Cons show ?thesis by simp
      qed (use s k p w in simp)
    qed (use s k p v in auto)
  next
    case False
    with scan_string_fuel show ?thesis by (auto split: list.splits sum.splits if_splits)
  qed
qed simp_all

lemma json_parse_total: "json_parse fl s \<noteq> Inl Out_of_fuel"
proof -
  have "2 * length (skip_ws s) < Suc (2 * length s)" using skip_ws_length [of s] by simp
  from json_fuel(1) [OF this, of fl] show ?thesis
    by (auto simp: json_parse_def simp del: json_value.simps split: sum.splits)
qed

subsection \<open>Values read\<close>

text \<open>What is assumed of reading a float and printing it: the text is a number, and reading it again
  changes nothing.\<close>

definition float_codec :: "(string \<Rightarrow> string) \<Rightarrow> bool" where
  "float_codec fl \<longleftrightarrow>
     (\<forall>s t r. scan_number s = Some (t, True, r) \<longrightarrow> float_token (fl t) \<and> fl (fl t) = fl t) \<and>
     fl ''NaN'' = ''NaN'' \<and> fl ''Infinity'' = ''Infinity'' \<and> fl ''-Infinity'' = ''-Infinity''"

lemma scan_atom_ok:
  "float_codec fl \<Longrightarrow> scan_atom fl s = Inr (v, r) \<Longrightarrow> json_ok fl v \<and> str_keyed v"
proof -
  assume fl: "float_codec fl" and s: "scan_atom fl s = Inr (v, r)"
  have special: "json_ok fl (JFloat ''NaN'')" "json_ok fl (JFloat ''Infinity'')" "json_ok fl (JFloat ''-Infinity'')"
    using fl by (simp_all add: float_codec_def float_token_def)
  have number: "scan_number s = Some (t, True, q) \<Longrightarrow> json_ok fl (JFloat (fl t))" for t q
    using fl by (auto simp: float_codec_def)
  show "json_ok fl v \<and> str_keyed v"
  proof (cases "scan_number s")
    case None
    with s special show ?thesis by (auto simp: scan_atom_def simp del: json_ok.simps(1) split: if_splits)
  next
    case (Some x)
    then obtain t b q where x: "scan_number s = Some (t, b, q)" by (metis prod.exhaust)
    with s number show ?thesis
      by (cases b) (auto simp: scan_atom_def simp del: json_ok.simps(1) split: if_splits)
  qed
qed

definition dict_ok :: "(string \<Rightarrow> string) \<Rightarrow> (pykey \<times> json) list \<Rightarrow> bool" where
  "dict_ok fl d \<longleftrightarrow> json_ok fl (JObj d) \<and> str_keyed (JObj d)"

lemma dict_ok_set:
  assumes "dict_ok fl d" "json_ok fl v" "str_keyed v"
  shows "dict_ok fl (dict_set d (KStr k) v)"
proof -
  have keys: "\<not> is_kint j" if "j \<in> set (List.map fst d)" for j
    using assms(1) that by (auto simp: dict_ok_def list_all_iff)
  have "distinct (List.map fst d)"
    using assms(1) by (simp add: dict_ok_def distinct_map inj_on_def)
  then have "distinct (List.map fst (dict_set d (KStr k) v))" by (rule dict_set_keys)
  moreover have all: "\<not> is_kint j \<and> json_ok fl u \<and> str_keyed u" if "(j, u) \<in> set (dict_set d (KStr k) v)" for j u
    using that assms by (auto simp: dict_set_def dict_ok_def list_all_iff split: if_splits)
  moreover have "inj_on key_str (fst ` set (dict_set d (KStr k) v))"
    using all by (intro inj_onI) (metis image_iff not_is_kint prod.collapse)
  ultimately show ?thesis
    by (auto simp: dict_ok_def list_all_iff distinct_map comp_inj_on [of fst _ key_str, unfolded comp_def])
qed

lemma json_read_ok:
  "json_value fl n s = Inr (v, r) \<Longrightarrow> float_codec fl \<Longrightarrow> json_ok fl v \<and> str_keyed v"
  "json_items fl n acc s = Inr (v, r) \<Longrightarrow> float_codec fl \<Longrightarrow>
     list_all (json_ok fl) acc \<and> list_all str_keyed acc \<Longrightarrow> json_ok fl v \<and> str_keyed v"
  "json_members fl n d s = Inr (v, r) \<Longrightarrow> float_codec fl \<Longrightarrow> dict_ok fl d \<Longrightarrow>
     json_ok fl v \<and> str_keyed v"
proof (induction fl n s and fl n acc s and fl n d s arbitrary: v r and v r and v r
    rule: json_value_json_items_json_members.induct)
  case (2 fl n s)
  have "dict_ok fl []" by (simp add: dict_ok_def)
  with 2 scan_atom_ok [of fl s v r] show ?case by (auto split: list.splits if_splits sum.splits)
next
  case (4 fl n acc s)
  then obtain w q where w: "json_value fl n s = Inr (w, q)" by (auto split: sum.splits)
  with 4 obtain c p where c: "skip_ws q = c # p" by (auto split: list.splits)
  have "json_ok fl w \<and> str_keyed w" using 4(1,4) w by blast
  with 4 w c show ?case by (auto split: if_splits)
next
  case (6 fl n d s)
  then obtain cs where s: "s = CHR 0x22 # cs" by (auto split: list.splits if_splits)
  with 6 obtain k q where k: "scan_string cs = Inr (k, q)" by (auto split: sum.splits)
  with 6 s obtain p where p: "skip_ws q = CHR '':'' # p" by (auto split: list.splits if_splits)
  with 6 s k obtain w q' where w: "json_value fl n (skip_ws p) = Inr (w, q')" by (auto split: sum.splits)
  with 6 s k p obtain c p' where c: "skip_ws q' = c # p'" by (auto split: list.splits)
  have "json_ok fl w \<and> str_keyed w" using 6 s k p w by simp
  then have d: "dict_ok fl (dict_set d (KStr k) w)" using 6(5) by (intro dict_ok_set) auto
  have "v = JObj (dict_set d (KStr k) w) \<or>
      json_members fl n (dict_set d (KStr k) w) (skip_ws p') = Inr (v, r) \<and> c = CHR '',''"
    using 6(3) s k p w c by (auto split: if_splits)
  then show ?case
  proof
    assume "v = JObj (dict_set d (KStr k) w)"
    with d show ?thesis by (simp add: dict_ok_def)
  next
    assume "json_members fl n (dict_set d (KStr k) w) (skip_ws p') = Inr (v, r) \<and> c = CHR '',''"
    with 6(2) s k p w c d 6(4) show ?thesis by simp
  qed
qed simp_all

lemma json_loads_ok:
  "float_codec fl \<Longrightarrow> json_loads fl s = Inr v \<Longrightarrow> json_ok fl v \<and> str_keyed v"
  by (auto simp: json_loads_def json_parse_def simp del: json_value.simps
      split: sum.splits if_splits json_error.splits dest: json_read_ok(1))

lemma dict_get_loaded:
  assumes "\<forall>k \<in> fst ` set p. \<not> is_kint k" "distinct (List.map fst p)"
    and "loaded f (JObj p) = JObj q"
  shows "dict_get q (KStr k) = map_option (loaded f) (dict_get p (KStr k))"
proof -
  let ?m = "List.map (\<lambda>(k, v). (k, loaded f v)) p"
  have "(\<lambda>(k, v). (KStr (key_str k), v)) m = m" if "m \<in> set (in_order f ?m)" for m
    using that assms(1) not_is_kint by (force simp: set_in_order)
  then have "q = in_order f ?m" using assms(3) by (auto intro: map_idI)
  moreover have keys: "List.map fst ?m = List.map fst p" by (induction p) auto
  then have dm: "distinct (List.map fst ?m)" using assms(2) by (simp only:)
  ultimately have "map_of q = map_of ?m"
    using map_of_inject_set [OF distinct_in_order [OF dm, of f] dm] by simp
  moreover have "map_of ?m j = map_option (loaded f) (map_of p j)" for j by (induction p) auto
  ultimately show ?thesis by (simp add: dict_get_def)
qed

subsection \<open>Reading what was read back\<close>

lemma loaded_dict:
  assumes "str_keyed (JObj d)"
  shows "loaded f (JObj d) = JObj (in_order f (List.map (\<lambda>(k, v). (k, loaded f v)) d))"
proof -
  have "(case m of (k, v) \<Rightarrow> (KStr (key_str k), v)) = m"
    if "m \<in> set (in_order f (List.map (\<lambda>(k, v). (k, loaded f v)) d))" for m
    using that assms by (auto simp: list_all_iff not_is_kint)
  then show ?thesis by (auto intro!: map_idI)
qed

lemma in_order_again: "in_order f (in_order f d) = in_order f d"
  by (simp add: in_order_def sort_key_id_if_sorted)

lemma loaded_again: "str_keyed v \<Longrightarrow> str_keyed (loaded f v) \<and> loaded f (loaded f v) = loaded f v"
proof (induction f v rule: loaded.induct)
  case (1 f vs)
  then show ?case by (auto simp: list_all_iff)
next
  case (2 f d)
  let ?m = "List.map (\<lambda>(k, v). (k, loaded f v)) d"
  have IH: "str_keyed (loaded f v) \<and> loaded f (loaded f v) = loaded f v" if "(k, v) \<in> set d" for k v
    using 2(1) [OF that refl] 2(2) that by (auto simp: list_all_iff)
  then have m: "List.map (\<lambda>(k, v). (k, loaded f v)) ?m = ?m" by auto
  have s: "str_keyed (JObj (in_order f ?m))" using 2(2) IH by (auto simp: list_all_iff)
  have "loaded f (JObj (in_order f ?m)) = JObj (in_order f (List.map (\<lambda>(k, v). (k, loaded f v)) (in_order f ?m)))"
    by (rule loaded_dict [OF s])
  also have "\<dots> = JObj (in_order f (in_order f (List.map (\<lambda>(k, v). (k, loaded f v)) ?m)))"
    by (simp only: in_order_map [of f "loaded f" ?m])
  also have "\<dots> = JObj (in_order f ?m)" by (simp only: m in_order_again)
  finally show ?case using s unfolding loaded_dict [OF 2(2)] by blast
qed simp_all

lemma loaded_json_ok: "json_ok fl v \<Longrightarrow> str_keyed v \<Longrightarrow> json_ok fl (loaded f v)"
proof (induction f v rule: loaded.induct)
  case (1 f vs)
  then show ?case by (auto simp: list_all_iff)
next
  case (2 f d)
  let ?m = "List.map (\<lambda>(k, v). (k, loaded f v)) d"
  have "List.map (\<lambda>m. key_str (fst m)) ?m = List.map (\<lambda>m. key_str (fst m)) d" by (induction d) auto
  then have "distinct (List.map (\<lambda>m. key_str (fst m)) ?m)" using 2(2) by (simp only: json_ok.simps)
  then have "distinct (List.map (\<lambda>m. key_str (fst m)) (in_order f ?m))" by (rule distinct_in_order)
  moreover have "json_ok fl (loaded f v)" if "(k, v) \<in> set d" for k v
    using 2(1) [OF that refl] 2(2,3) that by (auto simp: list_all_iff)
  ultimately show ?case unfolding loaded_dict [OF 2(3)] by (auto simp: list_all_iff)
qed simp_all

end
