(* ===== verification/Line_Codec.thy ===== *)
theory Line_Codec
  imports Json_Reader
begin

section \<open>One value per line\<close>

text \<open>
  Both JSON Lines writers (the audit ledger and \<^verbatim>\<open>write_jsonl_to_s3\<close>) put one encoded value on a
  line, and both rely on the same of the encoding: a value is read back from its text, the text has no
  line boundary, and it is not blank. What follows for texts of many lines is proved once here, and
  Python's \<^verbatim>\<open>json.dumps\<close> with its default separators is an instance.
\<close>

locale line_codec =
  fixes enc :: "'a \<Rightarrow> string" and dec :: "string \<Rightarrow> exn + 'a" and ok :: "'a \<Rightarrow> bool"
  assumes decode: "ok x \<Longrightarrow> dec (enc x) = Inr x"
    and one_line: "ok x \<Longrightarrow> c \<in> set (enc x) \<Longrightarrow> \<not> is_linebreak c"
    and not_blank: "ok x \<Longrightarrow> py_strip (enc x) \<noteq> []"
begin

lemma not_empty: "ok x \<Longrightarrow> enc x \<noteq> []"
  using not_blank [of x] by (auto simp: py_strip_empty)

lemma first_line: "ok x \<Longrightarrow> splitlines (enc x @ CHR 0x0A # t) = enc x # splitlines t"
  using one_line by (intro splitlines_line) blast

lemma only_line: "ok x \<Longrightarrow> splitlines (enc x) = [enc x]"
  using one_line not_empty by (intro splitlines_single) blast+

lemma terminated_lines:
  "list_all ok xs \<Longrightarrow>
     splitlines (concat (List.map (\<lambda>x. enc x @ [CHR 0x0A]) xs) @ t) = List.map enc xs @ splitlines t"
  by (induction xs) (simp_all add: first_line)

lemma joined_lines:
  "list_all ok xs \<Longrightarrow> splitlines (py_join [CHR 0x0A] (List.map enc xs)) = List.map enc xs"
proof (induction xs)
  case (Cons x xs)
  then show ?case by (cases xs) (simp_all add: first_line only_line)
qed simp

lemma decode_all: "list_all ok xs \<Longrightarrow> List.map dec (List.map enc xs) = List.map Inr xs"
  by (induction xs) (simp_all add: decode)

lemma joined_decode:
  "list_all ok xs \<Longrightarrow>
     List.map dec (splitlines (py_join [CHR 0x0A] (List.map enc xs))) = List.map Inr xs"
  using joined_lines decode_all by simp

end

text \<open>The values that JSON keeps: all their keys are strings, and no dictionary repeats one.\<close>

definition record_fine :: "(string \<Rightarrow> string) \<Rightarrow> json \<Rightarrow> bool" where
  "record_fine fl r \<longleftrightarrow> json_ok fl r \<and> str_keyed r"

lemma value_head_not_space: "value_head c \<Longrightarrow> \<not> is_space c"
  by (auto simp: value_head_def is_digit_def is_space_def Let_def)

interpretation json_lines: line_codec "json_text default_format" "json_loads fl" "record_fine fl" for fl
proof unfold_locales
  fix r c
  assume fine: "record_fine fl r"
  then show "json_loads fl (json_text default_format r) = Inr r"
    using json_loads_text [of fl r default_format] loaded_default by (simp add: record_fine_def)
  show "\<not> is_linebreak c" if "c \<in> set (json_text default_format r)"
    using that fine json_text_printable [of fl r default_format] printable_no_linebreak
    by (auto simp: record_fine_def)
  have "reads fl (json_text default_format r) (loaded default_format r)"
    using fine by (intro reads_json) (simp_all add: record_fine_def)
  then show "py_strip (json_text default_format r) \<noteq> []"
    using value_head_not_space hd_in_set by (auto simp: reads_def py_strip_empty)
qed

end
