(* ===== verification/Audit_Ledger.thy ===== *)
theory Audit_Ledger
  imports Line_Codec "HOL-Library.Sublist"
begin

section \<open>The signed audit ledger\<close>

text \<open>
  Models \<^verbatim>\<open>python/src/cubiczan_resilience/audit_ledger.py\<close>. The file is its decoded text (\<open>None\<close>:
  it does not exist). The keyed hash in hexadecimal is an argument \<open>mac\<close> of the definitions, from the
  key and the message to the digest; nothing is assumed of it, and \<open>Ledger_Mac\<close> puts HMAC-SHA256 in. The clock's time in RFC 3339 form is
  an argument of \<open>append\<close>. An append may fail when it makes the directory or opens the file, or while it
  writes: then the argument \<open>fault\<close> gives the exception, and how many characters reached the file. The lock makes each method one step.
  Paths are absolute lists of names on a tree without symbolic links.
\<close>

type_synonym mac = "string \<Rightarrow> string \<Rightarrow> string"
type_synonym dict = "(pykey \<times> json) list"

definition AUDIT_LEDGER_KEY_ENV :: string where
  "AUDIT_LEDGER_KEY_ENV = ''AUDIT_LEDGER_KEY''"

definition DEFAULT_AUDIT_LEDGER_KEY :: string where
  "DEFAULT_AUDIT_LEDGER_KEY = ''cubiczan-resilience-insecure-default-key''"

record verify_result =
  vr_ok :: bool
  vr_count :: int
  vr_tampered_index :: "int option"
  vr_reason :: "string option"

text \<open>\<^verbatim>\<open>bool\<close> and \<^verbatim>\<open>repr\<close> of a result.\<close>

definition vr_bool :: "verify_result \<Rightarrow> bool" where
  "vr_bool v = vr_ok v"

definition vr_repr :: "verify_result \<Rightarrow> string" where
  "vr_repr v =
     (if vr_ok v then ''VerifyResult(ok=True, count='' @ int_str (vr_count v) @ '')''
      else ''VerifyResult(ok=False, tampered_index='' @
        (case vr_tampered_index v of None \<Rightarrow> ''None'' | Some i \<Rightarrow> int_str i) @ '', reason='' @
        (case vr_reason v of None \<Rightarrow> ''None'' | Some r \<Rightarrow> py_repr r) @ '')'')"

definition canonical_json :: "json \<Rightarrow> exn + string" where
  "canonical_json v = json_dumps compact_format v"

definition resolve_key :: "(string \<rightharpoonup> string) \<Rightarrow> string option \<Rightarrow> string" where
  "resolve_key environ key =
     (case key of
        Some k \<Rightarrow> k
      | None \<Rightarrow> (case environ AUDIT_LEDGER_KEY_ENV of Some k \<Rightarrow> k | None \<Rightarrow> DEFAULT_AUDIT_LEDGER_KEY))"

subsection \<open>Paths\<close>

text \<open>A \<^verbatim>\<open>Path\<close>: whether it is absolute, and its parts. \<^verbatim>\<open>resolve\<close> removes the parent
  references; the root is its own parent.\<close>

fun split_slash :: "string \<Rightarrow> string \<Rightarrow> string list" where
  "split_slash part [] = [part]"
| "split_slash part (c # cs) =
     (if c = CHR ''/'' then part # split_slash [] cs else split_slash (part @ [c]) cs)"

definition path_parts :: "string \<Rightarrow> string list" where
  "path_parts s = List.filter (\<lambda>p. p \<noteq> [] \<and> p \<noteq> ''.'') (split_slash [] s)"

definition is_absolute :: "string \<Rightarrow> bool" where
  "is_absolute s = starts_with ''/'' s"

definition resolve_step :: "string list \<Rightarrow> string \<Rightarrow> string list" where
  "resolve_step done part = (if part = ''..'' then butlast done else done @ [part])"

definition resolve_parts :: "string list \<Rightarrow> string list" where
  "resolve_parts ps = foldl resolve_step [] ps"

definition confine_path :: "string list \<Rightarrow> string option \<Rightarrow> string \<Rightarrow> exn + string list" where
  "confine_path cwd base_dir path =
     (let base = resolve_parts (case base_dir of
                   None \<Rightarrow> cwd
                 | Some b \<Rightarrow> if is_absolute b then path_parts b else cwd @ path_parts b);
          resolved = resolve_parts (if is_absolute path then path_parts path else base @ path_parts path) in
      if prefix base resolved then Inr resolved
      else Inl (mk_exn ValueError (''audit ledger path escapes allowed base directory: '' @ path)))"

subsection \<open>Signing\<close>

definition require_field :: "dict \<Rightarrow> string \<Rightarrow> exn + json" where
  "require_field d k = (case dict_get d (KStr k) of None \<Rightarrow> Inl (mk_exn KeyError (py_repr k)) | Some v \<Rightarrow> Inr v)"

fun require_fields :: "dict \<Rightarrow> string list \<Rightarrow> exn + dict" where
  "require_fields d [] = Inr []"
| "require_fields d (k # ks) =
     (case require_field d k of
        Inl e \<Rightarrow> Inl e
      | Inr v \<Rightarrow>
          (case require_fields d ks of Inl e \<Rightarrow> Inl e | Inr p \<Rightarrow> Inr ((KStr k, v) # p)))"

definition optional_field :: "dict \<Rightarrow> string \<Rightarrow> dict" where
  "optional_field d k =
     (case dict_get d (KStr k) of
        None \<Rightarrow> []
      | Some v \<Rightarrow> if v = JNull then [] else [(KStr k, v)])"

definition signed_fields :: "string list" where
  "signed_fields = [''ts'', ''event'', ''actor'', ''inputs'', ''sources'', ''prev_sig'']"

definition signing_payload :: "dict \<Rightarrow> exn + dict" where
  "signing_payload d =
     (case require_fields d signed_fields of
        Inl e \<Rightarrow> Inl e
      | Inr p \<Rightarrow> Inr (p @ optional_field d ''confidence'' @ optional_field d ''rationale''))"

definition sign :: "mac \<Rightarrow> string \<Rightarrow> dict \<Rightarrow> exn + string" where
  "sign mac key d =
     (case signing_payload d of
        Inl e \<Rightarrow> Inl e
      | Inr p \<Rightarrow>
          (case canonical_json (JObj p) of Inl e \<Rightarrow> Inl e | Inr msg \<Rightarrow> Inr (mac key msg)))"

subsection \<open>Reading the file\<close>

fun load_lines :: "(string \<Rightarrow> string) \<Rightarrow> string list \<Rightarrow> exn + json list" where
  "load_lines fl [] = Inr []"
| "load_lines fl (line # lines) =
     (if py_strip line = [] then load_lines fl lines
      else
        (case json_loads fl line of
           Inl e \<Rightarrow> Inl e
         | Inr v \<Rightarrow> (case load_lines fl lines of Inl e \<Rightarrow> Inl e | Inr vs \<Rightarrow> Inr (v # vs))))"

definition parse_lines :: "(string \<Rightarrow> string) \<Rightarrow> string \<Rightarrow> exn + json list" where
  "parse_lines fl raw = load_lines fl (splitlines raw)"

subsection \<open>The ledger\<close>

record ledger =
  lg_key :: string
  lg_last_sig :: json

text \<open>The class name of a loaded value, and \<^verbatim>\<open>records[-1]["sig"]\<close>.\<close>

definition json_type :: "json \<Rightarrow> string" where
  "json_type v =
     (case v of
        JNull \<Rightarrow> ''NoneType''
      | JBool _ \<Rightarrow> ''bool''
      | JInt _ \<Rightarrow> ''int''
      | JFloat _ \<Rightarrow> ''float''
      | JStr _ \<Rightarrow> ''str''
      | JList _ \<Rightarrow> ''list''
      | JObj _ \<Rightarrow> ''dict''
      | JOther \<Rightarrow> ''object'')"

definition quoted_type :: "json \<Rightarrow> string" where
  "quoted_type v = [CHR 0x27] @ json_type v @ [CHR 0x27]"

definition last_sig_of :: "json \<Rightarrow> exn + json" where
  "last_sig_of r =
     (case r of
        JObj d \<Rightarrow> require_field d ''sig''
      | JList _ \<Rightarrow> Inl (mk_exn TypeError ''list indices must be integers or slices, not str'')
      | JStr _ \<Rightarrow>
          Inl (mk_exn TypeError (''string indices must be integers, not '' @ [CHR 0x27] @ ''str'' @ [CHR 0x27]))
      | _ \<Rightarrow> Inl (mk_exn TypeError (quoted_type r @ '' object is not subscriptable'')))"

definition open_ledger ::
  "(string \<Rightarrow> string) \<Rightarrow> (string \<rightharpoonup> string) \<Rightarrow> string option \<Rightarrow> string option \<Rightarrow> exn + ledger" where
  "open_ledger fl environ key content =
     (let l = \<lparr>lg_key = resolve_key environ key, lg_last_sig = JStr []\<rparr> in
      case content of
        None \<Rightarrow> Inr l
      | Some raw \<Rightarrow>
          (case parse_lines fl raw of
             Inl e \<Rightarrow> Inl e
           | Inr records \<Rightarrow>
               if records = [] then Inr l
               else (case last_sig_of (List.last records) of
                       Inl e \<Rightarrow> Inl e
                     | Inr s \<Rightarrow> Inr (l\<lparr>lg_last_sig := s\<rparr>))))"

text \<open>The arguments of \<^verbatim>\<open>append\<close>; \<^verbatim>\<open>None\<close> for \<^verbatim>\<open>inputs\<close> or \<^verbatim>\<open>sources\<close> is \<open>JNull\<close>.\<close>

record entry =
  en_event :: string
  en_actor :: string
  en_inputs :: json
  en_sources :: json
  en_confidence :: "json option"
  en_rationale :: "string option"
  en_ts :: "string option"

definition base_record :: "string \<Rightarrow> entry \<Rightarrow> dict" where
  "base_record now e =
     (let ts = (case en_ts e of None \<Rightarrow> now | Some t \<Rightarrow> if t = [] then now else t) in
      [(KStr ''ts'', JStr ts), (KStr ''event'', JStr (en_event e)), (KStr ''actor'', JStr (en_actor e)),
       (KStr ''inputs'', en_inputs e), (KStr ''sources'', en_sources e)] @
      (case en_confidence e of None \<Rightarrow> [] | Some c \<Rightarrow> [(KStr ''confidence'', c)]) @
      (case en_rationale e of None \<Rightarrow> [] | Some r \<Rightarrow> [(KStr ''rationale'', JStr r)]))"

datatype append_fault = Open_fault exn | Write_fault nat exn

definition append_entry ::
  "mac \<Rightarrow> string \<Rightarrow> append_fault option \<Rightarrow> entry \<Rightarrow> ledger \<Rightarrow> string option \<Rightarrow>
   (exn + string) \<times> ledger \<times> string option" where
  "append_entry mac now fault e l content =
     (let record = dict_set (base_record now e) (KStr ''prev_sig'') (lg_last_sig l) in
      case sign mac (lg_key l) record of
        Inl exc \<Rightarrow> (Inl exc, l, content)
      | Inr sig \<Rightarrow>
          (let record' = dict_set record (KStr ''sig'') (JStr sig);
               old = (case content of None \<Rightarrow> [] | Some raw \<Rightarrow> raw) in
           case fault of
             Some (Open_fault exc) \<Rightarrow> (Inl exc, l, content)
           | _ \<Rightarrow>
               (case json_dumps default_format (JObj record') of
                  Inl exc \<Rightarrow> (Inl exc, l, Some old)
                | Inr txt \<Rightarrow>
                    (let line = txt @ [CHR 0x0A] in
                     case fault of
                       Some (Write_fault n exc) \<Rightarrow> (Inl exc, l, Some (old @ take n line))
                     | _ \<Rightarrow> (Inr sig, l\<lparr>lg_last_sig := JStr sig\<rparr>, Some (old @ line))))))"

subsection \<open>Verification\<close>

definition broken_at :: "nat \<Rightarrow> string \<Rightarrow> verify_result" where
  "broken_at i reason =
     \<lparr>vr_ok = False, vr_count = 0, vr_tampered_index = Some (int i),
      vr_reason = Some (reason @ int_str (int i))\<rparr>"

fun verify_from :: "mac \<Rightarrow> string \<Rightarrow> nat \<Rightarrow> json \<Rightarrow> json list \<Rightarrow> exn + verify_result" where
  "verify_from mac key i prev [] =
     Inr \<lparr>vr_ok = True, vr_count = int i, vr_tampered_index = None, vr_reason = None\<rparr>"
| "verify_from mac key i prev (r # rs) =
     (case r of
        JObj d \<Rightarrow>
          if dict_get d (KStr ''prev_sig'') \<noteq> Some prev
          then Inr (broken_at i ''prev_sig mismatch: chain broken at line '')
          else
            (case sign mac key d of
               Inl e \<Rightarrow> Inl e
             | Inr expected \<Rightarrow>
                 if dict_get d (KStr ''sig'') \<noteq> Some (JStr expected)
                 then Inr (broken_at i ''signature mismatch at line '')
                 else verify_from mac key (Suc i) (JStr expected) rs)
      | _ \<Rightarrow>
          Inl (mk_exn AttributeError
            (quoted_type r @ '' object has no attribute '' @ [CHR 0x27] @ ''get'' @ [CHR 0x27])))"

definition verify_ledger ::
  "mac \<Rightarrow> (string \<Rightarrow> string) \<Rightarrow> (string \<rightharpoonup> string) \<Rightarrow> string option \<Rightarrow> string option \<Rightarrow>
   exn + verify_result" where
  "verify_ledger mac fl environ key content =
     (case parse_lines fl (case content of None \<Rightarrow> [] | Some raw \<Rightarrow> raw) of
        Inl e \<Rightarrow> Inl e
      | Inr records \<Rightarrow> verify_from mac (resolve_key environ key) 0 (JStr []) records)"

text \<open>\<^verbatim>\<open>AuditLedger.verify\<close>.\<close>

definition verify_method ::
  "mac \<Rightarrow> (string \<Rightarrow> string) \<Rightarrow> (string \<rightharpoonup> string) \<Rightarrow> ledger \<Rightarrow> string option \<Rightarrow> exn + verify_result" where
  "verify_method mac fl environ l content = verify_ledger mac fl environ (Some (lg_key l)) content"

text \<open>The two entry points with their paths: the path is confined first; \<open>fs\<close> gives the text of the
  file at a resolved path. The constructor keeps the path for the later calls.\<close>

definition init_ledger ::
  "(string \<Rightarrow> string) \<Rightarrow> (string \<rightharpoonup> string) \<Rightarrow> string list \<Rightarrow> (string list \<Rightarrow> string option) \<Rightarrow>
   string \<Rightarrow> string option \<Rightarrow> string option \<Rightarrow> exn + (string list \<times> ledger)" where
  "init_ledger fl environ cwd fs path key base_dir =
     (case confine_path cwd base_dir path of
        Inl e \<Rightarrow> Inl e
      | Inr p \<Rightarrow>
          (case open_ledger fl environ key (fs p) of Inl e \<Rightarrow> Inl e | Inr l \<Rightarrow> Inr (p, l)))"

definition verify_ledger_at ::
  "mac \<Rightarrow> (string \<Rightarrow> string) \<Rightarrow> (string \<rightharpoonup> string) \<Rightarrow> string list \<Rightarrow>
   (string list \<Rightarrow> string option) \<Rightarrow> string \<Rightarrow> string option \<Rightarrow> string option \<Rightarrow> exn + verify_result" where
  "verify_ledger_at mac fl environ cwd fs path key base_dir =
     (case confine_path cwd base_dir path of
        Inl e \<Rightarrow> Inl e
      | Inr p \<Rightarrow> verify_ledger mac fl environ key (fs p))"

subsection \<open>The chain of signatures\<close>

text \<open>What verification establishes: the signature at the end of the chain, when every record
  continues it.\<close>

fun chain_end :: "mac \<Rightarrow> string \<Rightarrow> json \<Rightarrow> json list \<Rightarrow> json option" where
  "chain_end mac key prev [] = Some prev"
| "chain_end mac key prev (r # rs) =
     (case r of
        JObj d \<Rightarrow>
          (case sign mac key d of
             Inl e \<Rightarrow> None
           | Inr s \<Rightarrow>
               if dict_get d (KStr ''prev_sig'') = Some prev \<and> dict_get d (KStr ''sig'') = Some (JStr s)
               then chain_end mac key (JStr s) rs else None)
      | _ \<Rightarrow> None)"

definition verified :: "nat \<Rightarrow> exn + verify_result" where
  "verified n = Inr \<lparr>vr_ok = True, vr_count = int n, vr_tampered_index = None, vr_reason = None\<rparr>"

lemma verify_from_chain:
  "verify_from mac key i prev rs = verified (i + length rs) \<longleftrightarrow> chain_end mac key prev rs \<noteq> None"
  by (induction mac key i prev rs rule: verify_from.induct)
    (auto simp: verified_def broken_at_def split: json.splits sum.splits)

lemma verify_from_ok:
  "verify_from mac key i prev rs = Inr v \<Longrightarrow> vr_ok v \<longleftrightarrow> Inr v = verified (i + length rs)"
  by (induction mac key i prev rs rule: verify_from.induct)
    (auto simp: verified_def broken_at_def split: json.splits sum.splits if_splits)

lemma chain_end_append:
  "chain_end mac key prev (rs @ ss) =
     (case chain_end mac key prev rs of None \<Rightarrow> None | Some p \<Rightarrow> chain_end mac key p ss)"
  by (induction mac key prev rs rule: chain_end.induct) (auto split: json.splits sum.splits)

lemma chain_end_last:
  "chain_end mac key prev rs = Some p \<Longrightarrow> rs \<noteq> [] \<Longrightarrow>
     \<exists>d. List.last rs = JObj d \<and> dict_get d (KStr ''sig'') = Some p"
  by (induction mac key prev rs rule: chain_end.induct)
    (auto split: json.splits sum.splits if_splits)

text \<open>The signature depends on the signed fields only.\<close>

lemma require_fields_cong:
  "(\<And>k. k \<in> set ks \<Longrightarrow> dict_get d (KStr k) = dict_get d' (KStr k)) \<Longrightarrow>
     require_fields d ks = require_fields d' ks"
  by (induction ks) (auto simp: require_field_def split: option.splits sum.splits)

definition payload_fields :: "string list" where
  "payload_fields = signed_fields @ [''confidence'', ''rationale'']"

lemma sign_cong:
  "(\<And>k. k \<in> set payload_fields \<Longrightarrow> dict_get d (KStr k) = dict_get d' (KStr k)) \<Longrightarrow>
     sign mac key d = sign mac key d'"
proof -
  assume a: "\<And>k. k \<in> set payload_fields \<Longrightarrow> dict_get d (KStr k) = dict_get d' (KStr k)"
  then have "require_fields d signed_fields = require_fields d' signed_fields"
    by (intro require_fields_cong) (simp add: payload_fields_def)
  moreover have "optional_field d k = optional_field d' k" if "k \<in> {''confidence'', ''rationale''}" for k
    using a that by (auto simp: optional_field_def payload_fields_def)
  ultimately show ?thesis by (simp add: sign_def signing_payload_def cong: sum.case_cong)
qed

lemma sign_ignores: "k \<notin> set payload_fields \<Longrightarrow> sign mac key (dict_set d (KStr k) v) = sign mac key d"
  by (rule sign_cong) auto

subsection \<open>The text of a ledger\<close>

definition line_of :: "json \<Rightarrow> string" where
  "line_of r = json_text default_format r @ [CHR 0x0A]"

definition ledger_text :: "json list \<Rightarrow> string" where
  "ledger_text rs = concat (List.map line_of rs)"

definition record_ok :: "(string \<Rightarrow> string) \<Rightarrow> json \<Rightarrow> bool" where
  "record_ok fl r \<longleftrightarrow> record_fine fl r \<and> (\<exists>d. r = JObj d)"

lemma load_line:
  "record_ok fl r \<Longrightarrow>
     load_lines fl (splitlines (line_of r @ t)) =
     (case load_lines fl (splitlines t) of Inl e \<Rightarrow> Inl e | Inr vs \<Rightarrow> Inr (r # vs))"
  using json_lines.first_line [of fl r t] json_lines.decode [of fl r] json_lines.not_blank [of fl r]
  by (simp add: line_of_def record_ok_def)

lemma parse_ledger_text: "list_all (record_ok fl) rs \<Longrightarrow> parse_lines fl (ledger_text rs) = Inr rs"
  by (induction rs) (simp_all add: parse_lines_def ledger_text_def load_line)

subsection \<open>Appending\<close>

definition entry_ok :: "(string \<Rightarrow> string) \<Rightarrow> entry \<Rightarrow> bool" where
  "entry_ok fl e \<longleftrightarrow>
     (\<forall>v \<in> {en_inputs e, en_sources e} \<union> set_option (en_confidence e). json_ok fl v \<and> str_keyed v)"

text \<open>A record holds what was appended.\<close>

definition recorded :: "entry \<Rightarrow> json \<Rightarrow> bool" where
  "recorded e r \<longleftrightarrow>
     (\<exists>d. r = JObj d \<and> dict_get d (KStr ''event'') = Some (JStr (en_event e)) \<and>
        dict_get d (KStr ''actor'') = Some (JStr (en_actor e)) \<and>
        dict_get d (KStr ''inputs'') = Some (en_inputs e) \<and>
        dict_get d (KStr ''sources'') = Some (en_sources e) \<and>
        dict_get d (KStr ''confidence'') = en_confidence e \<and>
        dict_get d (KStr ''rationale'') = map_option JStr (en_rationale e))"

lemma base_record_keys:
  "KStr ''prev_sig'' \<notin> fst ` set (base_record now e)" "KStr ''sig'' \<notin> fst ` set (base_record now e)"
  by (auto simp: base_record_def Let_def split: option.splits)

lemma base_record_ok:
  assumes "entry_ok fl e"
  shows "record_ok fl (JObj (base_record now e @ [(KStr ''prev_sig'', JStr p), (KStr ''sig'', JStr s)]))"
  using assms by (auto simp: record_ok_def record_fine_def entry_ok_def base_record_def Let_def split: option.splits)

lemma append_entry_success:
  assumes "append_entry mac now None e l content = (Inr sig, l', content')"
    and "entry_ok fl e" "lg_last_sig l = JStr p"
  obtains r where "record_ok fl r" "recorded e r" "chain_end mac (lg_key l) (JStr p) [r] = Some (JStr sig)"
    "l' = l\<lparr>lg_last_sig := JStr sig\<rparr>" "content' = Some (case_option [] id content @ line_of r)"
proof -
  let ?d = "base_record now e @ [(KStr ''prev_sig'', JStr p)]"
  let ?r = "?d @ [(KStr ''sig'', JStr sig)]"
  have d: "dict_set (base_record now e) (KStr ''prev_sig'') (JStr p) = ?d"
    by (rule dict_set_new) (use base_record_keys in simp)
  have r: "dict_set ?d (KStr ''sig'') (JStr s) = ?d @ [(KStr ''sig'', JStr s)]" for s
    by (rule dict_set_new) (use base_record_keys(2) in auto)
  have sign: "sign mac (lg_key l) ?d = Inr sig"
    using assms(1,3) by (auto simp: append_entry_def d Let_def split: sum.splits)
  have sign': "sign mac (lg_key l) ?r = Inr sig"
    using sign_ignores [of "''sig''" mac "lg_key l" ?d "JStr sig"] sign unfolding r
    by (simp add: payload_fields_def signed_fields_def)
  have ok: "record_ok fl (JObj ?r)" using base_record_ok [OF assms(2)] by simp
  have "json_dumps default_format (JObj ?r) = Inr (json_text default_format (JObj ?r))"
    using ok str_keyed_serialisable [of fl "JObj ?r"] by (simp only: record_ok_def record_fine_def json_dumps_def if_True)
  then have res: "l' = l\<lparr>lg_last_sig := JStr sig\<rparr>" "content' = Some (case_option [] id content @ line_of (JObj ?r))"
    using assms(1,3) sign
    by (auto simp only: append_entry_def d r Let_def sum.case option.case line_of_def split: option.splits) auto
  show thesis
  proof (rule that [OF ok _ _ res])
    show "recorded e (JObj ?r)"
      by (auto simp: recorded_def base_record_def dict_get_def Let_def split: option.splits)
    have "dict_get ?r (KStr ''prev_sig'') = Some (JStr p)" "dict_get ?r (KStr ''sig'') = Some (JStr sig)"
      using dict_get_set [of ?d "KStr ''sig''" "JStr sig"]
        dict_get_set [of "base_record now e" "KStr ''prev_sig''" "JStr p"] unfolding r d by auto
    then show "chain_end mac (lg_key l) (JStr p) [JObj ?r] = Some (JStr sig)" using sign' by simp
  qed
qed

lemma append_entry_failed: "append_entry mac now fault e l content = (Inl exc, l', content') \<Longrightarrow> l' = l"
  by (auto simp: append_entry_def Let_def split: sum.splits option.splits append_fault.splits)

text \<open>The life of a ledger file: created, appended to, and reopened any number of times; an append may
  also fail before it wrote anything (the entry cannot be serialised, the file cannot be opened).\<close>

inductive ledger_run ::
  "mac \<Rightarrow> (string \<Rightarrow> string) \<Rightarrow> (string \<rightharpoonup> string) \<Rightarrow> string option \<Rightarrow>
   entry list \<Rightarrow> ledger \<Rightarrow> string option \<Rightarrow> bool"
  for mac fl environ key where
  run_open: "open_ledger fl environ key None = Inr l \<Longrightarrow> ledger_run mac fl environ key [] l None"
| run_reopen:
    "ledger_run mac fl environ key es l content \<Longrightarrow> open_ledger fl environ key content = Inr l' \<Longrightarrow>
     ledger_run mac fl environ key es l' content"
| run_append:
    "ledger_run mac fl environ key es l content \<Longrightarrow> entry_ok fl e \<Longrightarrow>
     append_entry mac now None e l content = (Inr sig, l', content') \<Longrightarrow>
     ledger_run mac fl environ key (es @ [e]) l' content'"
| run_failed:
    "ledger_run mac fl environ key es l content \<Longrightarrow>
     append_entry mac now fault e l content = (Inl exc, l', content') \<Longrightarrow>
     case_option [] id content' = case_option [] id content \<Longrightarrow>
     ledger_run mac fl environ key es l' content'"

text \<open>The same with no condition on the entries: whatever \<^verbatim>\<open>append\<close> accepts is written.\<close>

inductive ledger_history ::
  "mac \<Rightarrow> (string \<Rightarrow> string) \<Rightarrow> (string \<rightharpoonup> string) \<Rightarrow> string option \<Rightarrow>
   entry list \<Rightarrow> ledger \<Rightarrow> string option \<Rightarrow> bool"
  for mac fl environ key where
  history_open: "open_ledger fl environ key None = Inr l \<Longrightarrow> ledger_history mac fl environ key [] l None"
| history_reopen:
    "ledger_history mac fl environ key es l content \<Longrightarrow> open_ledger fl environ key content = Inr l' \<Longrightarrow>
     ledger_history mac fl environ key es l' content"
| history_append:
    "ledger_history mac fl environ key es l content \<Longrightarrow>
     append_entry mac now None e l content = (Inr sig, l', content') \<Longrightarrow>
     ledger_history mac fl environ key (es @ [e]) l' content'"
| history_failed:
    "ledger_history mac fl environ key es l content \<Longrightarrow>
     append_entry mac now fault e l content = (Inl exc, l', content') \<Longrightarrow>
     case_option [] id content' = case_option [] id content \<Longrightarrow>
     ledger_history mac fl environ key es l' content'"

lemma ledger_history_run:
  "ledger_history mac fl environ key es l content \<Longrightarrow> list_all (entry_ok fl) es \<Longrightarrow>
     ledger_run mac fl environ key es l content"
  by (induction rule: ledger_history.induct)
    (auto intro: run_open run_reopen run_append run_failed)

definition ledger_inv ::
  "mac \<Rightarrow> (string \<Rightarrow> string) \<Rightarrow> string \<Rightarrow> entry list \<Rightarrow> ledger \<Rightarrow> string option \<Rightarrow> json list \<Rightarrow> bool" where
  "ledger_inv mac fl k es l content rs \<longleftrightarrow>
     list_all (record_ok fl) rs \<and> list_all2 recorded es rs \<and> case_option [] id content = ledger_text rs \<and>
     lg_key l = k \<and> (\<exists>p. lg_last_sig l = JStr p) \<and> chain_end mac k (JStr []) rs = Some (lg_last_sig l)"

lemma open_ledger_resumes:
  assumes "ledger_inv mac fl (resolve_key environ key) es l content rs"
  shows "open_ledger fl environ key content = Inr l"
proof -
  note inv = assms [unfolded ledger_inv_def]
  have l: "l = \<lparr>lg_key = resolve_key environ key, lg_last_sig = lg_last_sig l\<rparr>" using inv by simp
  show ?thesis
  proof (cases content)
    case None
    with inv have "rs = []" by (cases rs) (auto simp: ledger_text_def line_of_def)
    with inv None l show ?thesis by (simp add: open_ledger_def)
  next
    case (Some raw)
    then have parse: "parse_lines fl raw = Inr rs" using inv parse_ledger_text by simp
    show ?thesis
    proof (cases "rs = []")
      case True
      with inv Some parse l show ?thesis by (simp add: open_ledger_def Let_def)
    next
      case False
      then obtain d where "List.last rs = JObj d" "dict_get d (KStr ''sig'') = Some (lg_last_sig l)"
        using chain_end_last inv by blast
      with False Some parse l show ?thesis
        by (simp add: open_ledger_def Let_def last_sig_of_def require_field_def)
    qed
  qed
qed

lemma ledger_run_inv:
  "ledger_run mac fl environ key es l content \<Longrightarrow>
     \<exists>rs. ledger_inv mac fl (resolve_key environ key) es l content rs"
proof (induction rule: ledger_run.induct)
  case (run_open l)
  then have "ledger_inv mac fl (resolve_key environ key) [] l None []"
    by (auto simp: ledger_inv_def open_ledger_def ledger_text_def)
  then show ?case by blast
next
  case (run_reopen es l content l')
  with open_ledger_resumes have "l' = l" by fastforce
  with run_reopen show ?case by simp
next
  case (run_append es l content e now sig l' content')
  then obtain rs p where inv: "ledger_inv mac fl (resolve_key environ key) es l content rs"
    and p: "lg_last_sig l = JStr p" by (auto simp: ledger_inv_def)
  from append_entry_success [OF run_append(3,2) p]
  obtain r where "record_ok fl r" "recorded e r" "chain_end mac (lg_key l) (JStr p) [r] = Some (JStr sig)"
    "l' = l\<lparr>lg_last_sig := JStr sig\<rparr>" "content' = Some (case_option [] id content @ line_of r)" .
  with inv p have "ledger_inv mac fl (resolve_key environ key) (es @ [e]) l' content' (rs @ [r])"
    by (simp add: ledger_inv_def ledger_text_def chain_end_append list_all2_appendI)
  then show ?case by blast
next
  case (run_failed es l content now fault e exc l' content')
  then have "l' = l" using append_entry_failed by blast
  with run_failed show ?case by (auto simp: ledger_inv_def)
qed

end
