(* ===== verification/Polling.thy ===== *)
theory Polling
  imports Py_String "HOL-Library.List_Lexorder" "HOL-Library.Char_ord"
begin

section \<open>Polling until a terminal state\<close>

text \<open>
  Models the loop of \<^verbatim>\<open>poll_until_terminal\<close> in \<^verbatim>\<open>scope-core/src/scope_core/utils.py\<close>, shared with
  \<^verbatim>\<open>SafeAthenaClient.wait\<close> (same shape: look, stop or fail, check the deadline, sleep). The loop
  has no bound of its own: it is a partial function, and \<open>None\<close> is a loop that never returns.
  \<open>check\<close> is one look: an exception, \<open>Inr a\<close> to stop with \<open>a\<close>, or \<open>Inl s\<close> to go on, \<open>s\<close> being the
  state seen.
\<close>

partial_function (option) poll_loop ::
  "('w \<Rightarrow> (exn + (string + 'a)) \<times> 'w) \<Rightarrow> (string \<Rightarrow> exn) \<Rightarrow> rat \<Rightarrow> rat \<Rightarrow> 'w clock \<Rightarrow>
   (rat \<Rightarrow> ('w, unit) callback) \<Rightarrow> 'w \<Rightarrow> ((exn + 'a) \<times> 'w) option" where
  "poll_loop check late deadline interval now sleep w =
     (case check w of
        (Inl e, w1) \<Rightarrow> Some (Inl e, w1)
      | (Inr (Inr a), w1) \<Rightarrow> Some (Inr a, w1)
      | (Inr (Inl s), w1) \<Rightarrow>
          (case now w1 of
             (t, w2) \<Rightarrow>
               if t \<ge> deadline then Some (Inl (late s), w2)
               else
                 (case sleep interval w2 of
                    (Inl e, w3) \<Rightarrow> Some (Inl e, w3)
                  | (Inr _, w3) \<Rightarrow> poll_loop check late deadline interval now sleep w3)))"

definition look :: "('w, string) callback \<Rightarrow> string list \<Rightarrow> 'w \<Rightarrow> (exn + (string + string)) \<times> 'w" where
  "look fetch_state terminal w =
     (case fetch_state w of
        (Inl e, w1) \<Rightarrow> (Inl e, w1)
      | (Inr state, w1) \<Rightarrow> (Inr (if List.member terminal state then Inr state else Inl state), w1))"

text \<open>\<^verbatim>\<open>repr\<close> of a list of strings; \<open>float_str\<close> is \<^verbatim>\<open>str\<close> of a float, which rationals do not
  determine.\<close>

definition strings_repr :: "string list \<Rightarrow> string" where
  "strings_repr xs = ''['' @ py_join '', '' (List.map py_repr xs) @ '']''"

definition poll_late :: "string list \<Rightarrow> string \<Rightarrow> string \<Rightarrow> exn" where
  "poll_late terminal seconds state =
     mk_exn TimeoutError (''State did not reach '' @ strings_repr (sort (remdups terminal)) @
       '' within '' @ seconds @ ''s (last state: '' @ state @ '')'')"

definition poll_until_terminal ::
  "(rat \<Rightarrow> string) \<Rightarrow> ('w, string) callback \<Rightarrow> string list \<Rightarrow> rat \<Rightarrow> rat \<Rightarrow> 'w clock \<Rightarrow> (rat \<Rightarrow> ('w, unit) callback) \<Rightarrow>
   'w \<Rightarrow> ((exn + string) \<times> 'w) option" where
  "poll_until_terminal float_str fetch_state terminal timeout interval time_fn sleep_fn w =
     (case time_fn w of
        (start, w1) \<Rightarrow>
          poll_loop (look fetch_state terminal) (poll_late terminal (float_str timeout)) (start + timeout) interval time_fn sleep_fn w1)"

subsection \<open>When and how the loop ends\<close>

text \<open>A world with a clock: reading it gives the time, nothing turns it back, and a sleep lasts at
  least as long as asked.\<close>

definition clocked ::
  "('w \<Rightarrow> rat) \<Rightarrow> ('w \<Rightarrow> 'a \<times> 'w) \<Rightarrow> 'w clock \<Rightarrow> (rat \<Rightarrow> ('w, unit) callback) \<Rightarrow> bool" where
  "clocked time check now sleep \<longleftrightarrow>
     (\<forall>w. fst (now w) = time (snd (now w)) \<and> time w \<le> time (snd (now w)) \<and>
        time w \<le> time (snd (check w)) \<and> (\<forall>d. time w + d \<le> time (snd (sleep d w))))"

text \<open>How a loop may end.\<close>

inductive poll_ends ::
  "('w \<Rightarrow> (exn + (string + 'a)) \<times> 'w) \<Rightarrow> (string \<Rightarrow> exn) \<Rightarrow> rat \<Rightarrow> rat \<Rightarrow> 'w clock \<Rightarrow>
   (rat \<Rightarrow> ('w, unit) callback) \<Rightarrow> nat \<Rightarrow> 'w \<Rightarrow> exn + 'a \<Rightarrow> 'w \<Rightarrow> bool"
  for check late deadline interval now sleep where
  pe_raise: "check w = (Inl e, w1) \<Longrightarrow> poll_ends check late deadline interval now sleep 1 w (Inl e) w1"
| pe_stop: "check w = (Inr (Inr a), w1) \<Longrightarrow> poll_ends check late deadline interval now sleep 1 w (Inr a) w1"
| pe_late: "check w = (Inr (Inl s), w1) \<Longrightarrow> now w1 = (t, w2) \<Longrightarrow> deadline \<le> t \<Longrightarrow>
    poll_ends check late deadline interval now sleep 1 w (Inl (late s)) w2"
| pe_sleep: "check w = (Inr (Inl s), w1) \<Longrightarrow> now w1 = (t, w2) \<Longrightarrow> t < deadline \<Longrightarrow>
    sleep interval w2 = (Inl e, w3) \<Longrightarrow> poll_ends check late deadline interval now sleep 1 w (Inl e) w3"
| pe_again: "check w = (Inr (Inl s), w1) \<Longrightarrow> now w1 = (t, w2) \<Longrightarrow> t < deadline \<Longrightarrow>
    sleep interval w2 = (Inr u, w3) \<Longrightarrow> poll_ends check late deadline interval now sleep n w3 r w4 \<Longrightarrow>
    poll_ends check late deadline interval now sleep (Suc n) w r w4"

lemma poll_ends_run:
  "poll_ends check late deadline interval now sleep n w r w' \<Longrightarrow>
     poll_loop check late deadline interval now sleep w = Some (r, w')"
  by (induction rule: poll_ends.induct) (subst poll_loop.simps; simp)+

lemma poll_terminates_within:
  assumes "clocked time check now sleep" "0 < interval"
    and "deadline - time w \<le> of_nat n * interval"
  shows "\<exists>k r w'. k \<le> Suc n \<and> poll_ends check late deadline interval now sleep k w r w'"
  using assms(3)
proof (induction n arbitrary: w)
  case (Suc n)
  have once: "poll_ends check late deadline interval now sleep 1 w r w' \<Longrightarrow> ?case" for r w' by fastforce
  obtain c w1 where c: "check w = (c, w1)" by (rule prod.exhaust)
  obtain t w2 where t: "now w1 = (t, w2)" by (rule prod.exhaust)
  obtain q w3 where q: "sleep interval w2 = (q, w3)" by (rule prod.exhaust)
  have "time w \<le> time w1" "time w1 \<le> time w2" "time w2 + interval \<le> time w3"
    using assms(1) c t q by (metis clocked_def snd_conv)+
  then have le: "deadline - time w3 \<le> of_nat n * interval" using Suc.prems by (simp add: algebra_simps)
  consider (raise) e where "c = Inl e" | (stop) a where "c = Inr (Inr a)"
    | (late) s where "c = Inr (Inl s)" "deadline \<le> t"
    | (sleep) s e where "c = Inr (Inl s)" "t < deadline" "q = Inl e"
    | (again) s u where "c = Inr (Inl s)" "t < deadline" "q = Inr u"
    by (metis not_le sum.exhaust)
  then show ?case
  proof cases
    case raise show ?thesis by (rule once, rule pe_raise, rule c [unfolded raise])
  next
    case stop show ?thesis by (rule once, rule pe_stop, rule c [unfolded stop])
  next
    case late show ?thesis by (rule once, rule pe_late, rule c [unfolded late(1)], rule t, rule late(2))
  next
    case sleep show ?thesis
      by (rule once, rule pe_sleep, rule c [unfolded sleep(1)], rule t, rule sleep(2), rule q [unfolded sleep(3)])
  next
    case again
    from Suc.IH [OF le] obtain k r w4 where
      "k \<le> Suc n" "poll_ends check late deadline interval now sleep k w3 r w4" by blast
    have "poll_ends check late deadline interval now sleep (Suc k) w r w4"
      by (rule pe_again, rule c [unfolded again(1)], rule t, rule again(2), rule q [unfolded again(3)]) fact
    with \<open>k \<le> Suc n\<close> show ?thesis by (metis Suc_le_mono)
  qed
next
  case 0
  have once: "poll_ends check late deadline interval now sleep 1 w r w' \<Longrightarrow> ?case" for r w' by fastforce
  obtain c w1 where c: "check w = (c, w1)" by (rule prod.exhaust)
  obtain t w2 where t: "now w1 = (t, w2)" by (rule prod.exhaust)
  have "time w \<le> time w1" "time w1 \<le> time w2" "t = time w2"
    using assms(1) c t by (metis clocked_def snd_conv fst_conv)+
  with 0 have late: "deadline \<le> t" by simp
  consider (raise) e where "c = Inl e" | (stop) a where "c = Inr (Inr a)" | (late) s where "c = Inr (Inl s)"
    by (metis sum.exhaust)
  then show ?case
  proof cases
    case raise show ?thesis by (rule once, rule pe_raise, rule c [unfolded raise])
  next
    case stop show ?thesis by (rule once, rule pe_stop, rule c [unfolded stop])
  next
    case (late s)
    show ?thesis by (rule once, rule pe_late, rule c [unfolded late], rule t, rule \<open>deadline \<le> t\<close>)
  qed
qed

lemma poll_ends_result:
  "poll_ends check late deadline interval now sleep n w r w' \<Longrightarrow>
     (case r of
        Inr a \<Rightarrow> \<exists>v. check v = (Inr (Inr a), w')
      | Inl e \<Rightarrow> (\<exists>v. check v = (Inl e, w')) \<or> (\<exists>v. sleep interval v = (Inl e, w')) \<or>
          (\<exists>s v t. e = late s \<and> now v = (t, w') \<and> deadline \<le> t))"
proof (induction rule: poll_ends.induct)
  case (pe_late w s w1 t w2)
  then show ?case by simp blast
next
  case (pe_again w s w1 t w2 u w3 n r w4)
  then show ?case by simp
qed auto

text \<open>The number of looks a run may need.\<close>

definition looks_needed :: "rat \<Rightarrow> rat \<Rightarrow> nat" where
  "looks_needed timeout interval = nat \<lceil>timeout / interval\<rceil>"

lemma looks_enough:
  assumes "0 < interval" shows "timeout \<le> of_nat (looks_needed timeout interval) * interval"
proof -
  have "timeout / interval \<le> of_int \<lceil>timeout / interval\<rceil>" by (rule le_of_int_ceiling)
  also have "\<dots> \<le> of_nat (looks_needed timeout interval)"
    by (metis looks_needed_def of_int_le_iff of_int_of_nat_eq of_nat_nat_take_bit_eq nat_le_iff int_nat_eq max.cobounded1 order_refl nat_int)
  finally show ?thesis using assms by (simp add: pos_divide_le_eq)
qed

text \<open>C18: polling always ends, with a positive interval and a clock that moves: after at most
  \<^verbatim>\<open>timeout / interval\<close> (rounded up) plus one looks it returns, and then it returns a terminal state
  the source reported, or raises what the source or the sleep raised, or \<^verbatim>\<open>TimeoutError\<close>, and that
  only when the deadline has passed.\<close>

theorem poll_until_terminal_ends:
  fixes fetch_state :: "('w, string) callback"
  assumes "clocked time (look fetch_state terminal) time_fn sleep_fn" and "0 < interval"
  shows "\<exists>r w' k. poll_until_terminal float_str fetch_state terminal timeout interval time_fn sleep_fn w = Some (r, w') \<and>
     k \<le> Suc (looks_needed timeout interval) \<and>
     poll_ends (look fetch_state terminal) (poll_late terminal (float_str timeout)) (fst (time_fn w) + timeout) interval time_fn sleep_fn
       k (snd (time_fn w)) r w' \<and>
     (case r of
        Inr state \<Rightarrow> state \<in> set terminal \<and> (\<exists>v. fetch_state v = (Inr state, w'))
      | Inl e \<Rightarrow> (\<exists>v. fetch_state v = (Inl e, w')) \<or> (\<exists>v. sleep_fn interval v = (Inl e, w')) \<or>
          isinstance e TimeoutError \<and> fst (time_fn w) + timeout \<le> time w')"
proof -
  obtain start w1 where w1: "time_fn w = (start, w1)" by (rule prod.exhaust)
  have start: "start = time w1" using assms(1) w1 by (metis clocked_def fst_conv snd_conv)
  then have "(start + timeout) - time w1 \<le> of_nat (looks_needed timeout interval) * interval"
    using looks_enough [OF assms(2), of timeout] by simp
  from poll_terminates_within [OF assms this, of "poll_late terminal (float_str timeout)"] obtain k r w' where
    k: "k \<le> Suc (looks_needed timeout interval)" and
    ends: "poll_ends (look fetch_state terminal) (poll_late terminal (float_str timeout)) (start + timeout) interval time_fn sleep_fn k w1 r w'"
    by blast
  have look: "look fetch_state terminal v = (Inr (Inr a), w') \<Longrightarrow>
      a \<in> set terminal \<and> fetch_state v = (Inr a, w')"
    "look fetch_state terminal v = (Inl e, w') \<Longrightarrow> fetch_state v = (Inl e, w')" for v a e
    by (auto simp: look_def split: prod.splits sum.splits if_splits)
  have "case r of
        Inr state \<Rightarrow> state \<in> set terminal \<and> (\<exists>v. fetch_state v = (Inr state, w'))
      | Inl e \<Rightarrow> (\<exists>v. fetch_state v = (Inl e, w')) \<or> (\<exists>v. sleep_fn interval v = (Inl e, w')) \<or>
          isinstance e TimeoutError \<and> start + timeout \<le> time w'"
  proof (cases r)
    case (Inr a)
    with poll_ends_result [OF ends] look(1) show ?thesis by auto
  next
    case (Inl e)
    have "t = time w'" if "time_fn v = (t, w')" for v t
      using assms(1) that by (metis clocked_def fst_conv snd_conv)
    with poll_ends_result [OF ends] look(2) Inl show ?thesis
      by (fastforce simp: poll_late_def)
  qed
  with w1 k ends poll_ends_run [OF ends] show ?thesis
    unfolding poll_until_terminal_def w1 fst_conv snd_conv prod.case
    by (intro exI [of _ r] exI [of _ w'] exI [of _ k]) simp
qed

text \<open>An example: a job that is done after two seconds, polled every second.\<close>

definition job :: "(rat, string) callback" where
  "job w = (Inr (if 2 \<le> w then ''SUCCEEDED'' else ''RUNNING''), w)"

definition sleep_for :: "rat \<Rightarrow> (rat, unit) callback" where
  "sleep_for d w = (Inr (), w + d)"

theorem poll_until_terminal_ends_witness:
  "\<exists>r w'. poll_until_terminal (\<lambda>t. ''10.0'') job [''SUCCEEDED''] 10 1 fake_clock sleep_for 0 = Some (r, w') \<and>
     (isl r \<longrightarrow> 10 \<le> w')"
proof -
  have c: "clocked id (look job [''SUCCEEDED'']) fake_clock sleep_for"
    by (simp add: clocked_def look_def job_def sleep_for_def)
  from poll_until_terminal_ends [OF c, of 1 "\<lambda>t. ''10.0''" 10 0] obtain r w' where
    "poll_until_terminal (\<lambda>t. ''10.0'') job [''SUCCEEDED''] 10 1 fake_clock sleep_for 0 = Some (r, w')"
    "case r of
        Inr state \<Rightarrow> state \<in> set [''SUCCEEDED''] \<and> (\<exists>v. job v = (Inr state, w'))
      | Inl e \<Rightarrow> (\<exists>v. job v = (Inl e, w')) \<or> (\<exists>v. sleep_for 1 v = (Inl e, w')) \<or>
          isinstance e TimeoutError \<and> fst (fake_clock 0) + 10 \<le> id w'" by auto
  then show ?thesis by (cases r) (auto simp: job_def sleep_for_def)
qed

end
