(* ===== verification/Athena.thy ===== *)
theory Athena
  imports Polling Json
begin

section \<open>Safe Athena queries\<close>

text \<open>
  Models \<^verbatim>\<open>scope-core/src/scope_core/athena.py\<close>. The boto3 client is not part of the sources: it is a
  record of callbacks on a world, each returning the parts of its response the code reads (the query
  identifier, the state with its reason, the cells of the result rows). The monotonic clock and the
  sleep of the wait loop are callbacks too, and \<open>ac_float_str\<close> is \<^verbatim>\<open>str\<close> of a float.
\<close>

definition terminal_states :: "string list" where
  "terminal_states = [''SUCCEEDED'', ''FAILED'', ''CANCELLED'']"

subsection \<open>Identifiers\<close>

text \<open>A caller's value: a string, a number (an integer, a Boolean or a float, with its \<^verbatim>\<open>repr\<close>),
  another object that can be hashed, named by its \<^verbatim>\<open>repr\<close>, or one that cannot (a list or a
  dictionary), with its type and \<^verbatim>\<open>repr\<close>. Numbers of equal value are equal: \<^verbatim>\<open>1 == True == 1.0\<close>.\<close>

datatype pyval = VStr string | VNum rat string | VObj string | VUnhashable string string

definition repr_of :: "pyval \<Rightarrow> string" where
  "repr_of v =
     (case v of VStr s \<Rightarrow> py_repr s | VNum _ r \<Rightarrow> r | VObj r \<Rightarrow> r | VUnhashable _ r \<Rightarrow> r)"

fun py_eq :: "pyval \<Rightarrow> pyval \<Rightarrow> bool" where
  "py_eq (VNum a _) (VNum b _) = (a = b)"
| "py_eq v w = (v = w)"

text \<open>\<^verbatim>\<open>hash(v)\<close>, which a set calls when it is built and when it is asked.\<close>

definition hash_error :: "pyval \<Rightarrow> exn option" where
  "hash_error v =
     (case v of
        VUnhashable t _ \<Rightarrow>
          Some (mk_exn TypeError (''unhashable type: '' @ [CHR 0x27] @ t @ [CHR 0x27]))
      | _ \<Rightarrow> None)"

fun as_set :: "pyval list \<Rightarrow> exn + pyval list" where
  "as_set [] = Inr []"
| "as_set (v # vs) =
     (case hash_error v of
        Some e \<Rightarrow> Inl e
      | None \<Rightarrow> (case as_set vs of Inl e \<Rightarrow> Inl e | Inr s \<Rightarrow> Inr (v # s)))"

definition validate_in_allowlist :: "pyval \<Rightarrow> pyval list \<Rightarrow> string \<Rightarrow> exn + pyval" where
  "validate_in_allowlist val allowed field =
     (case as_set allowed of
        Inl e \<Rightarrow> Inl e
      | Inr allowed_set \<Rightarrow>
          (case hash_error val of
             Some e \<Rightarrow> Inl e
           | None \<Rightarrow>
               if \<not> list_ex (py_eq val) allowed_set
               then Inl (mk_exn IdentifierError (''Disallowed '' @ field @ '': '' @ repr_of val))
               else Inr val))"

text \<open>What a value has to be to pass: something a set can hold, and equal to a member.\<close>

definition permitted :: "pyval \<Rightarrow> pyval list \<Rightarrow> bool" where
  "permitted val allowed \<longleftrightarrow>
     (\<forall>v \<in> set (val # allowed). hash_error v = None) \<and> (\<exists>v \<in> set allowed. py_eq val v)"

lemma hash_error_class: "hash_error v = Some e \<Longrightarrow> isinstance e TypeError"
  by (auto simp: hash_error_def split: pyval.splits)

lemma as_set_result:
  "case as_set vs of
     Inl e \<Rightarrow> isinstance e TypeError \<and> (\<exists>v \<in> set vs. hash_error v \<noteq> None)
   | Inr s \<Rightarrow> s = vs \<and> (\<forall>v \<in> set vs. hash_error v = None)"
  by (induction vs) (auto split: option.splits sum.splits dest: hash_error_class)

lemma validated:
  "validate_in_allowlist val allowed field = Inr v \<longleftrightarrow> v = val \<and> permitted val allowed"
  using as_set_result [of allowed]
  by (auto simp: validate_in_allowlist_def permitted_def list_ex_iff split: sum.splits option.splits)

lemma not_validated:
  "validate_in_allowlist val allowed field = Inl e \<Longrightarrow>
     \<not> permitted val allowed \<and>
     (isinstance e TypeError \<or>
      e = mk_exn IdentifierError (''Disallowed '' @ field @ '': '' @ repr_of val))"
  using as_set_result [of allowed]
  by (auto simp: validate_in_allowlist_def permitted_def list_ex_iff hash_error_class
      split: sum.splits option.splits if_splits)

definition ident_start :: "char \<Rightarrow> bool" where
  "ident_start c =
     (let n = (of_char c :: nat) in 65 \<le> n \<and> n \<le> 90 \<or> 97 \<le> n \<and> n \<le> 122 \<or> n = 95)"

definition ident_char :: "char \<Rightarrow> bool" where
  "ident_char c = (ident_start c \<or> is_digit c)"

definition ident_word :: "string \<Rightarrow> bool" where
  "ident_word s = (case s of [] \<Rightarrow> False | c # cs \<Rightarrow> ident_start c \<and> list_all ident_char cs)"

fun split_dots :: "string \<Rightarrow> string \<Rightarrow> string list" where
  "split_dots part [] = [part]"
| "split_dots part (c # cs) =
     (if c = CHR ''.'' then part # split_dots [] cs else split_dots (part @ [c]) cs)"

text \<open>The pattern between its anchors, then with them: \<^verbatim>\<open>$\<close> also matches before a final newline.\<close>

definition dotted_identifier :: "string \<Rightarrow> bool" where
  "dotted_identifier s = list_all ident_word (split_dots [] s)"

definition identifier_re :: "string \<Rightarrow> bool" where
  "identifier_re s =
     (dotted_identifier s \<or> s \<noteq> [] \<and> List.last s = CHR 0x0A \<and> dotted_identifier (butlast s))"

definition validate_identifier :: "pyval \<Rightarrow> string \<Rightarrow> exn + string" where
  "validate_identifier val field =
     (case val of
        VStr s \<Rightarrow>
          if identifier_re s then Inr s
          else Inl (mk_exn IdentifierError (''Invalid '' @ field @ '': '' @ repr_of val))
      | _ \<Rightarrow> Inl (mk_exn IdentifierError (''Invalid '' @ field @ '': '' @ repr_of val)))"

subsection \<open>The client\<close>

record query_request =
  qr_query :: string
  qr_database :: string
  qr_output :: string
  qr_params :: "string list option"

record 'w athena_service =
  as_start :: "query_request \<Rightarrow> ('w, string) callback"
  as_status :: "string \<Rightarrow> ('w, string \<times> string option) callback"
  as_results :: "string \<Rightarrow> int \<Rightarrow> ('w, string option list list) callback"

record 'w athena_client =
  ac_service :: "'w athena_service"
  ac_database :: string
  ac_output :: string
  ac_timeout :: rat
  ac_interval :: rat
  ac_now :: "'w clock"
  ac_sleep :: "rat \<Rightarrow> ('w, unit) callback"
  ac_float_str :: "rat \<Rightarrow> string"

definition start_query ::
  "'w athena_client \<Rightarrow> string \<Rightarrow> string option \<Rightarrow> string list option \<Rightarrow> ('w, string) callback" where
  "start_query c query output params w =
     as_start (ac_service c)
       \<lparr>qr_query = query, qr_database = ac_database c,
        qr_output = (case output of None \<Rightarrow> ac_output c | Some q \<Rightarrow> if q = [] then ac_output c else q),
        qr_params = (case params of None \<Rightarrow> None | Some ps \<Rightarrow> if ps = [] then None else Some ps)\<rparr> w"

text \<open>One round of \<^verbatim>\<open>wait\<close> up to the deadline check.\<close>

definition wait_look ::
  "'w athena_client \<Rightarrow> string \<Rightarrow> 'w \<Rightarrow> (exn + (string + string)) \<times> 'w" where
  "wait_look c qid w =
     (case as_status (ac_service c) qid w of
        (Inl e, w1) \<Rightarrow> (Inl e, w1)
      | (Inr (state, reason), w1) \<Rightarrow>
          (if List.member terminal_states state then
             if state \<noteq> ''SUCCEEDED''
             then (Inl (mk_exn AthenaQueryError
                    (''Athena query '' @ qid @ '' '' @ state @ '': '' @
                     (case reason of None \<Rightarrow> ''no reason given'' | Some r \<Rightarrow> r))), w1)
             else (Inr (Inr state), w1)
           else (Inr (Inl state), w1)))"

definition wait_late :: "string \<Rightarrow> string \<Rightarrow> string \<Rightarrow> exn" where
  "wait_late qid seconds state =
     mk_exn AthenaTimeoutError (''Athena query '' @ qid @ '' did not finish within '' @ seconds @ ''s'')"

definition wait_query ::
  "'w athena_client \<Rightarrow> string \<Rightarrow> rat option \<Rightarrow> rat option \<Rightarrow> 'w \<Rightarrow> ((exn + string) \<times> 'w) option" where
  "wait_query c qid timeout interval w =
     (let max_wait = (case timeout of None \<Rightarrow> ac_timeout c | Some t \<Rightarrow> t);
          pause = (case interval of None \<Rightarrow> ac_interval c | Some i \<Rightarrow> i) in
      case ac_now c w of
        (start, w1) \<Rightarrow>
          poll_loop (wait_look c qid) (wait_late qid (ac_float_str c max_wait)) (start + max_wait) pause (ac_now c) (ac_sleep c) w1)"

text \<open>\<^verbatim>\<open>dict(zip(header, cells))\<close>: a repeated column name keeps the last cell.\<close>

type_synonym row = "(string \<times> string option) list"

definition row_of :: "string list \<Rightarrow> string option list \<Rightarrow> row" where
  "row_of header cells = foldl (\<lambda>d (k, v). dict_set d k v) [] (zip header cells)"

definition rows_of :: "string option list list \<Rightarrow> row list" where
  "rows_of raw_rows =
     (case raw_rows of
        [] \<Rightarrow> []
      | h # raws \<Rightarrow>
          (let header = List.map (\<lambda>c. case c of None \<Rightarrow> [] | Some s \<Rightarrow> s) h in
           List.map (row_of header) raws))"

definition fetch_rows :: "'w athena_client \<Rightarrow> string \<Rightarrow> int \<Rightarrow> ('w, row list) callback" where
  "fetch_rows c qid max_results w =
     (case as_results (ac_service c) qid max_results w of
        (Inl e, w1) \<Rightarrow> (Inl e, w1)
      | (Inr raw_rows, w1) \<Rightarrow> (Inr (rows_of raw_rows), w1))"

record exec_result =
  er_qid :: string
  er_state :: string
  er_rows :: "row list option"

definition execute ::
  "'w athena_client \<Rightarrow> string \<Rightarrow> string list option \<Rightarrow> string option \<Rightarrow> bool \<Rightarrow> rat option \<Rightarrow> int \<Rightarrow>
   'w \<Rightarrow> ((exn + exec_result) \<times> 'w) option" where
  "execute c query params output fetch timeout max_results w =
     (case start_query c query output params w of
        (Inl e, w1) \<Rightarrow> Some (Inl e, w1)
      | (Inr qid, w1) \<Rightarrow>
          (case wait_query c qid timeout None w1 of
             None \<Rightarrow> None
           | Some (Inl e, w2) \<Rightarrow> Some (Inl e, w2)
           | Some (Inr state, w2) \<Rightarrow>
               (if fetch then
                  (case fetch_rows c qid max_results w2 of
                     (Inl e, w3) \<Rightarrow> Some (Inl e, w3)
                   | (Inr rows, w3) \<Rightarrow>
                       Some (Inr \<lparr>er_qid = qid, er_state = state, er_rows = Some rows\<rparr>, w3))
                else Some (Inr \<lparr>er_qid = qid, er_state = state, er_rows = None\<rparr>, w2))))"

subsection \<open>Waiting\<close>

definition client_clocked :: "('w \<Rightarrow> rat) \<Rightarrow> 'w athena_client \<Rightarrow> bool" where
  "client_clocked time c \<longleftrightarrow> (\<forall>qid. clocked time (wait_look c qid) (ac_now c) (ac_sleep c))"

lemma wait_query_result:
  assumes "client_clocked time c" "0 < (case interval of None \<Rightarrow> ac_interval c | Some i \<Rightarrow> i)"
  shows "\<exists>r w'. wait_query c qid timeout interval w = Some (r, w') \<and>
    (case r of
       Inr state \<Rightarrow> state = ''SUCCEEDED'' \<and> (\<exists>v reason. as_status (ac_service c) qid v = (Inr (state, reason), w'))
     | Inl e \<Rightarrow>
         (\<exists>v. as_status (ac_service c) qid v = (Inl e, w')) \<or> (\<exists>v d. ac_sleep c d v = (Inl e, w')) \<or>
         isinstance e AthenaQueryError \<and>
           (\<exists>v state reason. as_status (ac_service c) qid v = (Inr (state, reason), w') \<and>
              state \<in> {''FAILED'', ''CANCELLED''}) \<or>
         e = wait_late qid (ac_float_str c (case timeout of None \<Rightarrow> ac_timeout c | Some t \<Rightarrow> t)) [] \<and>
           fst (ac_now c w) + (case timeout of None \<Rightarrow> ac_timeout c | Some t \<Rightarrow> t) \<le> time w')"
proof -
  let ?pause = "case interval of None \<Rightarrow> ac_interval c | Some i \<Rightarrow> i"
  let ?max = "case timeout of None \<Rightarrow> ac_timeout c | Some t \<Rightarrow> t"
  have clk: "clocked time (wait_look c qid) (ac_now c) (ac_sleep c)"
    using assms(1) by (simp add: client_clocked_def)
  obtain start w1 where w1: "ac_now c w = (start, w1)" by (rule prod.exhaust)
  have now: "t = time v'" if "ac_now c v = (t, v')" for t v v'
    using clk that by (metis clocked_def fst_conv snd_conv)
  have "(start + ?max) - time w1 \<le> of_nat (looks_needed ?max ?pause) * ?pause"
    using looks_enough [OF assms(2), of ?max] now [OF w1] by simp
  from poll_terminates_within [OF clk assms(2) this, of "wait_late qid (ac_float_str c ?max)"] obtain k r w' where
    ends: "poll_ends (wait_look c qid) (wait_late qid (ac_float_str c ?max)) (start + ?max) ?pause (ac_now c) (ac_sleep c) k w1 r w'"
    by blast
  have look: "wait_look c qid v = (Inr (Inr a), w') \<Longrightarrow>
      a = ''SUCCEEDED'' \<and> (\<exists>reason. as_status (ac_service c) qid v = (Inr (a, reason), w'))"
    "wait_look c qid v = (Inl e, w') \<Longrightarrow> as_status (ac_service c) qid v = (Inl e, w') \<or>
      isinstance e AthenaQueryError \<and> (\<exists>state reason. as_status (ac_service c) qid v = (Inr (state, reason), w') \<and>
        state \<in> {''FAILED'', ''CANCELLED''})" for v a e
    by (auto simp: wait_look_def terminal_states_def split: prod.splits sum.splits if_splits)
  have late: "wait_late qid m s = wait_late qid m []" for m s by (simp add: wait_late_def)
  have "case r of
       Inr state \<Rightarrow> state = ''SUCCEEDED'' \<and> (\<exists>v reason. as_status (ac_service c) qid v = (Inr (state, reason), w'))
     | Inl e \<Rightarrow>
         (\<exists>v. as_status (ac_service c) qid v = (Inl e, w')) \<or> (\<exists>v d. ac_sleep c d v = (Inl e, w')) \<or>
         isinstance e AthenaQueryError \<and>
           (\<exists>v state reason. as_status (ac_service c) qid v = (Inr (state, reason), w') \<and>
              state \<in> {''FAILED'', ''CANCELLED''}) \<or>
         e = wait_late qid (ac_float_str c ?max) [] \<and> start + ?max \<le> time w'"
  proof (cases r)
    case (Inr a)
    with poll_ends_result [OF ends] look(1) show ?thesis by fastforce
  next
    case (Inl e)
    from poll_ends_result [OF ends] consider v where "wait_look c qid v = (Inl e, w')"
      | v where "ac_sleep c ?pause v = (Inl e, w')"
      | s v t where "e = wait_late qid (ac_float_str c ?max) s" "ac_now c v = (t, w')" "start + ?max \<le> t"
      unfolding Inl by auto
    then show ?thesis
    proof cases
      case 1 with look(2) Inl show ?thesis by (simp only: sum.case) blast
    next
      case 2 with Inl show ?thesis by (simp only: sum.case) blast
    next
      case 3 with now [OF 3(2)] late [of _ s] Inl show ?thesis by (simp only: sum.case simp_thms)
    qed
  qed
  with poll_ends_run [OF ends] show ?thesis
    unfolding wait_query_def Let_def w1 fst_conv prod.case by (intro exI [of _ r] exI [of _ w']) simp
qed

lemma ex2_conj_mono:
  "\<exists>r w. A r w \<and> C r w \<Longrightarrow> (\<And>r w. C r w \<Longrightarrow> D r w) \<Longrightarrow> \<exists>r w. A r w \<and> D r w"
  by blast

lemma wait_query_returns:
  assumes "client_clocked time c" "0 < (case interval of None \<Rightarrow> ac_interval c | Some i \<Rightarrow> i)"
  shows "\<exists>r w'. wait_query c qid timeout interval w = Some (r, w') \<and>
    (\<forall>state. r = Inr state \<longrightarrow> state = ''SUCCEEDED'' \<and>
      (\<exists>v reason. as_status (ac_service c) qid v = (Inr (''SUCCEEDED'', reason), w')))"
  using wait_query_result [OF assms, of qid timeout w]
  by (rule ex2_conj_mono) auto

subsection \<open>Rows\<close>

lemma row_of_fold:
  "distinct (List.map fst d) \<Longrightarrow>
     distinct (List.map fst (foldl (\<lambda>d (k, v). dict_set d k v) d kvs)) \<and>
     dict_get (foldl (\<lambda>d (k, v). dict_set d k v) d kvs) k =
       (case map_of (rev kvs) k of None \<Rightarrow> dict_get d k | Some v \<Rightarrow> Some v)"
proof (induction kvs arbitrary: d)
  case (Cons m kvs)
  obtain j v where m: "m = (j, v)" by (rule prod.exhaust)
  from Cons.IH [OF dict_set_keys [OF Cons.prems, of j v]] m show ?case
    by (auto simp: map_add_def split: option.splits)
qed simp

lemma row_of_distinct: "distinct header \<Longrightarrow> row_of header cells = zip header cells"
proof -
  have "distinct (List.map fst (d @ zip header cells)) \<Longrightarrow>
      foldl (\<lambda>d (k, v). dict_set d k v) d (zip header cells) = d @ zip header cells" for d :: row
  proof (induction header cells arbitrary: d rule: list_induct2')
    case (4 h hs c cs)
    then have "dict_set d h c = d @ [(h, c)]" by (intro dict_set_new) auto
    with 4 show ?case by simp
  qed simp_all
  moreover assume "distinct header"
  then have "distinct (List.map fst (zip header cells))"
    by (simp add: map_fst_zip_take)
  ultimately show ?thesis by (simp add: row_of_def)
qed

subsection \<open>Properties\<close>

lemma execute_cases:
  assumes "client_clocked time c" and "0 < ac_interval c"
  shows "\<exists>r w'. execute c query params output fetch timeout max_results w = Some (r, w') \<and>
     (case r of
        Inl e \<Rightarrow> True
      | Inr res \<Rightarrow>
          er_state res = ''SUCCEEDED'' \<and>
          (\<exists>rq w1. as_start (ac_service c) rq w = (Inr (er_qid res), w1) \<and> qr_query rq = query \<and>
             qr_database rq = ac_database c \<and>
             qr_params rq = (if params = Some [] then None else params)) \<and>
          (\<exists>v reason v'. as_status (ac_service c) (er_qid res) v = (Inr (''SUCCEEDED'', reason), v')) \<and>
          (if fetch
           then (\<exists>v raw. as_results (ac_service c) (er_qid res) max_results v = (Inr raw, w') \<and>
                   er_rows res = Some (rows_of raw))
           else er_rows res = None))"
proof -
  obtain q w1 where start: "start_query c query output params w = (q, w1)" by (rule prod.exhaust)
  show ?thesis
  proof (cases q)
    case (Inl e)
    with start show ?thesis by (simp add: execute_def)
  next
    case (Inr qid)
    have "\<exists>rq. as_start (ac_service c) rq w = (Inr qid, w1) \<and> qr_query rq = query \<and>
        qr_database rq = ac_database c \<and> qr_params rq = (if params = Some [] then None else params)"
      using start Inr by (auto simp: start_query_def split: option.splits)
    moreover have "0 < (case None of None \<Rightarrow> ac_interval c | Some i \<Rightarrow> i)" using assms(2) by simp
    from wait_query_returns [OF assms(1) this, of qid timeout w1] obtain r w2 where
      wait: "wait_query c qid timeout None w1 = Some (r, w2)" and
      ok: "\<forall>state. r = Inr state \<longrightarrow> state = ''SUCCEEDED'' \<and>
          (\<exists>v reason. as_status (ac_service c) qid v = (Inr (''SUCCEEDED'', reason), w2))" by blast
    obtain p w3 where rows: "fetch_rows c qid max_results w2 = (p, w3)" by (rule prod.exhaust)
    have raw: "\<exists>raw. as_results (ac_service c) qid max_results w2 = (Inr raw, w3) \<and> rs = rows_of raw"
      if "p = Inr rs" for rs
      using rows that by (auto simp: fetch_rows_def split: prod.splits sum.splits)
    ultimately show ?thesis
      using start Inr wait ok rows by (cases r; cases p; cases fetch) (auto simp: execute_def)
  qed
qed

lemma execute_returns:
  assumes "client_clocked time c" "0 < ac_interval c"
  shows "\<exists>r w'. execute c query params output fetch timeout max_results w = Some (r, w') \<and>
    (\<forall>res. r = Inr res \<longrightarrow> er_state res = ''SUCCEEDED'')"
  using execute_cases [OF assms, of query params "output" fetch timeout max_results w]
  by (rule ex2_conj_mono) auto

text \<open>C15: a query is never taken for a success it was not: with a clock that moves, \<^verbatim>\<open>execute\<close> always
  returns or raises; when it returns, the query that was started had exactly the given text, database
  and parameters, the service reported \<^verbatim>\<open>SUCCEEDED\<close> for its identifier, and the rows are those of its
  result (or none were asked for).\<close>

theorem execute_only_success:
  assumes "client_clocked time c" and "0 < ac_interval c"
  shows "\<exists>r w'. execute c query params output fetch timeout max_results w = Some (r, w') \<and>
     (case r of
        Inl e \<Rightarrow> True
      | Inr res \<Rightarrow>
          er_state res = ''SUCCEEDED'' \<and>
          (\<exists>rq w1. as_start (ac_service c) rq w = (Inr (er_qid res), w1) \<and> qr_query rq = query \<and>
             qr_database rq = ac_database c \<and>
             qr_params rq = (if params = Some [] then None else params)) \<and>
          (\<exists>v reason v'. as_status (ac_service c) (er_qid res) v = (Inr (''SUCCEEDED'', reason), v')) \<and>
          (if fetch
           then (\<exists>v raw. as_results (ac_service c) (er_qid res) max_results v = (Inr raw, w') \<and>
                   er_rows res = Some (rows_of raw))
           else er_rows res = None))"
  using execute_cases [OF assms] .

text \<open>An example: a query that succeeds after two seconds.\<close>

definition demo_client :: "rat athena_client" where
  "demo_client = \<lparr>ac_service = \<lparr>as_start = \<lambda>rq w. (Inr ''q1'', w),
       as_status = \<lambda>qid w. (Inr (if 2 \<le> w then ''SUCCEEDED'' else ''RUNNING'', None), w),
       as_results = \<lambda>qid n w. (Inr [[Some ''c''], [Some ''1'']], w)\<rparr>,
     ac_database = ''db'', ac_output = ''s3://out'', ac_timeout = 120, ac_interval = 1,
     ac_now = fake_clock, ac_sleep = sleep_for, ac_float_str = \<lambda>t. ''120.0''\<rparr>"

lemma demo_clocked: "client_clocked id demo_client"
  by (simp add: client_clocked_def clocked_def demo_client_def wait_look_def sleep_for_def)

theorem execute_only_success_witness:
  "\<exists>r w'. execute demo_client ''SELECT 1'' None None True None 1000 0 = Some (r, w') \<and>
     (\<forall>res. r = Inr res \<longrightarrow> er_state res = ''SUCCEEDED'' \<and> er_rows res = Some [[(''c'', Some ''1'')]])"
proof -
  have i: "0 < ac_interval demo_client" by (simp add: demo_client_def)
  have raw: "rows_of [[Some ''c''], [Some ''1'']] = [[(''c'', Some ''1'')]]"
    by (simp add: rows_of_def row_of_def dict_set_def)
  have res: "as_results (ac_service demo_client) q n v = (Inr raws, w') \<Longrightarrow> raws = [[Some ''c''], [Some ''1'']]"
    for q n v raws w' by (simp add: demo_client_def)
  show ?thesis
    using execute_only_success [OF demo_clocked i, of "''SELECT 1''" None None True None 1000 0]
    by (rule ex2_conj_mono) (auto dest!: res simp: raw)
qed

text \<open>The shape of fetched rows: the header row is consumed and there is one dictionary per
  remaining row, in order; each column has the cell under it (missing cells at the end are left out);
  when two columns have the same name the dictionary has only the last of their cells.\<close>

theorem fetched_rows_shape:
  "rows_of [] = [] \<and> length (rows_of (h # raws)) = length raws \<and>
   (\<forall>i < length raws.
      distinct (List.map fst (rows_of (h # raws) ! i)) \<and>
      (\<forall>col. dict_get (rows_of (h # raws) ! i) col =
         map_of (rev (zip (List.map (case_option [] id) h) (raws ! i))) col) \<and>
      (distinct (List.map (case_option [] id) h) \<longrightarrow>
         rows_of (h # raws) ! i = zip (List.map (case_option [] id) h) (raws ! i)))"
proof -
  have h: "List.map (\<lambda>c. case c of None \<Rightarrow> [] | Some s \<Rightarrow> s) h = List.map (case_option [] id) h"
    by (rule map_cong) (auto split: option.splits)
  have "distinct (List.map fst (row_of hs cells)) \<and> dict_get (row_of hs cells) col = map_of (rev (zip hs cells)) col"
    for hs cells col
    using row_of_fold [of "[]" "zip hs cells" col] by (simp add: row_of_def dict_get_def split: option.splits)
  then show ?thesis by (simp add: rows_of_def h Let_def row_of_distinct)
qed

lemma split_dots_chars: "\<Union> (set ` set (split_dots part s)) \<union> {CHR ''.''} = set part \<union> set s \<union> {CHR ''.''}"
  by (induction part s rule: split_dots.induct) auto

lemma dotted_chars:
  assumes "dotted_identifier s" "c \<in> set s"
  shows "ident_char c \<or> c = CHR ''.''"
proof -
  from assms(2) split_dots_chars [of "[]" s] obtain p where "c = CHR ''.'' \<or> c \<in> set p \<and> p \<in> set (split_dots [] s)"
    by auto
  moreover have "ident_char c" if "c \<in> set p" "p \<in> set (split_dots [] s)"
  proof -
    have "ident_word p" using assms(1) that(2) by (simp add: dotted_identifier_def list_all_iff)
    with that(1) show ?thesis by (cases p) (auto simp: ident_word_def ident_char_def list_all_iff)
  qed
  ultimately show ?thesis by blast
qed

text \<open>What \<^verbatim>\<open>validate_identifier\<close> lets through: a string it returns is the string it was given, and
  is made of letters, digits, underscores and dots (no quote, blank, semicolon or comment sign), with
  one exception the pattern's \<^verbatim>\<open>$\<close> allows: a single newline at the end, so that a name with a
  trailing newline is accepted.\<close>

theorem identifier_accepted_chars:
  "(\<forall>s. validate_identifier v field = Inr s \<longrightarrow>
      v = VStr s \<and> (\<exists>body. (s = body \<or> s = body @ [CHR 0x0A]) \<and> body \<noteq> [] \<and>
        (\<forall>c \<in> set body. ident_char c \<or> c = CHR ''.''))) \<and>
   (\<forall>e. validate_identifier v field = Inl e \<longrightarrow> isinstance e IdentifierError \<and> isinstance e ValueError) \<and>
   validate_identifier (VStr (''prices'' @ [CHR 0x0A])) field = Inr (''prices'' @ [CHR 0x0A])"
proof (intro conjI allI impI)
  fix s
  assume "validate_identifier v field = Inr s"
  then have v: "v = VStr s" "identifier_re s"
    by (auto simp: validate_identifier_def split: pyval.splits if_splits)
  have ne: "body \<noteq> []" if "dotted_identifier body" for body
    using that by (auto simp: dotted_identifier_def ident_word_def)
  from v(2) obtain body where "dotted_identifier body" "s = body \<or> s = body @ [CHR 0x0A]"
    unfolding identifier_re_def by (metis append_butlast_last_id)
  with ne dotted_chars v(1) show "v = VStr s"
    "\<exists>body. (s = body \<or> s = body @ [CHR 0x0A]) \<and> body \<noteq> [] \<and> (\<forall>c \<in> set body. ident_char c \<or> c = CHR ''.'')"
    by blast+
next
  fix e
  assume "validate_identifier v field = Inl e"
  then show "isinstance e IdentifierError" "isinstance e ValueError"
    by (auto simp: validate_identifier_def split: pyval.splits if_splits)
next
  have "identifier_re (''prices'' @ [CHR 0x0A])" by code_simp
  then show "validate_identifier (VStr (''prices'' @ [CHR 0x0A])) field = Inr (''prices'' @ [CHR 0x0A])"
    by (simp add: validate_identifier_def)
qed

end
