(* ===== verification/Repository_Tests.thy ===== *)
theory Repository_Tests
  imports Recovery Onchain Verification_Gate Fastapi_Helpers
    Audit_Ledger Athena
begin

section \<open>The tests of the repository, on the model\<close>

text \<open>
  The Python packages come with tests. Those below are run on the definitions of the other theories,
  each under its own name and with the inputs and the outcomes that the test asserts, as a check that
  the model answers as the code does. A clock the test advances is the world itself, a counter the
  test keeps is the world of the function called.
\<close>

subsection \<open>\<^verbatim>\<open>test_circuit.py\<close>\<close>

definition fails :: "nat \<Rightarrow> rat \<Rightarrow> breaker \<Rightarrow> breaker" where
  "fails n t cb = ((\<lambda>cb. fst (record_failure fake_clock cb t)) ^^ n) cb"

definition test_breaker :: "int \<Rightarrow> rat \<Rightarrow> breaker" where
  "test_breaker threshold cooldown =
     \<lparr>cb_name = ''x'', cb_failure_threshold = threshold, cb_cooldown = cooldown, cb_half_open_max = 1,
      cb_state = CLOSED, cb_failure_count = 0, cb_opened_at = None, cb_half_open_calls = 0\<rparr>"

lemma test_breaker_new: "1 \<le> n \<Longrightarrow> 0 \<le> c \<Longrightarrow> new_breaker ''x'' n c 1 = Inr (test_breaker n c)"
  by (simp add: new_breaker_def test_breaker_def)

lemmas breaker_tests = test_breaker_def fails_def cb_op_defs eval_nat_numeral

lemma test_opens_after_threshold:
  "fst (read_state fake_clock (test_breaker 3 10) 0) = CLOSED"
  "fst (read_state fake_clock (fails 2 0 (test_breaker 3 10)) 0) = CLOSED"
  "fst (read_state fake_clock (fails 3 0 (test_breaker 3 10)) 0) = OPEN"
  "fst (allow fake_clock (fails 3 0 (test_breaker 3 10)) 0) = False"
  by (simp_all add: breaker_tests)

lemma test_half_opens_after_cooldown_then_closes_on_success:
  "let cb = fails 1 0 (test_breaker 1 10); (first, cb1, t1) = allow fake_clock cb (101 / 10);
       (second, cb2, t2) = allow fake_clock cb1 (101 / 10)
   in fst (read_state fake_clock cb 0) = OPEN \<and> \<not> fst (allow fake_clock cb 0) \<and>
      fst (read_state fake_clock cb (99 / 10)) = OPEN \<and>
      fst (read_state fake_clock cb (101 / 10)) = HALF_OPEN \<and> first \<and> \<not> second \<and>
      fst (read_state fake_clock (record_success cb2) (101 / 10)) = CLOSED"
  by (simp add: breaker_tests)

lemma test_half_open_failure_reopens:
  "let (s, cb, t) = read_state fake_clock (fails 1 0 (test_breaker 1 5)) 6
   in s = HALF_OPEN \<and> fst (read_state fake_clock (fails 1 6 cb) 6) = OPEN"
  by (simp add: breaker_tests)

lemma test_guard_raises_when_open:
  "let cb = fails 1 0 (test_breaker 1 5)
   in (\<exists>e. fst (guard fake_clock cb 0) = Inl e \<and> isinstance e CircuitOpenError) \<and>
      0 < fst (retry_after fake_clock cb 0)"
  by (simp add: breaker_tests guard_def circuit_open_error_def isinstance_Exn)

lemma test_reset:
  "fst (read_state fake_clock (fails 1 0 (test_breaker 1 30)) 0) = OPEN \<and>
   fst (read_state fake_clock (reset (fails 1 0 (test_breaker 1 30))) 0) = CLOSED \<and>
   cb_failure_count (reset (fails 1 0 (test_breaker 1 30))) = 0"
  by (simp add: breaker_tests)

subsection \<open>\<^verbatim>\<open>test_retry.py\<close>\<close>

text \<open>The world counts the calls and is its own clock; the random source is fixed at 0.\<close>

type_synonym lab = "nat \<times> rat"

definition lab_clock :: "lab clock" where
  "lab_clock w = (snd w, w)"

definition takes :: "rat \<Rightarrow> (nat \<Rightarrow> exn + 'a) \<Rightarrow> (lab, 'a) callback" where
  "takes d f w = (f (Suc (fst w)), Suc (fst w), snd w + d)"

definition test_policy :: "rat \<Rightarrow> int \<Rightarrow> exn + lab policy" where
  "test_policy timeout max_attempts =
     build_policy (\<lambda>w. (0, w)) timeout max_attempts (1 / 1000) 30 2 None default_retryable_status None None"

definition test_call :: "rat \<Rightarrow> int \<Rightarrow> rat \<Rightarrow> (nat \<Rightarrow> exn + 'a) \<Rightarrow> exn + (exn + 'a) \<times> lab" where
  "test_call timeout max_attempts d f =
     (case resilient TimeoutError lab_clock (\<lambda>t w. (fst w, snd w + t)) (test_policy timeout max_attempts)
         (Plain (takes d f)) of
        Inl e \<Rightarrow> Inl e | Inr call \<Rightarrow> Inr (call (0, 0)))"

definition http_error :: "int \<Rightarrow> exn" where
  "http_error code = Exn [Exception, BaseException] [] (no_attrs\<lparr>at_status := IntAttr code\<rparr>) None"

lemma upto_tests: "[0..<1] = [0::nat]" "[0..<2] = [0, 1 :: nat]" "[0..<3] = [0, 1, 2 :: nat]"
  "[0..<5] = [0, 1, 2, 3, 4 :: nat]"
  by (simp_all add: upt_rec)

lemmas retry_tests = test_call_def resilient_def test_policy_def build_policy_def post_init_def run_sync_def
  upto_tests four_attempts lab_clock_def takes_def cb_guard_def cb_failed_def cb_succeeded_def is_retryable_def
  status_of_def no_attrs_def sleep_sync_def backoff_def uniform_def float_pow_def float_limit_def
  default_retryable_status_def http_error_def

lemma test_timeout_sync_raises:
  "case test_call (5 / 100) 1 (2 / 10) (\<lambda>n. Inr ''ok'') of
     Inr (Inl e, w) \<Rightarrow> isinstance e TimeoutExceeded | _ \<Rightarrow> False"
  by (simp add: retry_tests timeout_exceeded_def)

lemma test_backoff_retry_then_success:
  "\<exists>t. test_call 1 4 0 (\<lambda>n. if n < 3 then Inl (mk_exn ValueError ''transient'') else Inr ''recovered'') =
     Inr (Inr ''recovered'', 3, t)"
  by (simp add: retry_tests)

lemma test_non_retryable_status_not_retried:
  "\<exists>t. test_call 1 5 0 (\<lambda>n. Inl (http_error 404) :: exn + unit) = Inr (Inl (http_error 404), 1, t)"
  by (simp add: retry_tests isinstance_Exn)

lemma test_retryable_status_is_retried:
  "\<exists>t. test_call 1 3 0 (\<lambda>n. Inl (http_error 503) :: exn + unit) = Inr (Inl (http_error 503), 3, t)"
  by (simp add: retry_tests isinstance_Exn)

lemma test_exhausted_raises_last_exc:
  "\<exists>w. test_call 1 2 0 (\<lambda>n. Inl (mk_exn RuntimeError ''nope'') :: exn + unit) =
     Inr (Inl (mk_exn RuntimeError ''nope''), w)"
  by (simp add: retry_tests)

lemma test_bad_timeout_rejected:
  "\<exists>e. test_call 0 3 0 (\<lambda>n. Inr (1::int)) = Inl e \<and> isinstance e ValueError"
  by (simp add: retry_tests)

lemma test_circuit_breaker_integration_blocks:
  "let call = run_sync (beside fake_clock) (beside_sleep (\<lambda>d t. t + d)) (beside (\<lambda>t. (Inl (mk_exn ValueError ''down''), t)))
         (sharing fake_clock (demo_policy None\<lparr>rp_max_attempts := 1\<rparr>)) :: (breaker \<times> rat, unit) callback;
       (r1, w1) = call (test_breaker 2 60, 0); (r2, w2) = call w1; (r3, w3) = call w2
   in r1 = Inl (mk_exn ValueError ''down'') \<and> r2 = r1 \<and>
      (\<exists>e. r3 = Inl e \<and> isinstance e CircuitOpenError)"
  by (simp add: run_sync_def upto_tests demo_policy_def sharing_def beside_def cb_guard_def cb_failed_def
      core_breaker_def guard_def breaker_tests is_retryable_def status_of_def no_attrs_def
      circuit_open_error_def isinstance_Exn)

lemma test_async_timeout:
  "case run_async TimeoutError (\<lambda>d w. w) (\<lambda>t w. Expired w) (demo_policy None\<lparr>rp_max_attempts := 1\<rparr>) () of
     (Inl e, w) \<Rightarrow> isinstance e TimeoutExceeded | (Inr (x :: unit), w) \<Rightarrow> False"
  by (simp add: run_async_def upto_tests cb_guard_def cb_failed_def wait_for_def wrapped_timeout_def Let_def)

lemma test_async_retry_then_success:
  "let (r, n, t) = run_async TimeoutError demo_sleep
     (\<lambda>t w. Finished (if Suc (fst w) < 2 then Inl (mk_exn ValueError ''transient'') else Inr ''ok'') (Suc (fst w), snd w))
     (demo_policy None) (0, 0)
   in r = Inr ''ok'' \<and> n = 2"
  by (simp add: run_async_def four_attempts cb_guard_def cb_failed_def cb_succeeded_def wait_for_def
      is_retryable_def status_of_def no_attrs_def demo_policy_def sleep_async_def backoff_def uniform_def
      float_pow_def float_limit_def demo_sleep_def)

subsection \<open>\<^verbatim>\<open>test_tiered.py\<close>\<close>

text \<open>The tests read the time of day; here it stands at 5000.\<close>

definition boom :: "string \<Rightarrow> (rat, 'v) callback" where
  "boom msg w = (Inl (mk_exn RuntimeError msg), w)"

definition resolved ::
  "(rat, 'v) callback \<Rightarrow> (rat, 'v hit) callback option \<Rightarrow> (rat, 'v) callback option \<Rightarrow> rat \<Rightarrow> rat option \<Rightarrow> 'v \<Rightarrow>
   'v outcome" where
  "resolved live cache mock max_age hard miss =
     fst (resolve_tiered fake_clock live cache mock max_age hard None miss 5000)"

lemmas tiered_tests = resolved_def resolve_tiered_def boom_def fail_def try_cache_def try_mock_def read_hit_def
  too_old_def badge_def human_age_def py_int_def tier_names hard_limit_error_def all_tiers_failed_def
  tier_failure_str_def raised_def

lemma test_live_hit_is_not_degraded:
  "resolved (idle (Inr (42::int))) None None 300 None 0 =
     Resolved \<lparr>tr_value = 42, tr_tier = LIVE, tr_degraded = False, tr_stale = False, tr_age = None,
       tr_failures = [], tr_badge = ''live''\<rparr>"
  by (simp add: tiered_tests)

lemma test_falls_back_to_cache_and_marks_degraded:
  "case resolved (boom ''upstream down'') (Some (idle (Inr (Cached (7::int) 5000)))) None 300 None 0 of
     Resolved r \<Rightarrow> tr_value r = 7 \<and> tr_tier r = CACHE \<and> tr_degraded r \<and> \<not> tr_stale r \<and>
       List.map tf_tier (tr_failures r) = [LIVE]
   | _ \<Rightarrow> False"
  by (simp add: tiered_tests)

lemma test_old_cache_hit_is_stale_but_still_returned:
  "case resolved (boom ''upstream down'') (Some (idle (Inr (Cached (7::int) 1400)))) None 1 None 0 of
     Resolved r \<Rightarrow> tr_value r = 7 \<and> tr_stale r \<and> occurs_in ''stale'' (tr_badge r) | _ \<Rightarrow> False"
  by (simp add: tiered_tests)

lemma test_bare_cached_value_has_no_age:
  "case resolved (boom ''upstream down'') (Some (idle (Inr (Bare (7::int))))) None 300 None 0 of
     Resolved r \<Rightarrow> tr_value r = 7 \<and> tr_tier r = CACHE \<and> tr_age r = None \<and> \<not> tr_stale r \<and> tr_badge r = ''cache''
   | _ \<Rightarrow> False"
  by (simp add: tiered_tests)

text \<open>\<^verbatim>\<open>None\<close> is the value the tests call \<^verbatim>\<open>None\<close>, the default miss sentinel.\<close>

lemma test_none_from_cache_is_a_miss_by_default:
  "case resolved (boom ''upstream down'') (Some (idle (Inr (Bare None)))) (Some (idle (Inr (Some (- 1 :: int))))) 300 None None of
     Resolved r \<Rightarrow> tr_tier r = MOCK \<and> List.map tf_tier (tr_failures r) = [LIVE, CACHE] | _ \<Rightarrow> False"
  by (simp add: tiered_tests)

lemma test_falsy_but_real_values_are_not_treated_as_a_miss:
  "case resolved (boom ''upstream down'') (Some (idle (Inr (Bare (Some (0::int)))))) None 300 None None of
     Resolved r \<Rightarrow> tr_value r = Some 0 \<and> tr_tier r = CACHE | _ \<Rightarrow> False"
  by (simp add: tiered_tests)

lemma test_hard_age_limit_skips_cache_and_falls_through_to_mock:
  "case resolved (boom ''upstream down'') (Some (idle (Inr (Cached (7::int) 1400)))) (Some (idle (Inr (- 1)))) 300 (Some 1) 0 of
     Resolved r \<Rightarrow> tr_tier r = MOCK \<and> tr_value r = - 1 | _ \<Rightarrow> False"
  by (simp add: tiered_tests)

lemma test_raises_rather_than_fabricating_when_no_mock_configured:
  "case resolved (boom ''live gone'') (Some (boom ''cache gone'')) None 300 None (0::int) of
     All_failed fs \<Rightarrow> List.map tf_tier fs = [LIVE, CACHE] \<and>
       occurs_in ''live gone'' (exn_str (all_tiers_failed fs)) \<and>
       occurs_in ''cache gone'' (exn_str (all_tiers_failed fs))
   | _ \<Rightarrow> False"
  by (simp add: tiered_tests)

lemma test_a_failing_mock_is_recorded_and_still_raises:
  "case resolved (boom ''upstream down'') (Some (boom ''upstream down'')) (Some (boom ''mock broke'')) 300 None (0::int) of
     All_failed fs \<Rightarrow> List.map tf_tier fs = [LIVE, CACHE, MOCK] | _ \<Rightarrow> False"
  by (simp add: tiered_tests)

subsection \<open>\<^verbatim>\<open>test_verification_gate.py\<close>\<close>

lemmas gate_tests = build_gate_def gate_constants is_clear_def gate_to_dict_def blocking_issues_lines_def
  py_strip_def is_space_def

lemma test_no_violations_is_clear_at_full_confidence:
  "\<exists>g. build_gate [] None = Inr g \<and> is_clear g \<and>
     gate_to_dict g = [(''status'', GStr ''CLEAR''), (''confidence'', GInt 100), (''violations'', GList [])]"
  by (simp add: gate_tests)

lemma test_one_violation:
  "\<exists>g. build_gate [''row 7 missing source_url''] None = Inr g \<and> vg_status g = ''REQUIRES_HUMAN_VERIFICATION'' \<and>
     vg_confidence g = 88 \<and> vg_violations g = [''row 7 missing source_url''] \<and> \<not> is_clear g"
  by (simp add: gate_tests)

lemma test_confidence_floors_and_never_goes_negative:
  "\<exists>g. build_gate (List.map (\<lambda>i. ''violation '' @ int_str i) [0..9]) None = Inr g \<and>
     vg_confidence g = CONFIDENCE_FLOOR \<and> length (vg_violations g) = 10"
  by (simp add: gate_tests upto_rec1)

lemma test_blank_strings_are_dropped:
  "\<exists>g. build_gate [''real'', [], ''   ''] None = Inr g \<and> vg_violations g = [''real'']"
  by (simp add: gate_tests)

lemma test_blocking_issues_lines_render_verbatim:
  "\<exists>g. build_gate [''a'', ''b''] None = Inr g \<and> blocking_issues_lines g = [''- a'', ''- b'']"
  by (simp add: gate_tests)

lemma test_severity_floor_hint_pins_one_violation_at_the_floor:
  "\<exists>g. build_gate [''transcript file is empty''] (Some SEVERITY_FLOOR) = Inr g \<and>
     vg_confidence g = CONFIDENCE_FLOOR \<and> vg_violations g = [''transcript file is empty''] \<and> \<not> is_clear g"
  by (simp add: gate_tests)

lemma test_severity_floor_hint_cannot_manufacture_a_violation_from_blank_input:
  "\<exists>g. build_gate [[], ''   ''] (Some SEVERITY_FLOOR) = Inr g \<and> vg_status g = CLEAR \<and>
     vg_confidence g = 100 \<and> vg_violations g = []"
  by (simp add: gate_tests)

lemma test_unknown_severity_hint_fails_loudly:
  "list_all (\<lambda>bad. case build_gate [''x''] (Some bad) of
     Inl e \<Rightarrow> isinstance e ValueError \<and> occurs_in ''severity_hint'' (exn_str e) | _ \<Rightarrow> False)
     [''Floor'', ''severe'', [], ''floor '']"
  by (simp add: gate_tests)

subsection \<open>\<^verbatim>\<open>test_client.py\<close>\<close>

text \<open>The provider of the tests: the state is fetched as given, the \<open>n\<close>-th submission waits for the \<open>n\<close>-th
  outcome, time stands still. The world lists what was handed to the signer.\<close>

definition provider_of :: "(nat \<Rightarrow> state_result) \<Rightarrow> (nat \<Rightarrow> exn + receipt) \<Rightarrow> (nat \<times> tx_context list) provider" where
  "provider_of state outcome =
     \<lparr>pv_fetch_state = (\<lambda>(k, txs). (Inr (state k), Suc k, txs)),
      pv_sign_send = (\<lambda>ctx (k, txs).
        (Inr \<lparr>sr_hash = ''0x'', sr_wait = (\<lambda>w. (outcome (length txs), w))\<rparr>, k, txs @ [ctx])),
      pv_monotonic = (\<lambda>w. (0, w)), pv_float_str = (\<lambda>x. ''120.0'')\<rparr>"

definition seven :: "nat \<Rightarrow> state_result" where
  "seven k = \<lparr>st_nonce = 7, st_fee = legacy_fee 100\<rparr>"

definition ok_receipt :: receipt where
  "ok_receipt = \<lparr>rc_status = SInt 1, rc_hash = Some ''0xok''\<rparr>"

definition send_test ::
  "(nat \<Rightarrow> state_result) \<Rightarrow> (nat \<Rightarrow> exn + receipt) \<Rightarrow> (nat \<times> tx_context list) send_opts \<Rightarrow>
   (exn + receipt) \<times> nat \<times> tx_context list" where
  "send_test state outcome opts = send_with_retry (provider_of state outcome) opts (0, [])"

lemma upto_attempts: "[1..3] = [1, 2, 3 :: int]" "[1..5] = [1, 2, 3, 4, 5 :: int]"
  by (simp_all add: upto_rec1)

lemmas client_tests = send_test_def send_with_retry_def provider_of_def seven_def ok_receipt_def default_opts_def
  already_submitted_def breaker_check_def initial_fee_def legacy_fee_def upto_attempts try_attempt_def
  with_timeout_def submit_and_wait_def is_receipt_success_def handle_error_def refresh_def is_nonce_too_low_def
  nonce_phrases_def is_retryable_write_def fatal_phrases_def bump_fee_def bump_def py_round_def
  int_as_float_def float_limit_def ob_failed_def ob_succeeded_def py_lower_def py_lower_char_def

lemma test_is_receipt_success_forms:
  "list_all (\<lambda>st. is_receipt_success \<lparr>rc_status = st, rc_hash = None\<rparr>) [SInt 1, SBool True, SStr ''success'']"
  "list_all (\<lambda>st. \<not> is_receipt_success \<lparr>rc_status = st, rc_hash = None\<rparr>) [SInt 0, SBool False, SStr ''reverted'']"
  by (simp_all add: client_tests)

lemma test_legacy_fee_bumps_strictly_each_attempt:
  "bump_fee ''legacy'' (legacy_fee 100) (1125 / 1000) = Inr (legacy_fee 113)"
  "\<exists>g > 113. bump_fee ''legacy'' (legacy_fee 113) (1125 / 1000) = Inr (legacy_fee g)"
  by (simp_all add: client_tests)

lemma test_tiny_fee_bumps_by_at_least_one_wei:
  "\<exists>g > 1. bump_fee ''legacy'' (legacy_fee 1) (101 / 100) = Inr (legacy_fee g)"
  by (simp add: client_tests)

lemma test_first_attempt_success:
  "let (r, k, txs) = send_test seven (\<lambda>n. Inr ok_receipt) (default_opts (\<lambda>d w. w))
   in r = Inr ok_receipt \<and> length txs = 1"
  by (simp add: client_tests)

lemma test_retry_then_success_with_gas_bump:
  "let (r, k, txs) = send_test seven
       (\<lambda>n. if n < 2 then Inl (mk_exn RuntimeError ''timeout waiting for receipt'') else Inr ok_receipt)
       (default_opts (\<lambda>d w. w)\<lparr>so_bump_factor := 3 / 2\<rparr>)
   in r = Inr ok_receipt \<and> List.map (\<lambda>tx. gas_price (tx_fee tx)) txs = [Some 100, Some 151, Some 227]"
  by (simp add: client_tests)

lemma test_nonce_too_low_triggers_refresh:
  "let (r, k, txs) = send_test
       (\<lambda>k. if k = 0 then \<lparr>st_nonce = 7, st_fee = legacy_fee 100\<rparr> else \<lparr>st_nonce = 9, st_fee = legacy_fee 150\<rparr>)
       (\<lambda>n. if n = 0 then Inl (mk_exn RuntimeError ''nonce too low'') else Inr ok_receipt) (default_opts (\<lambda>d w. w))
   in r = Inr ok_receipt \<and> k = 2 \<and> List.map tx_nonce txs = [7, 9]"
  by (simp add: client_tests)

lemma lower_n: "char_of (110 :: nat) = CHR ''n''"
  by code_simp

lemma test_nonce_too_low_phrasings:
  "list_all (\<lambda>msg. is_nonce_too_low (mk_exn RuntimeError msg)) [''nonce too low'', ''Nonce is too low'', ''invalid nonce'']"
  "\<not> is_nonce_too_low (mk_exn RuntimeError ''some other error'')"
  by (simp_all add: client_tests lower_n)

lemma test_success_assertion_raises_on_reverted_receipt:
  "\<exists>e. fst (send_test seven (\<lambda>n. Inr \<lparr>rc_status = SInt 0, rc_hash = Some ''0xbad''\<rparr>) (default_opts (\<lambda>d w. w))) = Inl e \<and>
     isinstance e TxFailedError"
  by (simp add: client_tests tx_failed_error_def write_error_def)

lemma test_retry_exhaustion:
  "\<exists>e. fst (send_test seven (\<lambda>n. Inl (mk_exn RuntimeError ''timeout'')) (default_opts (\<lambda>d w. w)\<lparr>so_max_attempts := 3\<rparr>)) = Inl e \<and>
     isinstance e RetryExhaustedError"
  by (simp add: client_tests retry_exhausted_error_def write_error_def)

lemma test_fail_fast_on_insufficient_funds:
  "let (r, k, txs) = send_test seven (\<lambda>n. Inl (mk_exn RuntimeError ''insufficient funds for gas'')) (default_opts (\<lambda>d w. w))
   in (\<exists>e. r = Inl e \<and> isinstance e NonRetryableError) \<and> length txs = 1"
  by (simp add: client_tests non_retryable_error_def write_error_def)

lemma test_circuit_breaker_half_opens_after_cooldown:
  "\<exists>b. new_onchain_breaker 1 5 = Inr b \<and>
     (let b1 = fst (ob_record_failure fake_clock b 1000)
      in fst (is_open fake_clock b1 1000) \<and> \<not> fst (is_open fake_clock b1 1006))"
  by (simp add: new_onchain_breaker_def ob_record_failure_def is_open_def assert_closed_def Let_def)

lemma test_idempotency_guard_blocks_duplicate:
  "let (r, k, txs) = send_test seven (\<lambda>n. Inr ok_receipt)
       (default_opts (\<lambda>d w. w)\<lparr>so_idempotency_key := Some ''job-42'', so_already_sent := Some (\<lambda>k w. (Inr (k = ''job-42''), w))\<rparr>)
   in (\<exists>e. r = Inl e \<and> at_code (exn_attrs e) = Some ''ALREADY_SENT'') \<and> txs = []"
  by (simp add: client_tests onchain_error_def write_error_def)

subsection \<open>\<^verbatim>\<open>test_athena.py\<close>\<close>

lemma test_validate_identifier_accepts_dotted:
  "validate_identifier (VStr ''db.table.col'') ''identifier'' = Inr ''db.table.col''"
  by (simp add: validate_identifier_def identifier_re_def dotted_identifier_def ident_word_def ident_start_def
      ident_char_def is_digit_def Let_def)

lemma test_validate_identifier_rejects_bad_shapes:
  "list_all (\<lambda>bad. case validate_identifier bad ''identifier'' of Inl e \<Rightarrow> isinstance e IdentifierError | _ \<Rightarrow> False)
     [VStr ''1abc'', VStr ''a b'', VStr ''a;b'', VStr ''drop table x'', VStr (''a'' @ [CHR 0x27] @ ''--''),
      VNum 42 ''42'', VObj ''None'']"
  by (simp add: validate_identifier_def identifier_re_def dotted_identifier_def ident_word_def ident_start_def
      ident_char_def is_digit_def Let_def)

lemma test_allowlist_rejects_injection_payload:
  "case validate_in_allowlist (VStr (''O'' @ [CHR 0x27] @ ''; DROP TABLE reits;--'')) [VStr ''O'', VStr ''PLD''] ''ticker'' of
     Inl e \<Rightarrow> isinstance e IdentifierError | _ \<Rightarrow> False"
  by (simp add: validate_in_allowlist_def hash_error_def)

lemma test_execute_returns_rows:
  "rows_of [[Some ''commodity_code'', Some ''latest_price''], [Some ''WTI'', Some ''80.5''], [Some ''BRENT'', Some ''84.2'']] =
     [[(''commodity_code'', Some ''WTI''), (''latest_price'', Some ''80.5'')],
      [(''commodity_code'', Some ''BRENT''), (''latest_price'', Some ''84.2'')]]"
  by (simp add: rows_of_def row_of_def dict_set_def)

subsection \<open>\<^verbatim>\<open>test_utils.py\<close>\<close>

text \<open>The world: the states and the clock readings still to come.\<close>

type_synonym script = "string list \<times> rat list"

definition script_clock :: "script clock" where
  "script_clock w = (hd (snd w), fst w, tl (snd w))"

definition poll_test :: "rat \<Rightarrow> string list \<Rightarrow> script \<Rightarrow> ((exn + string) \<times> script) option" where
  "poll_test timeout terminal =
     poll_until_terminal (\<lambda>t. ''1'') (\<lambda>w. (Inr (hd (fst w)), tl (fst w), snd w)) terminal timeout 0 script_clock
       (\<lambda>d w. (Inr (), w))"

lemmas poll_tests = poll_test_def poll_until_terminal_def script_clock_def look_def

lemma test_poll_until_terminal_returns_state:
  "\<exists>w. poll_test 100 [''SUCCEEDED'', ''FAILED''] ([''RUNNING'', ''RUNNING'', ''SUCCEEDED''], [0, 1, 2, 3, 4]) =
     Some (Inr ''SUCCEEDED'', w)"
  by (simp add: poll_tests, (subst poll_loop.simps, simp add: poll_tests)+)

lemma test_poll_until_terminal_times_out:
  "case poll_test 1 [''SUCCEEDED''] (replicate 4 ''RUNNING'', [0, 0, 1, 2, 3, 4, 5]) of
     Some (Inl e, w) \<Rightarrow> isinstance e TimeoutError | _ \<Rightarrow> False"
  by (simp add: poll_tests, (subst poll_loop.simps, simp add: poll_tests poll_late_def)+)

subsection \<open>\<^verbatim>\<open>test_fastapi_helpers.py\<close>\<close>

definition bearer :: "string \<Rightarrow> credentials option" where
  "bearer token = Some \<lparr>cr_scheme = ''Bearer'', cr_token = token\<rparr>"

lemmas auth_tests = require_auth_def bearer_def unauthorized_def compare_digest_def is_ascii_def
  py_lower_def py_lower_char_def

lemma lower_b: "char_of (98 :: nat) = CHR ''b''"
  by code_simp

lemma test_rejects_when_token_unset:
  "\<exists>d h. require_auth ''API_TOKEN'' Map.empty (bearer ''anything'') = Inl (Http_exception 503 d h)"
  by (simp add: auth_tests)

lemma test_rejects_on_mismatch:
  "\<exists>d h. require_auth ''API_TOKEN'' [''API_TOKEN'' \<mapsto> ''right-token''] (bearer ''wrong-token'') = Inl (Http_exception 401 d h)"
  by (simp add: auth_tests lower_b)

lemma test_rejects_when_missing_header:
  "\<exists>d h. require_auth ''API_TOKEN'' [''API_TOKEN'' \<mapsto> ''right-token''] None = Inl (Http_exception 401 d h)"
  by (simp add: auth_tests)

lemma test_accepts_valid_token:
  "require_auth ''API_TOKEN'' [''API_TOKEN'' \<mapsto> ''right-token''] (bearer ''right-token'') = Inr ''right-token''"
  by (simp add: auth_tests lower_b)

lemma test_cors_allowlist_rejects_wildcard_with_credentials:
  "\<exists>msg. cors_allowlist [''*''] True None None = Inl (Value_error msg)"
  by (simp add: cors_allowlist_def)

lemma test_cors_allowlist_ok:
  "\<exists>cfg. cors_allowlist [''https://app.example.com''] True None None = Inr cfg \<and>
     allow_origins cfg = [''https://app.example.com''] \<and> allow_creds cfg"
  by (simp add: cors_allowlist_def)

lemma test_cors_wildcard_allowed_without_credentials:
  "\<exists>cfg. cors_allowlist [''*''] False None None = Inr cfg \<and> allow_origins cfg = [''*'']"
  by (simp add: cors_allowlist_def)

subsection \<open>\<^verbatim>\<open>test_audit_ledger.py\<close>\<close>

text \<open>Path confinement, with the temporary directory of a test as the base; the test of the signature is
  \<open>cross_language_signature\<close> of theory \<open>Ledger_Mac\<close>.\<close>

definition confined :: "string \<Rightarrow> exn + string list" where
  "confined = confine_path [''home''] (Some ''/tmp/test'')"

lemmas path_tests = confined_def confine_path_def resolve_parts_def resolve_step_def path_parts_def is_absolute_def

lemma test_paths_inside:
  "confined ''audit.jsonl'' = Inr [''tmp'', ''test'', ''audit.jsonl'']"
  "confined ''nested/audit.jsonl'' = Inr [''tmp'', ''test'', ''nested'', ''audit.jsonl'']"
  by (simp_all add: path_tests)

lemma test_paths_outside:
  "list_all (\<lambda>path. case confined path of
       Inl e \<Rightarrow> isinstance e ValueError \<and> occurs_in ''escapes allowed base directory'' (exn_str e) | Inr _ \<Rightarrow> False)
     [''../escaped.jsonl'', ''nested/../../escaped.jsonl'', ''/tmp/outside/audit.jsonl'']"
  by (simp add: path_tests)

end
