(* ===== verification/Audit_Properties.thy ===== *)
theory Audit_Properties
  imports Audit_Ledger
begin

section \<open>What the ledger guarantees\<close>

text \<open>
  Completeness (a ledger written by the code verifies, and holds what was appended), tamper evidence
  (two verifying ledgers with the same last signature have the same signed contents, or the mac is
  broken), what verification reports and what it cannot see, and the ways the code's own appends
  break the chain.
\<close>

definition text_of :: "string option \<Rightarrow> string" where
  "text_of content = (case content of None \<Rightarrow> [] | Some raw \<Rightarrow> raw)"

lemma resolve_key_Some [simp]: "resolve_key environ (Some k) = k"
  by (simp add: resolve_key_def)

lemma verify_ledger_parsed:
  "parse_lines fl (text_of content) = Inr rs \<Longrightarrow>
     verify_ledger mac fl environ key content =
       verify_from mac (resolve_key environ key) 0 (JStr []) rs"
  by (simp add: verify_ledger_def text_of_def split: option.splits)

lemma case_id_text: "case_option [] id content = text_of content"
  by (simp add: text_of_def split: option.split)

text \<open>An append of a good entry succeeds.\<close>

lemma append_succeeds:
  assumes "entry_ok fl e" "lg_last_sig l = JStr p"
  obtains sig l' content' where "append_entry mac now None e l content = (Inr sig, l', content')"
proof -
  let ?d = "base_record now e @ [(KStr ''prev_sig'', JStr p)]"
  have d: "dict_set (base_record now e) (KStr ''prev_sig'') (JStr p) = ?d"
    by (rule dict_set_new) (use base_record_keys in simp)
  have r: "dict_set ?d (KStr ''sig'') (JStr s) = ?d @ [(KStr ''sig'', JStr s)]" for s
    by (rule dict_set_new) (use base_record_keys(2) in auto)
  have ok: "json_ok fl (JObj (?d @ [(KStr ''sig'', JStr s)]))"
    "str_keyed (JObj (?d @ [(KStr ''sig'', JStr s)]))" for s
    using base_record_ok [OF assms(1), of now p s] by (simp_all add: record_ok_def record_fine_def)
  have "\<exists>q. signing_payload ?d = Inr q \<and> (\<forall>(k, v) \<in> set q. \<not> is_kint k \<and> serialisable f v)" for f
    using assms(1) str_keyed_serialisable
    by (auto simp: signing_payload_def signed_fields_def require_field_def optional_field_def dict_get_def
        base_record_def Let_def entry_ok_def split: option.splits)
  then obtain q where q: "signing_payload ?d = Inr q"
      "\<forall>(k, v) \<in> set q. \<not> is_kint k \<and> serialisable compact_format v" by blast
  then have "serialisable compact_format (JObj q)"
    by (auto simp: comparable_def list_all_iff)
  then obtain sig where "sign mac (lg_key l) ?d = Inr sig"
    using q(1) by (auto simp: sign_def canonical_json_def json_dumps_def)
  moreover have "json_dumps default_format (JObj (?d @ [(KStr ''sig'', JStr s)])) =
      Inr (json_text default_format (JObj (?d @ [(KStr ''sig'', JStr s)])))" for s
    using str_keyed_serialisable [OF ok] by (simp only: json_dumps_def if_True)
  ultimately show thesis
    using that assms(2) unfolding append_entry_def Let_def by (simp add: d r del: append.simps)
qed

lemma run_verified:
  assumes "ledger_inv mac fl (resolve_key environ key) es l content rs"
  shows "verify_ledger mac fl environ key content = verified (length es)"
    "parse_lines fl (text_of content) = Inr rs"
proof -
  note inv = assms [unfolded ledger_inv_def case_id_text]
  from inv show p: "parse_lines fl (text_of content) = Inr rs" using parse_ledger_text by simp
  have "verify_from mac (resolve_key environ key) 0 (JStr []) rs = verified (0 + length rs)"
    using inv by (subst verify_from_chain) simp
  moreover have "length rs = length es" using inv list_all2_lengthD by fastforce
  ultimately show "verify_ledger mac fl environ key content = verified (length es)"
    using verify_ledger_parsed [OF p] by simp
qed

subsection \<open>Completeness\<close>

text \<open>C1: take a ledger that was only written by its own appends, however often it was reopened and whichever
  other appends failed before they wrote, and whose entries are JSON-stable with string keys: in inputs,
  sources and confidence no dictionary has an integer key or two keys with one text, and floats are
  read back as they are written. It verifies with the number of appends as its count; reading its
  text back gives exactly the appended entries in order; and opening it again resumes the chain where
  it stopped. An entry with integer keys is accepted too, and the ledger may then fail to verify
  (theory \<open>Audit_Hazards\<close>).\<close>

theorem ledger_complete:
  assumes "ledger_history mac fl environ key es l content"
    and "\<forall>e \<in> set es. \<forall>v \<in> {en_inputs e, en_sources e} \<union> set_option (en_confidence e). json_ok fl v \<and> str_keyed v"
  shows "verify_method mac fl environ l content = verified (length es) \<and>
     (\<exists>rs. parse_lines fl (text_of content) = Inr rs \<and> list_all2 recorded es rs) \<and>
     open_ledger fl environ key content = Inr l"
proof -
  obtain rs where inv: "ledger_inv mac fl (resolve_key environ key) es l content rs"
    using ledger_run_inv [OF ledger_history_run [OF assms(1)]] assms(2) by (auto simp: list_all_iff entry_ok_def)
  then have key: "resolve_key environ (Some (lg_key l)) = resolve_key environ key"
    by (simp add: ledger_inv_def)
  have "verify_method mac fl environ l content = verified (length es)"
    using run_verified(1) [of mac fl environ "Some (lg_key l)"] inv key
    by (simp add: verify_method_def)
  with run_verified(2) [OF inv] open_ledger_resumes [OF inv] inv show ?thesis
    by (auto simp: ledger_inv_def)
qed

text \<open>An example: one decision, with floats read as they are written.\<close>

definition demo_entry :: entry where
  "demo_entry = \<lparr>en_event = ''decision'', en_actor = ''agent-1'',
     en_inputs = JObj [(KStr ''i'', JInt 1)], en_sources = JList [JStr ''src-a''],
     en_confidence = None, en_rationale = Some ''step'', en_ts = None\<rparr>"

definition demo_mac :: mac where
  "demo_mac k m = ''ab''"

lemma demo_entry_ok: "entry_ok fl demo_entry"
  by (simp add: entry_ok_def demo_entry_def)

theorem ledger_complete_witness:
  "\<exists>l content. ledger_history demo_mac id Map.empty None [demo_entry] l content \<and>
     verify_method demo_mac id Map.empty l content = verified 1"
proof -
  obtain l where l: "open_ledger id Map.empty None None = Inr l" "lg_last_sig l = JStr []"
    by (simp add: open_ledger_def)
  from append_succeeds [OF demo_entry_ok l(2)] obtain sig l' c'
    where "append_entry demo_mac ''2024-01-01'' None demo_entry l None = (Inr sig, l', c')" .
  from history_append [OF history_open [OF l(1)] this]
  have "ledger_history demo_mac id Map.empty None [demo_entry] l' c'" by simp
  with ledger_complete [OF this] show ?thesis by (auto simp: demo_entry_def)
qed

subsection \<open>Tamper evidence\<close>

text \<open>The message a record is signed with, the messages of a list of records, and what an attacker has
  to find among them: two with one signature, or one with the empty signature (the one the first record
  refers to).\<close>

definition message :: "dict \<Rightarrow> exn + string" where
  "message d = (case signing_payload d of Inl e \<Rightarrow> Inl e | Inr p \<Rightarrow> canonical_json (JObj p))"

lemma sign_message: "sign mac key d = (case message d of Inl e \<Rightarrow> Inl e | Inr m \<Rightarrow> Inr (mac key m))"
  by (simp add: sign_def message_def split: sum.split)

definition messages_of :: "json \<Rightarrow> string list" where
  "messages_of r = (case r of JObj d \<Rightarrow> (case message d of Inl e \<Rightarrow> [] | Inr m \<Rightarrow> [m]) | _ \<Rightarrow> [])"

definition signed_messages :: "json list \<Rightarrow> string list" where
  "signed_messages rs = concat (List.map messages_of rs)"

definition collides :: "mac \<Rightarrow> string \<Rightarrow> string list \<Rightarrow> bool" where
  "collides mac key ms \<longleftrightarrow>
     (\<exists>m \<in> set ms. \<exists>m' \<in> set ms. m \<noteq> m' \<and> mac key m = mac key m') \<or> (\<exists>m \<in> set ms. mac key m = [])"

lemma sign_signed:
  "sign mac key d = Inr t \<Longrightarrow> \<exists>m. mac key m = t \<and> message d = Inr m \<and> set (messages_of (JObj d)) = {m}"
  by (auto simp: sign_message messages_of_def split: sum.splits)

text \<open>The signed contents of two records agree up to the order of keys.\<close>

definition same_payload :: "json \<Rightarrow> json \<Rightarrow> bool" where
  "same_payload r r' \<longleftrightarrow>
     (\<exists>d d' p p'. r = JObj d \<and> r' = JObj d' \<and> signing_payload d = Inr p \<and> signing_payload d' = Inr p' \<and>
        loaded compact_format (JObj p) = loaded compact_format (JObj p'))"

lemma require_fields_result:
  "require_fields d ks = Inr p \<Longrightarrow>
     List.map fst p = List.map KStr ks \<and> (\<forall>(k, v) \<in> set p. dict_get d k = Some v)"
  by (induction ks arbitrary: p) (auto simp: require_field_def split: sum.splits option.splits)

lemma signing_payload_result:
  assumes "signing_payload d = Inr p"
  shows "\<forall>k \<in> fst ` set p. \<not> is_kint k" "distinct (List.map fst p)"
    "\<forall>(k, v) \<in> set p. dict_get d k = Some v"
    "dict_get p (KStr ''prev_sig'') = dict_get d (KStr ''prev_sig'')"
    "dict_get p (KStr ''inputs'') = dict_get d (KStr ''inputs'')"
proof -
  obtain q where q: "require_fields d signed_fields = Inr q"
    "p = q @ optional_field d ''confidence'' @ optional_field d ''rationale''"
    using assms by (auto simp: signing_payload_def split: sum.splits)
  note r = require_fields_result [OF q(1)]
  have o: "optional_field d k = [] \<or> (\<exists>v. optional_field d k = [(KStr k, v)] \<and> dict_get d (KStr k) = Some v)" for k
    by (auto simp: optional_field_def split: option.splits)
  have keys: "List.map fst p = List.map KStr signed_fields @
      List.map fst (optional_field d ''confidence'') @ List.map fst (optional_field d ''rationale'')"
    using r q(2) by simp
  have "set (List.map fst p) \<subseteq> range KStr"
    using o [of "''confidence''"] o [of "''rationale''"] unfolding keys by auto
  then show "\<forall>k \<in> fst ` set p. \<not> is_kint k" by auto
  show dist: "distinct (List.map fst p)"
    using o [of "''confidence''"] o [of "''rationale''"] unfolding keys by (auto simp: signed_fields_def)
  show all: "\<forall>(k, v) \<in> set p. dict_get d k = Some v"
    using r q(2) o [of "''confidence''"] o [of "''rationale''"] by auto
  have "dict_get p (KStr k) = dict_get d (KStr k)" if "k \<in> set signed_fields" for k
  proof -
    have "KStr k \<in> set (List.map fst p)" unfolding keys using that by simp
    then obtain v where v: "(KStr k, v) \<in> set p" by auto
    with dist all show ?thesis by (auto simp: dict_get_def)
  qed
  then show "dict_get p (KStr ''prev_sig'') = dict_get d (KStr ''prev_sig'')"
    "dict_get p (KStr ''inputs'') = dict_get d (KStr ''inputs'')"
    by (simp_all add: signed_fields_def)
qed

lemma sign_payload_equal:
  assumes "sign mac key d = Inr s" "sign mac key d' = Inr s" "json_ok fl (JObj d)" "json_ok fl (JObj d')"
    and "\<not> collides mac key ms" "set (messages_of (JObj d)) \<subseteq> set ms" "set (messages_of (JObj d')) \<subseteq> set ms"
  obtains "same_payload (JObj d) (JObj d')"
    and "map_option (loaded compact_format) (dict_get d (KStr ''prev_sig'')) =
      map_option (loaded compact_format) (dict_get d' (KStr ''prev_sig''))"
proof -
  let ?c = compact_format
  from sign_signed [OF assms(1)] obtain m where
    m: "mac key m = s" "message d = Inr m" "set (messages_of (JObj d)) = {m}" by blast
  from sign_signed [OF assms(2)] obtain m' where
    m': "mac key m' = s" "message d' = Inr m'" "set (messages_of (JObj d')) = {m'}" by blast
  have "m = m'" using m(1,3) m'(1,3) assms(5-7) unfolding collides_def by (metis insert_subset)
  from m(2) m'(2) obtain p p' where p: "signing_payload d = Inr p" "signing_payload d' = Inr p'"
    "canonical_json (JObj p) = Inr m" "canonical_json (JObj p') = Inr m'"
    by (auto simp: message_def split: sum.splits)
  with p \<open>m = m'\<close> have eq: "json_text ?c (JObj p) = json_text ?c (JObj p')"
    by (auto simp: canonical_json_def json_dumps_def split: if_splits)
  have ok: "json_ok fl (JObj q)" if "signing_payload e = Inr q" "json_ok fl (JObj e)" for e q
  proof -
    note r = signing_payload_result [OF that(1)]
    have "json_ok fl v" if "(k, v) \<in> set q" for k v
      using r(3) that \<open>json_ok fl (JObj e)\<close>
      by (fastforce simp: dict_get_def list_all_iff dest: map_of_SomeD)
    moreover have "distinct (List.map (\<lambda>m. key_str (fst m)) q)"
    proof -
      have "inj_on key_str (fst ` set q)"
        using r(1) by (intro inj_onI) (metis not_is_kint)
      with r(2) show ?thesis by (simp add: distinct_map comp_inj_on [of fst _ key_str, unfolded comp_def])
    qed
    ultimately show ?thesis by (auto simp: list_all_iff)
  qed
  have "loaded ?c (JObj p) = loaded ?c (JObj p')"
    using json_parse_text [OF ok [OF p(1) assms(3)], of ?c] json_parse_text [OF ok [OF p(2) assms(4)], of ?c] eq
    by simp
  with p have same: "same_payload (JObj d) (JObj d')" by (auto simp: same_payload_def)
  obtain q where q: "loaded ?c (JObj p) = JObj q" by simp
  then have "loaded ?c (JObj p') = JObj q" using \<open>loaded ?c (JObj p) = loaded ?c (JObj p')\<close> by simp
  from dict_get_loaded [OF signing_payload_result(1,2) [OF p(1)] q, of "''prev_sig''"]
    dict_get_loaded [OF signing_payload_result(1,2) [OF p(2)] this, of "''prev_sig''"]
  have "map_option (loaded ?c) (dict_get d (KStr ''prev_sig'')) =
      map_option (loaded ?c) (dict_get d' (KStr ''prev_sig''))"
    using signing_payload_result(4) [OF p(1)] signing_payload_result(4) [OF p(2)] by simp
  with same show thesis by (rule that)
qed

lemma chain_end_string: "chain_end mac key (JStr q) rs = Some s \<Longrightarrow> \<exists>t. s = JStr t"
  by (induction mac key "JStr q" rs arbitrary: q rule: chain_end.induct)
    (auto split: json.splits sum.splits if_splits)

lemma chain_end_snoc:
  assumes "chain_end mac key (JStr []) (rs @ [r]) = Some s"
  obtains d q t where "r = JObj d" "chain_end mac key (JStr []) rs = Some (JStr q)"
    "dict_get d (KStr ''prev_sig'') = Some (JStr q)" "sign mac key d = Inr t" "s = JStr t"
proof -
  from assms obtain p where p: "chain_end mac key (JStr []) rs = Some p" "chain_end mac key p [r] = Some s"
    by (auto simp: chain_end_append split: option.splits)
  obtain q where "p = JStr q" using chain_end_string [OF p(1)] by blast
  with p that show thesis by (auto split: json.splits sum.splits if_splits)
qed

lemma chains_agree:
  assumes "chain_end mac key (JStr []) rs = Some s" "chain_end mac key (JStr []) rs' = Some s"
    and "list_all (json_ok fl) rs" "list_all (json_ok fl) rs'" "\<not> collides mac key ms"
    and "set (signed_messages rs) \<subseteq> set ms" "set (signed_messages rs') \<subseteq> set ms"
  shows "list_all2 same_payload rs rs'"
  using assms(1-4,6,7)
proof (induction rs arbitrary: rs' s rule: rev_induct)
  case Nil
  show ?case
  proof (cases rs' rule: rev_exhaust)
    case (snoc qs r)
    from chain_end_snoc [OF Nil(2) [unfolded snoc]] obtain d t where
      "r = JObj d" "sign mac key d = Inr t" "s = JStr t" .
    with Nil(1) Nil.prems(6) snoc sign_signed [of mac key d t] assms(5) show ?thesis
      by (auto simp: collides_def signed_messages_def)
  qed simp
next
  case (snoc r rs)
  from chain_end_snoc [OF snoc(2)] obtain d q t where d: "r = JObj d"
    "chain_end mac key (JStr []) rs = Some (JStr q)" "dict_get d (KStr ''prev_sig'') = Some (JStr q)"
    "sign mac key d = Inr t" "s = JStr t" .
  show ?case
  proof (cases rs' rule: rev_exhaust)
    case Nil
    with snoc(3) d(5) have "t = []" by simp
    with sign_signed [OF d(4)] assms(5) snoc.prems(5) d(1) show ?thesis
      by (auto simp: collides_def signed_messages_def)
  next
    case (snoc qs r')
    from chain_end_snoc [OF snoc.prems(2) [unfolded snoc]] obtain d' q' t' where d': "r' = JObj d'"
      "chain_end mac key (JStr []) qs = Some (JStr q')" "dict_get d' (KStr ''prev_sig'') = Some (JStr q')"
      "sign mac key d' = Inr t'" "s = JStr t'" .
    then have "sign mac key d' = Inr t" using d(5) by simp
    note d' = d'(1-3) this
    have ok: "json_ok fl (JObj d)" "json_ok fl (JObj d')" using snoc.prems(3,4) snoc d(1) d'(1) by auto
    have "set (messages_of (JObj d)) \<subseteq> set ms" "set (messages_of (JObj d')) \<subseteq> set ms"
      using snoc.prems(5,6) snoc d(1) d'(1) by (auto simp: signed_messages_def)
    from sign_payload_equal [OF d(4) d'(4) ok assms(5) this] have
      "same_payload r r'" "q = q'" using d(1,3) d'(1,3) by auto
    moreover from this d(2) d'(2) snoc.prems snoc have "list_all2 same_payload rs qs"
      by (intro snoc.IH [of "JStr q" qs]) (auto simp: signed_messages_def)
    ultimately show ?thesis using snoc by (simp add: list_all2_appendI)
  qed
qed

lemma verified_chain:
  assumes "verify_ledger mac fl environ key (Some raw) = verified n"
  obtains rs where "parse_lines fl raw = Inr rs" "length rs = n"
    "chain_end mac (resolve_key environ key) (JStr []) rs \<noteq> None"
proof -
  from assms obtain rs where rs: "parse_lines fl raw = Inr rs"
    "verify_from mac (resolve_key environ key) 0 (JStr []) rs = verified n"
    by (auto simp: verify_ledger_def verified_def split: sum.splits)
  moreover have "verify_from mac (resolve_key environ key) 0 (JStr []) rs = verified (0 + length rs)"
    using verify_from_ok [OF rs(2) [unfolded verified_def]] rs(2) by (simp add: verified_def)
  ultimately have "length rs = n" by (simp add: verified_def)
  moreover have "chain_end mac (resolve_key environ key) (JStr []) rs \<noteq> None"
    using \<open>_ = verified (0 + length rs)\<close> by (subst (asm) verify_from_chain)
  ultimately show thesis using that rs(1) by blast
qed

lemma load_lines_ok:
  "float_codec fl \<Longrightarrow> load_lines fl ls = Inr rs \<Longrightarrow> list_all (json_ok fl) rs"
  by (induction fl ls arbitrary: rs rule: load_lines.induct)
    (auto split: if_splits sum.splits dest: json_loads_ok)

text \<open>The signature of the last record of a text.\<close>

definition final_sig :: "(string \<Rightarrow> string) \<Rightarrow> string \<Rightarrow> json option" where
  "final_sig fl raw =
     (case parse_lines fl raw of
        Inl e \<Rightarrow> None
      | Inr rs \<Rightarrow>
          if rs = [] then None
          else (case List.last rs of JObj d \<Rightarrow> dict_get d (KStr ''sig'') | _ \<Rightarrow> None))"

text \<open>The ledger is tamper-evident: take any two texts that both verify under a key and end in
  the same signature. Then they have the same number of records and every record has the same signed
  content, in the same order, or the two texts themselves exhibit a break of the mac: two of the
  messages they sign are different and have one digest, or one of them has the empty digest. So no
  interior line can be edited, dropped, added or moved without the final signature changing,
  verification failing, or a collision being at hand.\<close>

theorem tamper_evident:
  assumes "verify_ledger mac fl environ key (Some raw) = verified n"
    and "verify_ledger mac fl environ key (Some raw') = verified m"
    and "final_sig fl raw = final_sig fl raw'" and "float_codec fl"
  shows "\<exists>rs rs'. parse_lines fl raw = Inr rs \<and> parse_lines fl raw' = Inr rs' \<and>
     length rs = n \<and> length rs' = m \<and>
     (n = m \<and> list_all2 same_payload rs rs' \<or>
      collides mac (resolve_key environ key) (signed_messages (rs @ rs')))"
proof -
  let ?k = "resolve_key environ key"
  obtain rs where rs: "parse_lines fl raw = Inr rs" "length rs = n" "chain_end mac ?k (JStr []) rs \<noteq> None"
    using verified_chain [OF assms(1)] .
  obtain rs' where rs': "parse_lines fl raw' = Inr rs'" "length rs' = m" "chain_end mac ?k (JStr []) rs' \<noteq> None"
    using verified_chain [OF assms(2)] .
  have final: "final_sig fl t = (if ss = [] then None else chain_end mac ?k (JStr []) ss)"
    if "parse_lines fl t = Inr ss" "chain_end mac ?k (JStr []) ss \<noteq> None" for t ss
    using that chain_end_last [of mac ?k "JStr []" ss] by (auto simp: final_sig_def)
  have "chain_end mac ?k (JStr []) rs = chain_end mac ?k (JStr []) rs'"
    using final [OF rs(1,3)] final [OF rs'(1,3)] assms(3) rs(3) rs'(3)
    by (auto split: if_splits)
  moreover have "list_all (json_ok fl) rs" "list_all (json_ok fl) rs'"
    using rs(1) rs'(1) load_lines_ok [OF assms(4)] by (auto simp: parse_lines_def)
  ultimately have "list_all2 same_payload rs rs'" if "\<not> collides mac ?k (signed_messages (rs @ rs'))"
    using rs(3) chains_agree [OF _ _ _ _ that, of rs _ rs' fl] by (auto simp: signed_messages_def)
  with rs rs' list_all2_lengthD show ?thesis by blast
qed

text \<open>An example: the float reader that keeps every float at 0.5, and a ledger of one entry.\<close>

definition half :: "string \<Rightarrow> string" where
  "half t = (if t \<in> {''NaN'', ''Infinity'', ''-Infinity''} then t else ''0.5'')"

lemma half_codec: "float_codec half"
proof -
  have "scan_number ''0.5'' = Some (''0.5'', True, [])" by code_simp
  then show ?thesis by (auto simp: float_codec_def half_def float_token_def)
qed

lemma one_entry_run: "\<exists>raw. verify_ledger mac half Map.empty None (Some raw) = verified 1"
proof -
  obtain l where l: "open_ledger half Map.empty None None = Inr l" "lg_last_sig l = JStr []"
    by (simp add: open_ledger_def)
  from append_succeeds [OF demo_entry_ok l(2)] obtain sig l' c'
    where a: "append_entry mac ''2024-01-01'' None demo_entry l None = (Inr sig, l', c')" .
  from append_entry_success [OF a demo_entry_ok l(2)] obtain raw where "c' = Some raw" .
  with ledger_run_inv [OF run_append [OF run_open [OF l(1)] demo_entry_ok a]] run_verified(1) show ?thesis
    by fastforce
qed

subsection \<open>What verification reports\<close>

definition at_fault :: "mac \<Rightarrow> string \<Rightarrow> json \<Rightarrow> json list \<Rightarrow> nat \<Rightarrow> bool" where
  "at_fault mac key prev rs k \<longleftrightarrow>
     k < length rs \<and> chain_end mac key prev (take k rs) \<noteq> None \<and>
     chain_end mac key prev (take (Suc k) rs) = None"

lemma verify_from_first_break:
  "verify_from mac key i prev rs = Inr v \<Longrightarrow> \<not> vr_ok v \<Longrightarrow>
     \<exists>k. at_fault mac key prev rs k \<and> vr_tampered_index v = Some (int (i + k))"
proof (induction mac key i prev rs rule: verify_from.induct)
  case (2 mac key i prev r rs)
  then obtain d where d: "r = JObj d" by (auto split: json.splits)
  show ?case
  proof (cases "chain_end mac key prev [r] = None")
    case True
    with 2 d have "at_fault mac key prev (r # rs) 0" "vr_tampered_index v = Some (int i)"
      by (auto simp: at_fault_def broken_at_def split: sum.splits if_splits)
    then show ?thesis by force
  next
    case False
    then obtain t where t: "sign mac key d = Inr t" "dict_get d (KStr ''prev_sig'') = Some prev"
      "dict_get d (KStr ''sig'') = Some (JStr t)"
      using d by (auto split: sum.splits if_splits)
    with 2 d obtain k where "at_fault mac key (JStr t) rs k" "vr_tampered_index v = Some (int (Suc i + k))"
      by fastforce
    with t d have "at_fault mac key prev (r # rs) (Suc k)" by (simp add: at_fault_def)
    then show ?thesis using \<open>vr_tampered_index v = _\<close> by force
  qed
qed auto

lemma at_fault_broken: "at_fault mac key prev rs k \<Longrightarrow> chain_end mac key prev rs = None"
  using chain_end_append [of mac key prev "take (Suc k) rs" "drop (Suc k) rs"]
  by (simp add: at_fault_def)

text \<open>C19: a verdict is exact: when verification returns, it says ok exactly when the whole file is one
  chain of valid signatures, with the number of records as its count; otherwise the index it gives is
  the first line at which the chain breaks (everything before it is intact).\<close>

theorem verify_reports_first_break:
  assumes "verify_ledger mac fl environ key content = Inr v"
  shows "\<exists>rs. parse_lines fl (text_of content) = Inr rs \<and>
     (if vr_ok v
      then Inr v = verified (length rs) \<and> chain_end mac (resolve_key environ key) (JStr []) rs \<noteq> None
      else chain_end mac (resolve_key environ key) (JStr []) rs = None \<and>
        (\<exists>k. at_fault mac (resolve_key environ key) (JStr []) rs k \<and> vr_tampered_index v = Some (int k)))"
proof -
  let ?k = "resolve_key environ key"
  from assms obtain rs where rs: "parse_lines fl (text_of content) = Inr rs"
    "verify_from mac ?k 0 (JStr []) rs = Inr v"
    by (auto simp: verify_ledger_def text_of_def split: sum.splits option.splits)
  show ?thesis
  proof (cases "vr_ok v")
    case True
    with verify_from_ok [OF rs(2)] have v: "Inr v = verified (0 + length rs)" by simp
    with rs(2) have "chain_end mac ?k (JStr []) rs \<noteq> None"
      using verify_from_chain [of mac ?k 0 "JStr []" rs] by simp
    with v rs(1) True show ?thesis by auto
  next
    case False
    with verify_from_first_break [OF rs(2)] at_fault_broken [of mac ?k "JStr []" rs] rs(1)
    show ?thesis by auto
  qed
qed

theorem verify_reports_first_break_witness:
  "\<exists>rs. parse_lines id (text_of (Some ''{}'')) = Inr rs \<and>
     (\<exists>k. at_fault demo_mac DEFAULT_AUDIT_LEDGER_KEY (JStr []) rs k \<and> k = 0)"
proof -
  have p: "parse_lines id ''{}'' = Inr [JObj []]" by code_simp
  then have v: "verify_ledger demo_mac id Map.empty None (Some ''{}'') =
      Inr (broken_at 0 ''prev_sig mismatch: chain broken at line '')"
    by (simp add: verify_ledger_def dict_get_def)
  from verify_reports_first_break [OF v] p show ?thesis
    by (auto simp: broken_at_def text_of_def resolve_key_def)
qed

text \<open>What verification cannot see: cutting any number of lines off the end of a verifying ledger
  leaves a verifying ledger, and so does adding a field to a record, or changing it, as long as it is
  not one of the signed fields or \<^verbatim>\<open>sig\<close>; the module's text promises only interior lines, but does
  not mention the unsigned fields.\<close>

theorem verification_blind_spots:
  assumes "verify_from mac key 0 (JStr []) (rs @ JObj d # ss) = verified (length (rs @ JObj d # ss))"
    and "k \<notin> set payload_fields" and "k \<noteq> ''sig''"
  shows "verify_from mac key 0 (JStr []) rs = verified (length rs) \<and>
     verify_from mac key 0 (JStr []) (rs @ JObj (dict_set d (KStr k) v) # ss) =
       verified (length (rs @ JObj d # ss))"
proof -
  have ok: "verify_from mac key 0 (JStr []) qs = verified (length qs) \<longleftrightarrow>
      chain_end mac key (JStr []) qs \<noteq> None" for qs
    using verify_from_chain [of mac key 0 "JStr []" qs] by simp
  have c: "chain_end mac key (JStr []) (rs @ JObj d # ss) \<noteq> None" using assms(1) ok by blast
  then have "chain_end mac key (JStr []) rs \<noteq> None" by (auto simp: chain_end_append split: option.splits)
  moreover have "''prev_sig'' \<in> set payload_fields" by (simp add: payload_fields_def signed_fields_def)
  then have "chain_end mac key p (JObj (dict_set d (KStr k) v) # ss) = chain_end mac key p (JObj d # ss)" for p
    using assms(2,3) sign_ignores [OF assms(2), of mac key d v] by (auto cong: sum.case_cong)
  then have "chain_end mac key (JStr []) (rs @ JObj (dict_set d (KStr k) v) # ss) =
      chain_end mac key (JStr []) (rs @ JObj d # ss)"
    by (cases "chain_end mac key (JStr []) rs") (simp_all only: chain_end_append option.case)
  ultimately show ?thesis
    using c ok [of rs] ok [of "rs @ JObj (dict_set d (KStr k) v) # ss"] by simp
qed

definition tiny_record :: dict where
  "tiny_record = List.map (\<lambda>k. (KStr k, JStr [])) signed_fields @ [(KStr ''sig'', JStr ''ab'')]"

end
