(* ===== verification/Hmac_Sha256.thy ===== *)
theory Hmac_Sha256
  imports Json "HOL-Library.Word"
begin

unbundle bit_operations_syntax

section \<open>SHA-256 and HMAC\<close>

text \<open>
  What \<^verbatim>\<open>hmac.new(key, msg, sha256)\<close> in \<^verbatim>\<open>audit_ledger.py\<close> computes: the hash of FIPS 180-4 and
  the keyed hash of RFC 2104, of Python's standard library, on octets and 32-bit words that wrap
  around. The last part makes the simplifier compute with them.
\<close>

type_synonym octet = "8 word"
type_synonym word32 = "32 word"

subsection \<open>The compression function\<close>

definition rotr :: "nat \<Rightarrow> word32 \<Rightarrow> word32" where
  "rotr n x = drop_bit n x OR push_bit (32 - n) x"

definition upper0 :: "word32 \<Rightarrow> word32" where
  "upper0 x = rotr 2 x XOR rotr 13 x XOR rotr 22 x"

definition upper1 :: "word32 \<Rightarrow> word32" where
  "upper1 x = rotr 6 x XOR rotr 11 x XOR rotr 25 x"

definition lower0 :: "word32 \<Rightarrow> word32" where
  "lower0 x = rotr 7 x XOR rotr 18 x XOR drop_bit 3 x"

definition lower1 :: "word32 \<Rightarrow> word32" where
  "lower1 x = rotr 17 x XOR rotr 19 x XOR drop_bit 10 x"

definition choice :: "word32 \<Rightarrow> word32 \<Rightarrow> word32 \<Rightarrow> word32" where
  "choice x y z = (x AND y) XOR (NOT x AND z)"

definition majority :: "word32 \<Rightarrow> word32 \<Rightarrow> word32 \<Rightarrow> word32" where
  "majority x y z = (x AND y) XOR (x AND z) XOR (y AND z)"

text \<open>The first 32 bits of the fractional parts of the cube roots of the first 64 primes, and of the
  square roots of the first 8.\<close>

definition round_constants :: "word32 list" where
  "round_constants =
    [1116352408, 1899447441, 3049323471, 3921009573, 961987163, 1508970993,
     2453635748, 2870763221, 3624381080, 310598401, 607225278, 1426881987,
     1925078388, 2162078206, 2614888103, 3248222580, 3835390401, 4022224774,
     264347078, 604807628, 770255983, 1249150122, 1555081692, 1996064986,
     2554220882, 2821834349, 2952996808, 3210313671, 3336571891, 3584528711,
     113926993, 338241895, 666307205, 773529912, 1294757372, 1396182291,
     1695183700, 1986661051, 2177026350, 2456956037, 2730485921, 2820302411,
     3259730800, 3345764771, 3516065817, 3600352804, 4094571909, 275423344,
     430227734, 506948616, 659060556, 883997877, 958139571, 1322822218,
     1537002063, 1747873779, 1955562222, 2024104815, 2227730452, 2361852424,
     2428436474, 2756734187, 3204031479, 3329325298]"

type_synonym hash_state =
  "word32 \<times> word32 \<times> word32 \<times> word32 \<times> word32 \<times> word32 \<times> word32 \<times> word32"

definition initial_state :: hash_state where
  "initial_state =
    (1779033703, 3144134277, 1013904242, 2773480762, 1359893119, 2600822924,
     528734635, 1541459225)"

text \<open>The message schedule, latest word first.\<close>

primrec extend_schedule :: "nat \<Rightarrow> word32 list \<Rightarrow> word32 list" where
  "extend_schedule 0 ws = ws"
| "extend_schedule (Suc n) ws =
     extend_schedule n ((lower1 (ws ! 1) + ws ! 6 + lower0 (ws ! 14) + ws ! 15) # ws)"

fun hash_round :: "hash_state \<Rightarrow> word32 \<times> word32 \<Rightarrow> hash_state" where
  "hash_round (a, b, c, d, e, f, g, h) (k, w) =
     (let t1 = h + upper1 e + choice e f g + k + w;
          t2 = upper0 a + majority a b c in
      (t1 + t2, a, b, c, d + t1, e, f, g))"

fun add_states :: "hash_state \<Rightarrow> hash_state \<Rightarrow> hash_state" where
  "add_states (a, b, c, d, e, f, g, h) (a', b', c', d', e', f', g', h') =
     (a + a', b + b', c + c', d + d', e + e', f + f', g + g', h + h')"

definition compress :: "hash_state \<Rightarrow> word32 list \<Rightarrow> hash_state" where
  "compress s ws =
     add_states s (foldl hash_round s (zip round_constants (rev (extend_schedule 48 (rev ws)))))"

subsection \<open>Padding and blocks\<close>

definition length_octets :: "nat \<Rightarrow> octet list" where
  "length_octets n = List.map (\<lambda>i. of_nat (8 * n div 256 ^ i)) [7, 6, 5, 4, 3, 2, 1, 0]"

definition zero_count :: "nat \<Rightarrow> nat" where
  "zero_count n = (119 - n mod 64) mod 64"

definition sha_pad :: "octet list \<Rightarrow> octet list" where
  "sha_pad m = m @ [128] @ replicate (zero_count (length m)) 0 @ length_octets (length m)"

fun words_of :: "octet list \<Rightarrow> word32 list" where
  "words_of (a # b # c # d # xs) =
     (ucast a * 16777216 + ucast b * 65536 + ucast c * 256 + ucast d) # words_of xs"
| "words_of _ = []"

definition octets_of :: "word32 \<Rightarrow> octet list" where
  "octets_of w = [ucast (drop_bit 24 w), ucast (drop_bit 16 w), ucast (drop_bit 8 w), ucast w]"

function blocks :: "octet list \<Rightarrow> octet list list" where
  "blocks [] = []"
| "blocks (x # xs) = (x # take 63 xs) # blocks (drop 63 xs)"
  by pat_completeness auto
termination by (relation "measure length") auto

fun digest_of :: "hash_state \<Rightarrow> octet list" where
  "digest_of (a, b, c, d, e, f, g, h) = concat (List.map octets_of [a, b, c, d, e, f, g, h])"

definition sha256 :: "octet list \<Rightarrow> octet list" where
  "sha256 m =
     digest_of (foldl (\<lambda>s b. compress s (words_of b)) initial_state (blocks (sha_pad m)))"

subsection \<open>The keyed hash\<close>

definition hmac_key :: "octet list \<Rightarrow> octet list" where
  "hmac_key k = (let k' = (if length k > 64 then sha256 k else k) in k' @ replicate (64 - length k') 0)"

definition hmac_sha256 :: "octet list \<Rightarrow> octet list \<Rightarrow> octet list" where
  "hmac_sha256 k m =
     (let k' = hmac_key k in
      sha256 (List.map (\<lambda>x. x XOR 92) k' @ sha256 (List.map (\<lambda>x. x XOR 54) k' @ m)))"

text \<open>\<^verbatim>\<open>hmac.new(key.encode("utf-8"), msg, sha256).hexdigest()\<close>, the message encoded likewise.\<close>

definition utf8_octets :: "string \<Rightarrow> octet list" where
  "utf8_octets s =
     concat (List.map (\<lambda>c. let n = (of_char c :: nat) in
       if n < 128 then [of_nat n] else [of_nat (192 + n div 64), of_nat (128 + n mod 64)]) s)"

definition hexdigest :: "octet list \<Rightarrow> string" where
  "hexdigest bs = concat (List.map (\<lambda>b. [hex_digit (unat b div 16), hex_digit (unat b mod 16)]) bs)"

definition hmac_hex :: "string \<Rightarrow> string \<Rightarrow> string" where
  "hmac_hex key msg = hexdigest (hmac_sha256 (utf8_octets key) (utf8_octets msg))"

subsection \<open>Shapes\<close>

lemma digest_of_length: "length (digest_of s) = 32"
  by (cases s rule: digest_of.cases) (simp add: octets_of_def)

lemma sha256_length [simp]: "length (sha256 m) = 32"
  by (simp add: sha256_def digest_of_length)

lemma hmac_key_length: "length (hmac_key k) = 64"
  by (simp add: hmac_key_def Let_def)

lemma hmac_length [simp]: "length (hmac_sha256 k m) = 32"
  by (simp add: hmac_sha256_def Let_def)

text \<open>Padding fills the last block, and the blocks are the padded message cut into pieces of 64 octets:
  every block gives 16 words, and nothing is lost.\<close>

lemma zero_count_fills: "(n + zero_count n + 9) mod 64 = 0"
proof -
  define r where "r = n mod 64"
  have r: "r < 64" by (simp add: r_def)
  have z: "zero_count n = (if r \<le> 55 then 55 - r else 119 - r)"
  proof (cases "r \<le> 55")
    case True
    then have "119 - r = 64 + (55 - r)" by simp
    then have "(119 - r) mod 64 = (55 - r) mod 64" by (simp only: mod_add_self1)
    with True show ?thesis by (simp add: zero_count_def r_def [symmetric])
  next
    case False
    with r show ?thesis by (simp add: zero_count_def r_def [symmetric])
  qed
  have "n + zero_count n + 9 = r + zero_count n + 9 + 64 * (n div 64)"
    by (simp add: r_def)
  also have "\<dots> mod 64 = (r + zero_count n + 9) mod 64" by (simp only: mod_mult_self2)
  also have "\<dots> = 0" using r unfolding z by (cases "r \<le> 55") simp_all
  finally show ?thesis .
qed

lemma sha_pad_length: "length (sha_pad m) mod 64 = 0"
  using zero_count_fills [of "length m"] by (simp add: sha_pad_def length_octets_def ac_simps)

lemma blocks_full:
  "length xs mod 64 = 0 \<Longrightarrow> concat (blocks xs) = xs \<and> (\<forall>b \<in> set (blocks xs). length b = 64)"
proof (induction xs rule: blocks.induct)
  case (2 x xs)
  have "64 dvd length (x # xs)" using 2(2) by (simp only: dvd_eq_mod_eq_0)
  then have "64 \<le> length (x # xs)" by (rule dvd_imp_le) simp
  then have len: "63 \<le> length xs" by simp
  have "length (drop 63 xs) = length (x # xs) - 64" by simp
  then have "length (drop 63 xs) mod 64 = 0"
    using le_mod_geq [OF \<open>64 \<le> length (x # xs)\<close>] 2(2) by (simp only:)
  note rest = 2(1) [OF this]
  have "length (x # take 63 xs) = 64" using len by simp
  then show ?case unfolding blocks.simps using rest
    by (simp only: concat.simps append_Cons append_take_drop_id list.set ball_simps simp_thms) blast
qed simp

text \<open>A signature is 64 lower-case hexadecimal digits.\<close>

definition hex_chars :: "char set" where
  "hex_chars = set ''0123456789abcdef''"

definition signature_text :: "string \<Rightarrow> bool" where
  "signature_text s \<longleftrightarrow> length s = 64 \<and> set s \<subseteq> hex_chars"

lemma hex_digit_range: "n < 16 \<Longrightarrow> hex_digit n \<in> hex_chars"
proof -
  have "list_all (\<lambda>n. List.member ''0123456789abcdef'' (hex_digit n)) [0..<16]" by code_simp
  then show "n < 16 \<Longrightarrow> hex_digit n \<in> hex_chars"
    by (simp add: list_all_iff hex_chars_def)
qed

lemma hexdigest_length: "length (hexdigest bs) = 2 * length bs"
  by (induction bs) (simp_all add: hexdigest_def)

lemma hexdigest_range: "set (hexdigest bs) \<subseteq> hex_chars"
proof -
  have "hex_digit (unat b div 16) \<in> hex_chars" "hex_digit (unat b mod 16) \<in> hex_chars" for b :: octet
    using unsigned_less [where ?'a = nat, of b] by (simp_all add: hex_digit_range)
  then show ?thesis by (induction bs) (simp_all add: hexdigest_def)
qed

lemma hmac_hex_shape: "signature_text (hmac_hex key msg)"
  using hexdigest_range by (simp only: signature_text_def hmac_hex_def hexdigest_length hmac_length) simp

subsection \<open>Computing with words\<close>

text \<open>The simplifier does not reduce a numeral to the width of its word: \<open>norm\<close> is the identity, and
  marks where it should.\<close>

definition norm :: "word32 \<Rightarrow> word32" where
  "norm x = x"

lemma word32_mod: "(of_int (take_bit 32 k) :: word32) = of_int k"
  by (subst word_of_int_eq_iff) simp

lemma norm_simps:
  "norm 0 = 0" "norm 1 = 1" "norm (numeral k) = of_int (take_bit 32 (numeral k))"
  by (simp_all only: norm_def word32_mod of_int_numeral)

lemma drop_bit_word32:
  assumes "(numeral k :: int) < 4294967296"
  shows "drop_bit (numeral n) (numeral k :: word32) = of_int (drop_bit (numeral n) (numeral k))"
proof -
  have "take_bit LENGTH(32) (numeral k :: int) = numeral k"
    using assms by (subst take_bit_int_eq_self_iff) simp
  then show ?thesis by (simp only: drop_bit_word_numeral)
qed

lemma round_norm:
  "hash_round (a, b, c, d, e, f, g, h) (k, w) =
     (let t1 = h + upper1 e + choice e f g + k + w in
      (norm (t1 + (upper0 a + majority a b c)), a, b, c, norm (d + t1), e, f, g))"
  by (simp add: norm_def Let_def)

lemma schedule_norm:
  "extend_schedule (Suc n) ws =
     extend_schedule n (norm (lower1 (ws ! 1) + ws ! 6 + lower0 (ws ! 14) + ws ! 15) # ws)"
  "extend_schedule (numeral k) ws =
     extend_schedule (pred_numeral k) (norm (lower1 (ws ! 1) + ws ! 6 + lower0 (ws ! 14) + ws ! 15) # ws)"
  by (simp_all add: norm_def numeral_eq_Suc)

lemma add_norm:
  "add_states (a, b, c, d, e, f, g, h) (a', b', c', d', e', f', g', h') =
     (norm (a + a'), norm (b + b'), norm (c + c'), norm (d + d'),
      norm (e + e'), norm (f + f'), norm (g + g'), norm (h + h'))"
  by (simp add: norm_def)

lemmas word32_eval = drop_bit_word32 norm_simps rotr_def round_norm upper0_def upper1_def lower0_def
  lower1_def choice_def majority_def schedule_norm add_norm Let_def

lemmas word32_slow = drop_bit_word_numeral hash_round.simps extend_schedule.simps(2) add_states.simps

end
