(* ===== verification/Hmac_Vector.thy ===== *)
theory Hmac_Vector
  imports Hmac_Sha256
begin

section \<open>A test vector of HMAC-SHA256\<close>

text \<open>
  The digest of the message signed in \<^verbatim>\<open>test_cross_language_signature_matches\<close> of
  \<^verbatim>\<open>python/tests/test_audit_ledger.py\<close> (the tests of the two other ports pin the same one), computed
  in the logic: three blocks for the inner hash and two for the outer one, one lemma each.
\<close>

definition vector_message :: string where
  \<open>vector_message = ''{"actor":"a","event":"e","inputs":{"x":1},"prev_sig":"","sources":["s"],"ts":"2026-01-01T00:00:00Z"}''\<close>

lemma vector_octets:
  "utf8_octets ''k'' = [107]"
  "utf8_octets vector_message =
     [123, 34, 97, 99, 116, 111, 114, 34, 58, 34, 97, 34, 44, 34, 101, 118, 101, 110, 116, 34,
      58, 34, 101, 34, 44, 34, 105, 110, 112, 117, 116, 115, 34, 58, 123, 34, 120, 34, 58, 49,
      125, 44, 34, 112, 114, 101, 118, 95, 115, 105, 103, 34, 58, 34, 34, 44, 34, 115, 111, 117,
      114, 99, 101, 115, 34, 58, 91, 34, 115, 34, 93, 44, 34, 116, 115, 34, 58, 34, 50, 48, 50,
      54, 45, 48, 49, 45, 48, 49, 84, 48, 48, 58, 48, 48, 58, 48, 48, 90, 34, 125]"
  by (simp_all add: utf8_octets_def vector_message_def)

lemma replicate_step: "replicate (numeral k) x = x # replicate (pred_numeral k) x"
  by (simp add: numeral_eq_Suc)

lemma vector_inner_words:
  "List.map words_of (blocks (sha_pad (List.map (\<lambda>x. x XOR 54) (hmac_key (utf8_octets ''k'')) @
       utf8_octets vector_message))) =
     [[1563833910, 909522486, 909522486, 909522486, 909522486, 909522486, 909522486, 909522486,
       909522486, 909522486, 909522486, 909522486, 909522486, 909522486, 909522486, 909522486],
      [2065850723, 1953460770, 975331618, 740451702, 1701737506, 975332642, 740452718,
       1886745715, 574257954, 2015509041, 2100044400, 1919252063, 1936287522, 975315500,
       577990517, 1919116659],
      [574249762, 1931631916, 578056994, 975319600, 842411312, 825045041, 1412444218, 808466992,
       811213437, 2147483648, 0, 0, 0, 0, 0, 1312]]"
  by (simp add: vector_octets hmac_key_def sha_pad_def zero_count_def length_octets_def replicate_step)

lemma vector_inner1:
  "compress initial_state
     [1563833910, 909522486, 909522486, 909522486, 909522486, 909522486, 909522486, 909522486,
      909522486, 909522486, 909522486, 909522486, 909522486, 909522486, 909522486, 909522486] =
     (3690320081, 3937412416, 514508918, 3184350150, 1139450408, 531523931, 3833582886,
      4168685675)"
  by (simp add: compress_def round_constants_def initial_state_def word32_eval del: word32_slow)

lemma vector_inner2:
  "compress (3690320081, 3937412416, 514508918, 3184350150, 1139450408, 531523931, 3833582886,
       4168685675)
     [2065850723, 1953460770, 975331618, 740451702, 1701737506, 975332642, 740452718,
      1886745715, 574257954, 2015509041, 2100044400, 1919252063, 1936287522, 975315500,
      577990517, 1919116659] =
     (2419918711, 4094354313, 20332975, 3561178679, 1996042582, 3323474555, 602429682,
      757084797)"
  by (simp add: compress_def round_constants_def word32_eval del: word32_slow)

lemma vector_inner3:
  "compress (2419918711, 4094354313, 20332975, 3561178679, 1996042582, 3323474555, 602429682,
       757084797)
     [574249762, 1931631916, 578056994, 975319600, 842411312, 825045041, 1412444218, 808466992,
      811213437, 2147483648, 0, 0, 0, 0, 0, 1312] =
     (97908510, 454388923, 36186582, 304595154, 3861447895, 3311099874, 3808489731, 2856862115)"
  by (simp add: compress_def round_constants_def word32_eval del: word32_slow)

lemma vector_outer1:
  "compress initial_state
     [928799836, 1549556828, 1549556828, 1549556828, 1549556828, 1549556828, 1549556828,
      1549556828, 1549556828, 1549556828, 1549556828, 1549556828, 1549556828, 1549556828,
      1549556828, 1549556828] =
     (1124968994, 333640425, 3398940844, 2892595454, 3493942986, 552989959, 3679927956,
      1637605473)"
  by (simp add: compress_def round_constants_def initial_state_def word32_eval del: word32_slow)

lemma vector_outer2:
  "compress (1124968994, 333640425, 3398940844, 2892595454, 3493942986, 552989959, 3679927956,
       1637605473)
     [97908510, 454388923, 36186582, 304595154, 3861447895, 3311099874, 3808489731, 2856862115,
      2147483648, 0, 0, 0, 0, 0, 0, 768] =
     (3547960943, 1541617698, 2853212655, 2709533926, 2120720314, 3675687863, 1010778863,
      1898596092)"
  by (simp add: compress_def round_constants_def word32_eval del: word32_slow)

lemma sha256_words:
  "sha256 m = digest_of (foldl compress initial_state (List.map words_of (blocks (sha_pad m))))"
  by (simp add: sha256_def foldl_map)

lemma vector_inner_digest:
  "sha256 (List.map (\<lambda>x. x XOR 54) (hmac_key (utf8_octets ''k'')) @ utf8_octets vector_message) =
     [5, 213, 247, 30, 27, 21, 108, 187, 2, 40, 41, 214, 18, 39, 192, 210, 230, 41, 4, 215, 197,
      91, 95, 226, 227, 0, 241, 3, 170, 72, 65, 163]"
  unfolding sha256_words vector_inner_words foldl.simps vector_inner1 vector_inner2 vector_inner3
  by (simp add: octets_of_def)

lemma vector_outer_words:
  "List.map words_of (blocks (sha_pad (List.map (\<lambda>x. x XOR 92) (hmac_key (utf8_octets ''k'')) @
       sha256 (List.map (\<lambda>x. x XOR 54) (hmac_key (utf8_octets ''k'')) @ utf8_octets vector_message)))) =
     [[928799836, 1549556828, 1549556828, 1549556828, 1549556828, 1549556828, 1549556828,
       1549556828, 1549556828, 1549556828, 1549556828, 1549556828, 1549556828, 1549556828,
       1549556828, 1549556828],
      [97908510, 454388923, 36186582, 304595154, 3861447895, 3311099874, 3808489731, 2856862115,
       2147483648, 0, 0, 0, 0, 0, 0, 768]]"
  unfolding vector_inner_digest
  by (simp add: vector_octets hmac_key_def sha_pad_def zero_count_def length_octets_def replicate_step)

lemma hmac_vector:
  "hmac_hex ''k'' vector_message = ''d379966f5be33822aa1091efa18034e67e679fbadb168bb73c3f42ef712a46fc''"
  unfolding hmac_hex_def hmac_sha256_def Let_def
  unfolding sha256_words [of "_ @ sha256 _"] vector_outer_words foldl.simps vector_outer1 vector_outer2
  by (simp add: octets_of_def hexdigest_def hex_digit_def) code_simp

end
