(* ===== verification/Ledger_Mac.thy ===== *)
theory Ledger_Mac
  imports Audit_Properties Hmac_Vector
begin

section \<open>The ledger with HMAC-SHA256\<close>

text \<open>
  The results on ledgers hold for any mac. Here they are stated for the one \<^verbatim>\<open>_sign\<close> of
  \<^verbatim>\<open>audit_ledger.py\<close> uses, and the whole path from an entry to its signature is evaluated on the
  vector that the tests of the three ports pin.
\<close>

subsection \<open>What a ledger needs of its signatures\<close>

text \<open>The link a record has to have with what comes before it.\<close>

definition linked :: "json list \<Rightarrow> json \<Rightarrow> nat \<Rightarrow> bool" where
  "linked rs prev i \<longleftrightarrow>
     (\<exists>d s. rs ! i = JObj d \<and> dict_get d (KStr ''sig'') = Some (JStr s) \<and> signature_text s \<and>
        dict_get d (KStr ''prev_sig'') =
          (case i of
             0 \<Rightarrow> Some prev
           | Suc j \<Rightarrow> (case rs ! j of JObj p \<Rightarrow> dict_get p (KStr ''sig'') | _ \<Rightarrow> None)))"

lemma linked_Suc: "linked rs p i \<Longrightarrow> (\<exists>d. r = JObj d \<and> dict_get d (KStr ''sig'') = Some p) \<Longrightarrow> linked (r # rs) q (Suc i)"
  by (auto simp: linked_def split: nat.splits)

text \<open>Two different messages of a list with one signature.\<close>

definition collision :: "mac \<Rightarrow> string \<Rightarrow> string list \<Rightarrow> bool" where
  "collision mac key ms \<longleftrightarrow> (\<exists>x \<in> set ms. \<exists>y \<in> set ms. x \<noteq> y \<and> mac key x = mac key y)"

text \<open>The interface: the ledger relies on signatures that have the shape of a hexadecimal digest, so
  that none of them is the empty text the first record refers to.\<close>

locale signature_scheme =
  fixes mac :: mac
  assumes shape: "signature_text (mac key msg)"
begin

lemma nonempty: "mac key msg \<noteq> []"
  using shape [of key msg] by (auto simp: signature_text_def)

lemma collides_iff: "collides mac key ms = collision mac key ms"
  by (simp add: collides_def collision_def nonempty)

lemma chain_linked:
  "chain_end mac key prev rs \<noteq> None \<Longrightarrow> i < length rs \<Longrightarrow> linked rs prev i"
proof (induction rs arbitrary: prev i)
  case (Cons r rs)
  then obtain d s where d: "r = JObj d" "sign mac key d = Inr s" "dict_get d (KStr ''prev_sig'') = Some prev"
    "dict_get d (KStr ''sig'') = Some (JStr s)" "chain_end mac key (JStr s) rs \<noteq> None"
    by (auto split: json.splits sum.splits if_splits)
  have "signature_text s" using sign_signed [OF d(2)] shape by auto
  show ?case
  proof (cases i)
    case 0
    with d \<open>signature_text s\<close> show ?thesis by (simp add: linked_def)
  next
    case (Suc j)
    with Cons.IH [OF d(5), of j] Cons.prems(2) d(1,4) show ?thesis
      by (auto intro: linked_Suc)
  qed
qed simp

lemma verified_linked:
  assumes "verify_ledger mac fl environ key (Some raw) = verified n"
  shows "\<exists>rs. parse_lines fl raw = Inr rs \<and> length rs = n \<and> (\<forall>i < n. linked rs (JStr []) i)"
proof -
  obtain rs where "parse_lines fl raw = Inr rs" "length rs = n"
    "chain_end mac (resolve_key environ key) (JStr []) rs \<noteq> None"
    using verified_chain [OF assms] .
  with chain_linked show ?thesis by blast
qed

lemma same_end_same_contents:
  assumes "verify_ledger mac fl environ key (Some raw) = verified n"
    and "verify_ledger mac fl environ key (Some raw') = verified m"
    and "final_sig fl raw = final_sig fl raw'" and "float_codec fl"
  shows "\<exists>rs rs'. parse_lines fl raw = Inr rs \<and> parse_lines fl raw' = Inr rs' \<and>
     length rs = n \<and> length rs' = m \<and>
     (n = m \<and> list_all2 same_payload rs rs' \<or>
      collision mac (resolve_key environ key) (signed_messages (rs @ rs')))"
  using tamper_evident [OF assms] unfolding collides_iff .

end

interpretation hmac: signature_scheme hmac_hex
  by unfold_locales (rule hmac_hex_shape)

subsection \<open>The ledger signed with HMAC-SHA256\<close>

text \<open>C35: the format of a verified file: if verification says ok, every record is an object whose
  \<^verbatim>\<open>sig\<close> is a text of 64 lower-case hexadecimal digits, and whose \<^verbatim>\<open>prev_sig\<close> is the \<^verbatim>\<open>sig\<close> of
  the record before it, and empty for the first one.\<close>

theorem verified_ledger_format:
  assumes "verify_ledger hmac_hex fl environ key (Some raw) = verified n"
  shows "\<exists>rs. parse_lines fl raw = Inr rs \<and> length rs = n \<and> (\<forall>i < n. linked rs (JStr []) i)"
  using assms by (rule hmac.verified_linked)

theorem verified_ledger_format_witness:
  "\<exists>raw rs. verify_ledger hmac_hex half Map.empty None (Some raw) = verified 1 \<and>
     parse_lines half raw = Inr rs \<and> length rs = 1 \<and> linked rs (JStr []) 0"
proof -
  obtain raw where "verify_ledger hmac_hex half Map.empty None (Some raw) = verified 1"
    using one_entry_run by blast
  with verified_ledger_format [OF this] show ?thesis by auto
qed

text \<open>C2: the ledger is tamper-evident: take any two texts that both verify under a key and end in
  the same signature. Then they have the same number of records and every record has the same signed
  content, in the same order, or the two texts themselves exhibit a collision of HMAC-SHA256 under
  that key: two different messages among those they sign have one digest. So no interior line can be
  edited, dropped, added or moved without the final signature changing, verification failing, or a
  collision being at hand.\<close>

theorem ledger_tamper_evident:
  assumes "verify_ledger hmac_hex fl environ key (Some raw) = verified n"
    and "verify_ledger hmac_hex fl environ key (Some raw') = verified m"
    and "final_sig fl raw = final_sig fl raw'" and "float_codec fl"
  shows "\<exists>rs rs'. parse_lines fl raw = Inr rs \<and> parse_lines fl raw' = Inr rs' \<and>
     length rs = n \<and> length rs' = m \<and>
     (n = m \<and> list_all2 same_payload rs rs' \<or>
      collision hmac_hex (resolve_key environ key) (signed_messages (rs @ rs')))"
  using assms by (rule hmac.same_end_same_contents)

lemma messages_of_one: "messages_of r = [] \<or> (\<exists>m. messages_of r = [m])"
  by (simp add: messages_of_def split: json.split sum.split)

theorem ledger_tamper_evident_witness:
  "\<exists>raw rs. verify_ledger hmac_hex half Map.empty None (Some raw) = verified 1 \<and>
     parse_lines half raw = Inr rs \<and> list_all2 same_payload rs rs"
proof -
  obtain raw where raw: "verify_ledger hmac_hex half Map.empty None (Some raw) = verified 1"
    using one_entry_run by blast
  from ledger_tamper_evident [OF raw raw refl half_codec] obtain rs where
    rs: "parse_lines half raw = Inr rs" "length rs = 1" and
    alt: "list_all2 same_payload rs rs \<or>
      collision hmac_hex (resolve_key Map.empty None) (signed_messages (rs @ rs))"
    by (elim exE conjE) (simp only: option.inject sum.inject, blast)
  have one: "x = y" if "x \<in> set (messages_of r)" "y \<in> set (messages_of r)" for x y r
    using that messages_of_one [of r] by auto
  obtain r where "rs = [r]" using rs(2) by (auto simp: length_Suc_conv)
  then have "\<not> collision hmac_hex k (signed_messages (rs @ rs))" for k
    by (auto simp: collision_def signed_messages_def dest: one)
  with alt raw rs show ?thesis by blast
qed

subsection \<open>The vector of the three ports\<close>

definition vector_entry :: entry where
  "vector_entry = \<lparr>en_event = ''e'', en_actor = ''a'', en_inputs = JObj [(KStr ''x'', JInt 1)],
     en_sources = JList [JStr ''s''], en_confidence = None, en_rationale = None,
     en_ts = Some ''2026-01-01T00:00:00Z''\<rparr>"

lemma vector_record:
  "dict_set (base_record now vector_entry) (KStr ''prev_sig'') (JStr []) =
     [(KStr ''ts'', JStr ''2026-01-01T00:00:00Z''), (KStr ''event'', JStr ''e''), (KStr ''actor'', JStr ''a''),
      (KStr ''inputs'', JObj [(KStr ''x'', JInt 1)]), (KStr ''sources'', JList [JStr ''s'']),
      (KStr ''prev_sig'', JStr [])]"
  by (simp add: base_record_def vector_entry_def dict_set_def)

lemma vector_signed: "message (dict_set (base_record now vector_entry) (KStr ''prev_sig'') (JStr [])) = Inr vector_message"
  unfolding vector_record by code_simp

text \<open>The signing path agrees with the one the other ports pin: appending the entry of
  \<^verbatim>\<open>test_cross_language_signature_matches\<close> to a new ledger with the key \<^verbatim>\<open>k\<close> returns the signature
  that test asserts, and the file written verifies under that key.\<close>

theorem cross_language_signature:
  "\<exists>l' raw. append_entry hmac_hex now None vector_entry \<lparr>lg_key = ''k'', lg_last_sig = JStr []\<rparr> None =
      (Inr ''d379966f5be33822aa1091efa18034e67e679fbadb168bb73c3f42ef712a46fc'', l', Some raw) \<and>
     verify_ledger hmac_hex fl environ (Some ''k'') (Some raw) = verified 1"
proof -
  let ?l = "\<lparr>lg_key = ''k'', lg_last_sig = JStr []\<rparr>"
  have ok: "entry_ok fl vector_entry" by (simp add: entry_ok_def vector_entry_def)
  have l: "open_ledger fl environ (Some ''k'') None = Inr ?l" by (simp add: open_ledger_def resolve_key_def)
  have p: "lg_last_sig ?l = JStr []" by simp
  obtain sig l' c' where a: "append_entry hmac_hex now None vector_entry ?l None = (Inr sig, l', c')"
    using append_succeeds [OF ok p] .
  have "sign hmac_hex ''k'' (dict_set (base_record now vector_entry) (KStr ''prev_sig'') (JStr [])) =
      Inr (hmac_hex ''k'' vector_message)"
    by (simp only: sign_message vector_signed sum.case)
  with a have "sig = hmac_hex ''k'' vector_message"
    by (auto simp: append_entry_def Let_def split: sum.splits option.splits)
  then have sig: "sig = ''d379966f5be33822aa1091efa18034e67e679fbadb168bb73c3f42ef712a46fc''"
    by (simp only: hmac_vector)
  from append_entry_success [OF a ok p] obtain raw where raw: "c' = Some raw" .
  from ledger_run_inv [OF run_append [OF run_open [OF l] ok a]] run_verified(1) raw
  have "verify_ledger hmac_hex fl environ (Some ''k'') (Some raw) = verified 1" by fastforce
  with a sig raw show ?thesis by blast
qed

end
