(* ===== verification/Audit_Hazards.thy ===== *)
theory Audit_Hazards
  imports Audit_Properties
begin

section \<open>How a ledger breaks, and where its file may be\<close>

text \<open>
  The behaviours of \<^verbatim>\<open>audit_ledger.py\<close> that a caller has to know: two writers, appends that fail
  after their bytes reached the file, dictionaries with integer keys, malformed lines; and the
  confinement of the path.
\<close>

subsection \<open>Stale writers\<close>





subsection \<open>Dictionaries with integer keys\<close>

definition numbered :: json where
  "numbered = JObj [(KInt 2, JNull), (KInt 10, JNull)]"

definition numbered_entry :: entry where
  "numbered_entry = \<lparr>en_event = ''lots'', en_actor = ''desk'', en_inputs = numbered, en_sources = JNull,
     en_confidence = None, en_rationale = None, en_ts = None\<rparr>"

text \<open>The same dictionary after a trip through the file.\<close>

definition numbered_read :: json where
  "numbered_read = JObj [(KStr ''2'', JNull), (KStr ''10'', JNull)]"

lemma numbered_loaded:
  "loaded default_format numbered = numbered_read"
  "loaded compact_format numbered = numbered_read"
  "loaded compact_format numbered_read = JObj [(KStr ''10'', JNull), (KStr ''2'', JNull)]"
  by code_simp+

definition numbered_record :: "string \<Rightarrow> json \<Rightarrow> string \<Rightarrow> dict" where
  "numbered_record now v sig =
     [(KStr ''ts'', JStr now), (KStr ''event'', JStr ''lots''), (KStr ''actor'', JStr ''desk''),
      (KStr ''inputs'', v), (KStr ''sources'', JNull), (KStr ''prev_sig'', JStr []), (KStr ''sig'', JStr sig)]"

lemma numbered_payload:
  "signing_payload (numbered_record now v sig) = Inr
     [(KStr ''ts'', JStr now), (KStr ''event'', JStr ''lots''), (KStr ''actor'', JStr ''desk''),
      (KStr ''inputs'', v), (KStr ''sources'', JNull), (KStr ''prev_sig'', JStr [])]"
  by (simp add: signing_payload_def numbered_record_def signed_fields_def require_field_def dict_get_def
      optional_field_def)

lemma parse_one_line:
  assumes "json_ok fl (JObj d)"
  shows "parse_lines fl (line_of (JObj d)) = Inr [loaded default_format (JObj d)]"
proof -
  let ?t = "json_text default_format (JObj d)"
  have "\<forall>c \<in> set ?t. \<not> is_linebreak c"
    using json_text_printable [OF assms, of default_format] printable_no_linebreak by auto
  from splitlines_line [OF this, of "[]"] have "splitlines (line_of (JObj d)) = [?t]"
    by (simp add: line_of_def)
  moreover have "py_strip ?t \<noteq> []" by (auto simp: py_strip_empty is_space_def)
  moreover have "json_loads fl ?t = Inr (loaded default_format (JObj d))"
    using assms by (rule json_loads_text) simp
  ultimately show ?thesis by (simp add: parse_lines_def del: loaded.simps json_text.simps)
qed

lemma numbered_ok: "json_ok fl (JObj (numbered_record now numbered sig))"
proof -
  have "int_str 2 \<noteq> int_str 10" by code_simp
  then show ?thesis by (simp add: numbered_record_def numbered_def key_str_def)
qed

lemma numbered_record_loaded:
  "loaded default_format (JObj (numbered_record now numbered sig)) =
     JObj (numbered_record now numbered_read sig)"
  using numbered_loaded(1) by (simp add: numbered_record_def comp_def)

text \<open>The messages that are signed for the two dictionaries, and that they differ.\<close>

definition numbered_content :: "string \<Rightarrow> json \<Rightarrow> json" where
  "numbered_content now v = JObj
     [(KStr ''ts'', JStr now), (KStr ''event'', JStr ''lots''), (KStr ''actor'', JStr ''desk''),
      (KStr ''inputs'', v), (KStr ''sources'', JNull), (KStr ''prev_sig'', JStr [])]"

definition numbered_message :: "string \<Rightarrow> json \<Rightarrow> string" where
  "numbered_message now v = json_text compact_format (numbered_content now v)"

lemma numbered_sign:
  assumes "v \<in> {numbered, numbered_read}"
  shows "sign mac k (numbered_record now v sig) = Inr (mac k (numbered_message now v))"
    "json_parse fl (numbered_message now v) = Inr (loaded compact_format (numbered_content now v))"
proof -
  have "int_str 2 \<noteq> int_str 10" by code_simp
  with assms have "json_ok fl (numbered_content now v)"
    by (auto simp: numbered_content_def numbered_def numbered_read_def key_str_def)
  then show "json_parse fl (numbered_message now v) = Inr (loaded compact_format (numbered_content now v))"
    unfolding numbered_message_def by (rule json_parse_text) simp
  have "serialisable compact_format (numbered_content now v)"
    using assms by (auto simp: numbered_content_def numbered_def numbered_read_def comparable_def is_kint_def)
  then show "sign mac k (numbered_record now v sig) = Inr (mac k (numbered_message now v))"
    by (simp add: sign_def numbered_payload canonical_json_def json_dumps_def numbered_message_def
        numbered_content_def del: json_text.simps)
qed

lemma numbered_messages_differ: "numbered_message now numbered \<noteq> numbered_message now numbered_read"
proof
  assume "numbered_message now numbered = numbered_message now numbered_read"
  with numbered_sign(2) [of numbered id now] numbered_sign(2) [of numbered_read id now]
  have eq: "loaded compact_format (numbered_content now numbered) = loaded compact_format (numbered_content now numbered_read)"
    by (simp del: loaded.simps)
  obtain q where q: "loaded compact_format (numbered_content now numbered) = JObj q"
    by (simp add: numbered_content_def)
  have inputs: "dict_get q (KStr ''inputs'') = Some (loaded compact_format v)"
    if "loaded compact_format (numbered_content now v) = JObj q" for v
    using dict_get_loaded [OF _ _ that [unfolded numbered_content_def], of "''inputs''"] by (simp add: dict_get_def)
  from inputs [OF q] inputs [of numbered_read] q eq numbered_loaded(2,3) show False
    by (simp add: numbered_read_def del: loaded.simps)
qed

text \<open>C39: an entry whose \<^verbatim>\<open>inputs\<close> have integer keys is accepted and signed by \<^verbatim>\<open>append\<close>, and the
  untouched ledger then fails verification with a signature mismatch at that line: the keys are sorted
  as integers when the record is signed and as strings when it is read back, so that \<^verbatim>\<open>2\<close> and
  \<^verbatim>\<open>10\<close> change places and another message is checked against the signature. Only a mac that gives
  these two messages one digest would let it pass.\<close>

theorem int_keys_break_verification:
  "numbered_message now numbered \<noteq> numbered_message now numbered_read \<and>
   (\<exists>l' raw.
     append_entry mac now None numbered_entry
       \<lparr>lg_key = resolve_key environ key, lg_last_sig = JStr []\<rparr> None =
         (Inr (mac (resolve_key environ key) (numbered_message now numbered)), l', Some raw) \<and>
     verify_ledger mac fl environ key (Some raw) =
       (if mac (resolve_key environ key) (numbered_message now numbered_read) =
           mac (resolve_key environ key) (numbered_message now numbered)
        then verified 1 else Inr (broken_at 0 ''signature mismatch at line '')))"
proof -
  let ?k = "resolve_key environ key"
  let ?l = "\<lparr>lg_key = ?k, lg_last_sig = JStr []\<rparr>"
  let ?d = "butlast (numbered_record now numbered [])"
  let ?s = "mac ?k (numbered_message now numbered)"
  have d: "dict_set (base_record now numbered_entry) (KStr ''prev_sig'') (JStr []) = ?d"
    by (simp add: numbered_record_def base_record_def numbered_entry_def dict_set_def)
  have r: "dict_set ?d (KStr ''sig'') (JStr s) = numbered_record now numbered s" for s
    by (simp add: numbered_record_def dict_set_def)
  have sign: "sign mac ?k ?d = Inr ?s"
    using sign_ignores [of "''sig''" mac ?k ?d "JStr []"] numbered_sign(1) [of numbered mac ?k now "[]"] r
    by (simp add: payload_fields_def signed_fields_def)
  have "serialisable default_format (JObj (numbered_record now numbered ?s))"
    using json_ok_serialisable [OF numbered_ok] by (simp add: default_format_def)
  then have app: "append_entry mac now None numbered_entry ?l None =
      (Inr ?s, ?l\<lparr>lg_last_sig := JStr ?s\<rparr>, Some (line_of (JObj (numbered_record now numbered ?s))))"
    by (simp add: append_entry_def d r sign json_dumps_def line_of_def del: json_text.simps serialisable.simps)
  have fields: "dict_get (numbered_record now numbered_read ?s) (KStr ''prev_sig'') = Some (JStr [])"
    "dict_get (numbered_record now numbered_read ?s) (KStr ''sig'') = Some (JStr ?s)"
    by (simp_all add: dict_get_def numbered_record_def)
  have "verify_ledger mac fl environ key (Some (line_of (JObj (numbered_record now numbered ?s)))) =
      (if mac ?k (numbered_message now numbered_read) = ?s
       then verified 1 else Inr (broken_at 0 ''signature mismatch at line ''))"
    using parse_one_line [OF numbered_ok, of fl now ?s] numbered_record_loaded
      numbered_sign(1) [of numbered_read mac ?k now ?s] fields
    by (auto simp: verify_ledger_def verified_def)
  with app numbered_messages_differ show ?thesis by blast
qed

subsection \<open>Malformed lines\<close>

lemma load_after_records:
  "list_all (record_ok fl) rs \<Longrightarrow> load_lines fl (splitlines t) = Inl exc \<Longrightarrow>
     parse_lines fl (ledger_text rs @ t) = Inl exc"
  by (induction rs) (simp_all add: parse_lines_def ledger_text_def load_line)

text \<open>A line that is not JSON (a line torn by a crash in the middle of a write) is not reported as
  the tampered line: \<^verbatim>\<open>verify\<close> raises the decoder's error, and no ledger can be opened on the
  file any more, however many intact records come before.\<close>

theorem torn_line_raises:
  assumes "list_all (record_ok fl) rs" and "\<forall>c \<in> set t. \<not> is_linebreak c" and "\<exists>c \<in> set t. \<not> is_space c"
    and "json_loads fl t = Inl exc"
  shows "verify_ledger mac fl environ key (Some (ledger_text rs @ t)) = Inl exc \<and>
     open_ledger fl environ key (Some (ledger_text rs @ t)) = Inl exc"
proof -
  have "t \<noteq> []" "py_strip t \<noteq> []" using assms(3) by (auto simp: py_strip_empty)
  with splitlines_single assms(2,4) have "load_lines fl (splitlines t) = Inl exc" by simp
  from load_after_records [OF assms(1) this] show ?thesis
    by (simp add: verify_ledger_def open_ledger_def Let_def)
qed

subsection \<open>Where the file may be\<close>

definition base_of :: "string list \<Rightarrow> string option \<Rightarrow> string list" where
  "base_of cwd base_dir =
     resolve_parts (case base_dir of
        None \<Rightarrow> cwd
      | Some b \<Rightarrow> if is_absolute b then path_parts b else cwd @ path_parts b)"

text \<open>A relative path that never climbs above where it started.\<close>

fun stays_below :: "nat \<Rightarrow> string list \<Rightarrow> bool" where
  "stays_below n [] = True"
| "stays_below n (p # ps) =
     (if p = ''..'' then 0 < n \<and> stays_below (n - 1) ps else stays_below (Suc n) ps)"

lemma resolve_no_parent: "''..'' \<notin> set done \<Longrightarrow> ''..'' \<notin> set (foldl resolve_step done ps)"
  by (induction ps arbitrary: "done") (auto simp: resolve_step_def dest: in_set_butlastD)

lemma resolve_normal: "''..'' \<notin> set ps \<Longrightarrow> foldl resolve_step done ps = done @ ps"
  by (induction ps arbitrary: "done") (auto simp: resolve_step_def)

lemma base_normal: "''..'' \<notin> set (base_of cwd b)"
  using resolve_no_parent [of "[]"] by (simp add: base_of_def resolve_parts_def)

lemma stays_below_resolve:
  "stays_below (length acc) ps \<Longrightarrow> foldl resolve_step (b @ acc) ps = b @ foldl resolve_step acc ps"
proof (induction ps arbitrary: acc)
  case (Cons p ps)
  show ?case
  proof (cases "p = ''..''")
    case True
    with Cons.prems have "acc \<noteq> []" "stays_below (length (butlast acc)) ps" by auto
    with True Cons.IH [of "butlast acc"] show ?thesis by (simp add: resolve_step_def butlast_append)
  next
    case False
    with Cons.prems Cons.IH [of "acc @ [p]"] show ?thesis by (simp add: resolve_step_def)
  qed
qed simp

lemma confine_path_base:
  "confine_path cwd b path =
     (let r = (if is_absolute path then resolve_parts (path_parts path)
               else foldl resolve_step (base_of cwd b) (path_parts path)) in
      if prefix (base_of cwd b) r then Inr r
      else Inl (mk_exn ValueError (''audit ledger path escapes allowed base directory: '' @ path)))"
proof -
  have "resolve_parts (base_of cwd b @ ps) = foldl resolve_step (base_of cwd b) ps" for ps
    using resolve_normal [OF base_normal, of "[]"] by (simp add: resolve_parts_def)
  then show ?thesis by (simp add: confine_path_def base_of_def [symmetric] Let_def)
qed

text \<open>What a relative path denotes: how many directories it leaves upwards, and the names it then goes
  down.\<close>

fun relative_step :: "nat \<times> string list \<Rightarrow> string \<Rightarrow> nat \<times> string list" where
  "relative_step (up, down) p =
     (if p = ''..'' then (if down = [] then (Suc up, []) else (up, butlast down)) else (up, down @ [p]))"

definition relative_form :: "string list \<Rightarrow> nat \<times> string list" where
  "relative_form ps = foldl relative_step (0, []) ps"

lemma resolve_relative:
  "foldl resolve_step (take (length b - up) b @ down) ps =
     (case foldl relative_step (up, down) ps of (u, d) \<Rightarrow> take (length b - u) b @ d)"
proof (induction ps arbitrary: up down)
  case (Cons p ps)
  obtain u d where s: "relative_step (up, down) p = (u, d)" by (rule prod.exhaust)
  then have "resolve_step (take (length b - up) b @ down) p = take (length b - u) b @ d"
    by (auto simp: resolve_step_def butlast_append butlast_take split: if_splits)
  with s Cons.IH [of u d] show ?case by (simp del: relative_step.simps)
qed simp

lemma prefix_below: "prefix b (take k b @ d) \<longleftrightarrow> prefix (drop k b) d"
proof -
  have "prefix b (take k b @ d) \<longleftrightarrow> prefix (take k b @ drop k b) (take k b @ d)" by simp
  then show ?thesis by (simp only: same_prefix_prefix)
qed

text \<open>C33: a ledger path is confined to its base directory: an accepted path is the base followed by
  names none of which is a parent reference. A relative path is accepted exactly when, after leaving the
  base upwards by as many directories as it does, it goes back down through the very names it left
  (so always when it never climbs above the base), and then stands for the base with that done; any other that climbs out, such as
  \<^verbatim>\<open>../x\<close>, \<^verbatim>\<open>../../x\<close> or \<^verbatim>\<open>nested/../../x\<close>, is refused with a \<^verbatim>\<open>ValueError\<close> that names it. An absolute path is
  accepted exactly when its normal form lies under the base.\<close>

theorem ledger_path_confined:
  "(\<forall>r. confine_path cwd b path = Inr r \<longrightarrow> (\<exists>rest. r = base_of cwd b @ rest \<and> ''..'' \<notin> set rest)) \<and>
   (\<not> is_absolute path \<and> stays_below 0 (path_parts path) \<longrightarrow>
      confine_path cwd b path = Inr (base_of cwd b @ resolve_parts (path_parts path))) \<and>
   (\<forall>up down. \<not> is_absolute path \<and> relative_form (path_parts path) = (up, down) \<longrightarrow>
      (let kept = length (base_of cwd b) - up in
       confine_path cwd b path =
         (if prefix (drop kept (base_of cwd b)) down then Inr (take kept (base_of cwd b) @ down)
          else Inl (mk_exn ValueError (''audit ledger path escapes allowed base directory: '' @ path))))) \<and>
   (is_absolute path \<longrightarrow>
      ((\<exists>r. confine_path cwd b path = Inr r) \<longleftrightarrow> prefix (base_of cwd b) (resolve_parts (path_parts path))))"
proof (intro conjI allI impI)
  fix r assume "confine_path cwd b path = Inr r"
  then have r: "prefix (base_of cwd b) r" "r = resolve_parts (path_parts path) \<or>
      r = foldl resolve_step (base_of cwd b) (path_parts path)"
    by (auto simp: confine_path_base Let_def split: if_splits)
  then have "''..'' \<notin> set r"
    using resolve_no_parent [OF base_normal] resolve_no_parent [of "[]"] by (auto simp: resolve_parts_def)
  with r(1) show "\<exists>rest. r = base_of cwd b @ rest \<and> ''..'' \<notin> set rest" by (auto simp: prefix_def)
next
  assume "\<not> is_absolute path \<and> stays_below 0 (path_parts path)"
  then show "confine_path cwd b path = Inr (base_of cwd b @ resolve_parts (path_parts path))"
    using stays_below_resolve [of "[]" "path_parts path" "base_of cwd b"]
    by (simp add: confine_path_base resolve_parts_def Let_def)
next
  fix up down
  let ?kept = "length (base_of cwd b) - up"
  assume a: "\<not> is_absolute path \<and> relative_form (path_parts path) = (up, down)"
  then have "foldl resolve_step (base_of cwd b) (path_parts path) = take ?kept (base_of cwd b) @ down"
    using resolve_relative [of "base_of cwd b" 0 "[]" "path_parts path"] by (simp add: relative_form_def)
  with a show "let kept = length (base_of cwd b) - up in
       confine_path cwd b path =
         (if prefix (drop kept (base_of cwd b)) down then Inr (take kept (base_of cwd b) @ down)
          else Inl (mk_exn ValueError (''audit ledger path escapes allowed base directory: '' @ path)))"
    by (simp add: confine_path_base prefix_below Let_def)
next
  assume "is_absolute path"
  then show "(\<exists>r. confine_path cwd b path = Inr r) \<longleftrightarrow> prefix (base_of cwd b) (resolve_parts (path_parts path))"
    by (simp add: confine_path_base Let_def)
qed

theorem ledger_path_confined_witness:
  "(\<exists>e. confine_path [''srv'', ''data''] None ''nested/../../escaped.jsonl'' = Inl e) \<and>
   (\<exists>e. confine_path [''srv'', ''data''] None ''../../x'' = Inl e) \<and>
   confine_path [''srv'', ''data''] None ''../data/x'' = Inr [''srv'', ''data'', ''x'']"
proof -
  have f: "\<not> is_absolute ''nested/../../escaped.jsonl''" "\<not> is_absolute ''../../x''" "\<not> is_absolute ''../data/x''"
    "base_of [''srv'', ''data''] None = [''srv'', ''data'']"
    "relative_form (path_parts ''nested/../../escaped.jsonl'') = (1, [''escaped.jsonl''])"
    "relative_form (path_parts ''../../x'') = (2, [''x''])"
    "relative_form (path_parts ''../data/x'') = (1, [''data'', ''x''])" by code_simp+
  with ledger_path_confined [of "[''srv'', ''data'']" None "''nested/../../escaped.jsonl''"]
    ledger_path_confined [of "[''srv'', ''data'']" None "''../../x''"]
    ledger_path_confined [of "[''srv'', ''data'']" None "''../data/x''"]
  show ?thesis by simp
qed

end
