(* ===== verification/Member_Order.thy ===== *)
theory Member_Order
  imports Ledger_Mac Audit_Hazards
begin

section \<open>Signatures do not depend on the order of members\<close>

text \<open>
  The ledger is signed over canonical JSON, so that a writer in another language (or a dictionary
  filled in another order) gets the same signature for the same content. Here: two JSON values that are
  equal up to the order of the members of their dictionaries, at any depth, have one canonical text; so records equal in this sense have one signature, and two files whose records are
  equal line by line verify alike.
\<close>

subsection \<open>Equality of JSON values\<close>

text \<open>Lists are compared element by element, dictionaries by their keys whatever the order, and scalars
  must be the same (an integer and an equal float are not: they are written differently).\<close>

fun same_json :: "json \<Rightarrow> json \<Rightarrow> bool" where
  "same_json (JList vs) (JList ws) = list_all2 same_json vs ws"
| "same_json (JObj d) (JObj e) =
     (length d = length e \<and>
      list_all (\<lambda>(k, v). case dict_get e k of None \<Rightarrow> False | Some w \<Rightarrow> same_json v w) d)"
| "same_json v w = (v = w)"

text \<open>What the reader returns.\<close>

definition readable :: "(string \<Rightarrow> string) \<Rightarrow> json \<Rightarrow> bool" where
  "readable fl v \<longleftrightarrow> json_ok fl v \<and> str_keyed v"

lemma readable_simps [simp]:
  "readable fl (JList vs) \<longleftrightarrow> list_all (readable fl) vs"
  "readable fl (JObj d) \<longleftrightarrow> distinct (List.map (\<lambda>m. key_str (fst m)) d) \<and> list_all (\<lambda>(k, v). \<not> is_kint k \<and> readable fl v) d"
  by (auto simp: readable_def list_all_iff)

lemma readable_keys:
  assumes "readable fl (JObj d)"
  shows "distinct (List.map fst d)"
proof -
  have "distinct (List.map key_str (List.map fst d))" using assms by (simp add: comp_def)
  then show ?thesis by (rule distinct_map [THEN iffD1, THEN conjunct1])
qed

lemma dict_get_iff: "distinct (List.map fst d) \<Longrightarrow> dict_get d k = Some v \<longleftrightarrow> (k, v) \<in> set d"
  by (simp add: dict_get_def)

lemma same_json_keys:
  assumes "readable fl (JObj d)" and "readable fl (JObj e)" and "same_json (JObj d) (JObj e)"
  shows "fst ` set d = fst ` set e"
proof -
  have "fst ` set d \<subseteq> fst ` set e"
    using assms(3) dict_get_iff [OF readable_keys [OF assms(2)]]
    by (force simp: list_all_iff split: option.splits)
  moreover have "card (fst ` set d) = card (fst ` set e)"
    using readable_keys [OF assms(1)] readable_keys [OF assms(2)] assms(3)
    by (metis distinct_card length_map list.set_map same_json.simps(2))
  ultimately show ?thesis by (simp add: card_subset_eq)
qed

text \<open>What the two dictionaries give for a key.\<close>

lemma same_json_get:
  assumes "readable fl (JObj d)" and "readable fl (JObj e)" and "same_json (JObj d) (JObj e)"
  shows "rel_option (\<lambda>v w. same_json v w \<and> readable fl v \<and> readable fl w) (dict_get d k) (dict_get e k)"
proof (cases "dict_get d k")
  case None
  then have "k \<notin> fst ` set d" by (simp add: dict_get_def map_of_eq_None_iff)
  then have "dict_get e k = None" using same_json_keys [OF assms] by (simp add: dict_get_def map_of_eq_None_iff)
  with None show ?thesis by simp
next
  case (Some v)
  then have v: "(k, v) \<in> set d" using dict_get_iff [OF readable_keys [OF assms(1)]] by simp
  then obtain w where w: "dict_get e k = Some w" "same_json v w"
    using assms(3) by (auto simp: list_all_iff split: option.splits)
  then have "(k, w) \<in> set e" using dict_get_iff [OF readable_keys [OF assms(2)]] by simp
  with Some v w assms(1,2) show ?thesis by (fastforce simp: list_all_iff)
qed

subsection \<open>One canonical text\<close>

lemma sort_key_unique:
  assumes "distinct (List.map f xs)" and "distinct (List.map f ys)" and "set xs = set ys"
  shows "sort_key f xs = sort_key f ys"
proof (rule map_sorted_distinct_set_unique)
  show "inj_on f (set (sort_key f xs) \<union> set (sort_key f ys))"
    using assms by (simp add: distinct_map)
qed (use assms in \<open>simp_all add: distinct_map\<close>)

lemma map_nth_eq:
  "length xs = length ys \<Longrightarrow> (\<And>i. i < length ys \<Longrightarrow> f (xs ! i) = g (ys ! i)) \<Longrightarrow> List.map f xs = List.map g ys"
  by (simp add: list_eq_iff_nth_eq)

lemma canonical_text:
  "same_json v w \<Longrightarrow> readable fl v \<Longrightarrow> readable fl w \<Longrightarrow> json_text compact_format v = json_text compact_format w"
proof (induction v w rule: same_json.induct)
  case (1 vs ws)
  then have "List.map (json_text compact_format) vs = List.map (json_text compact_format) ws"
    by (intro map_nth_eq) (auto simp: list_all2_conv_all_nth list_all_length)
  then show ?case by simp
next
  case (2 d e)
  let ?t = "json_text compact_format"
  let ?f = "\<lambda>(k, v). (k, ?t v)"
  note get = same_json_get [OF 2(3,4,2)]
  have sub: "?f m \<in> ?f ` set e" if m: "m \<in> set d" for m
  proof -
    obtain k v where kv: "m = (k, v)" by (rule prod.exhaust)
    then have "dict_get d k = Some v" using m dict_get_iff [OF readable_keys [OF 2(3)]] by simp
    with get [of k] obtain w where w: "dict_get e k = Some w" "same_json v w" "readable fl v" "readable fl w"
      by (auto simp: option_rel_Some1)
    with 2(1) m kv have "?t v = ?t w" by fastforce
    moreover have "(k, w) \<in> set e" using w(1) dict_get_iff [OF readable_keys [OF 2(4)]] by simp
    ultimately show ?thesis using kv by force
  qed
  have keys: "distinct (List.map fst (List.map ?f d))" "distinct (List.map fst (List.map ?f e))"
    using readable_keys [OF 2(3)] readable_keys [OF 2(4)] by (simp_all add: comp_def case_prod_unfold)
  have "set (List.map ?f d) = set (List.map ?f e)"
  proof (rule card_subset_eq)
    show "set (List.map ?f d) \<subseteq> set (List.map ?f e)" using sub by auto
    show "card (set (List.map ?f d)) = card (set (List.map ?f e))"
      using keys [THEN distinct_map [THEN iffD1], THEN conjunct1, THEN distinct_card] 2(2)
      by (simp only: length_map same_json.simps)
  qed simp
  from sort_key_unique [OF keys this] show ?case by (simp add: in_order_def compact_format_def)
qed auto

subsection \<open>One signature\<close>

text \<open>Fields in one order, with equal values.\<close>

definition same_fields :: "(string \<Rightarrow> string) \<Rightarrow> dict \<Rightarrow> dict \<Rightarrow> bool" where
  "same_fields fl p q \<longleftrightarrow>
     list_all2 (\<lambda>(k, v) (j, w). k = j \<and> \<not> is_kint k \<and> same_json v w \<and> readable fl v \<and> readable fl w) p q"

lemma same_fields_append: "same_fields fl p q \<Longrightarrow> same_fields fl p' q' \<Longrightarrow> same_fields fl (p @ p') (q @ q')"
  by (simp add: same_fields_def list_all2_appendI)

lemma same_fields_text:
  assumes "same_fields fl p q"
  shows "canonical_json (JObj p) = canonical_json (JObj q)"
proof -
  have "List.map (\<lambda>(k, v). (k, json_text compact_format v)) p = List.map (\<lambda>(k, v). (k, json_text compact_format v)) q"
    using assms canonical_text
    by (intro map_nth_eq) (auto simp: same_fields_def list_all2_conv_all_nth case_prod_unfold)
  moreover have "serialisable compact_format (JObj p)" "serialisable compact_format (JObj q)"
    using assms str_keyed_serialisable
    by (fastforce simp: same_fields_def list_all2_conv_all_nth comparable_def list_all_length readable_def)+
  ultimately show ?thesis by (simp add: canonical_json_def json_dumps_def)
qed

lemma require_fields_same:
  assumes "readable fl (JObj d)" and "readable fl (JObj e)" and "same_json (JObj d) (JObj e)"
  shows "rel_sum (=) (same_fields fl) (require_fields d ks) (require_fields e ks)"
proof (induction ks)
  case (Cons k ks)
  have "rel_option (\<lambda>v w. same_json v w \<and> readable fl v \<and> readable fl w) (dict_get d (KStr k)) (dict_get e (KStr k))"
    using assms by (rule same_json_get)
  with Cons show ?case
    by (cases "dict_get d (KStr k)"; cases "dict_get e (KStr k)"; cases "require_fields d ks"; cases "require_fields e ks")
      (auto simp: require_field_def same_fields_def)
qed (simp add: same_fields_def)

lemma same_json_null: "same_json v w \<Longrightarrow> v = JNull \<longleftrightarrow> w = JNull"
  by (cases v; cases w) auto

lemma optional_field_same:
  assumes "readable fl (JObj d)" and "readable fl (JObj e)" and "same_json (JObj d) (JObj e)"
  shows "same_fields fl (optional_field d k) (optional_field e k)"
  using same_json_get [OF assms, of "KStr k"] same_json_null
  by (auto simp: optional_field_def same_fields_def option_rel_Some1 split: option.splits)

lemma sign_same:
  assumes "readable fl (JObj d)" and "readable fl (JObj e)" and "same_json (JObj d) (JObj e)"
  shows "sign mac key d = sign mac key e"
proof -
  have "rel_sum (=) (same_fields fl) (signing_payload d) (signing_payload e)"
    using require_fields_same [OF assms, of signed_fields] optional_field_same [OF assms]
    by (cases "require_fields d signed_fields"; cases "require_fields e signed_fields")
      (auto simp: signing_payload_def intro!: same_fields_append)
  then show ?thesis
    by (cases "signing_payload d"; cases "signing_payload e") (auto simp: sign_def dest: same_fields_text)
qed

lemma same_json_string: "same_json v w \<Longrightarrow> v = JStr s \<longleftrightarrow> w = JStr s"
  by (cases v; cases w) auto

lemma field_same:
  assumes "readable fl (JObj d)" and "readable fl (JObj e)" and "same_json (JObj d) (JObj e)"
  shows "dict_get d k = Some (JStr s) \<longleftrightarrow> dict_get e k = Some (JStr s)"
  using same_json_get [OF assms, of k] same_json_string
  by (cases "dict_get d k"; cases "dict_get e k") auto

lemma verify_from_same:
  assumes "list_all2 same_json rs rs'" and "list_all (readable fl) rs" and "list_all (readable fl) rs'"
  shows "verify_from mac key i (JStr p) rs = verify_from mac key i (JStr p) rs'"
  using assms
proof (induction rs rs' arbitrary: i p rule: list_all2_induct)
  case (Cons r rs r' rs')
  show ?case
  proof (cases "\<exists>d. r = JObj d")
    case True
    then obtain d where d: "r = JObj d" by blast
    with Cons.hyps(1) obtain e where e: "r' = JObj e" by (cases r') auto
    have re: "readable fl (JObj d)" "readable fl (JObj e)" "same_json (JObj d) (JObj e)"
      using Cons d e by simp_all
    note same = sign_same [OF re, of mac key] field_same [OF re]
    have "verify_from mac key (Suc i) (JStr t) rs = verify_from mac key (Suc i) (JStr t) rs'" for t
      using Cons by simp
    with same d e show ?thesis by (simp split: sum.split)
  next
    case False
    with Cons.hyps(1) have "(\<forall>e. r' \<noteq> JObj e) \<and> quoted_type r = quoted_type r'"
      by (cases r; cases r') (auto simp: quoted_type_def json_type_def)
    with False show ?thesis by (cases r; cases r') auto
  qed
qed simp

lemma parse_lines_readable:
  assumes "float_codec fl" and "parse_lines fl raw = Inr rs"
  shows "list_all (readable fl) rs"
proof -
  have "load_lines fl ls = Inr rs \<Longrightarrow> list_all (readable fl) rs" for ls rs
    using assms(1) by (induction fl ls arbitrary: rs rule: load_lines.induct)
      (auto simp: readable_def split: if_splits sum.splits dest: json_loads_ok)
  with assms(2) show ?thesis by (simp add: parse_lines_def)
qed

subsection \<open>The ledger\<close>

text \<open>C21: signatures are those of the content, not of its spelling: take two ledger texts with the same
  number of records, each equal to the one in the same place of the other up to the order of the members of its
  dictionaries, at any depth (another port of the library or another dictionary may write them
  differently). Then each pair of records has the same signature under any key, and verification
  gives the same verdict on both files, the same count or the same broken line and reason.\<close>

theorem reordered_ledger_verifies_alike:
  assumes "parse_lines fl raw = Inr rs" and "parse_lines fl raw' = Inr rs'" and "float_codec fl"
    and "list_all2 same_json rs rs'"
  shows "verify_ledger hmac_hex fl environ key (Some raw) = verify_ledger hmac_hex fl environ key (Some raw') \<and>
    (\<forall>i < length rs. \<forall>d d'. rs ! i = JObj d \<and> rs' ! i = JObj d' \<longrightarrow> sign hmac_hex k d = sign hmac_hex k d')"
proof -
  note ok = parse_lines_readable [OF assms(3,1)] parse_lines_readable [OF assms(3,2)]
  have "sign hmac_hex k d = sign hmac_hex k d'" if "i < length rs" "rs ! i = JObj d" "rs' ! i = JObj d'" for i d d'
  proof (rule sign_same)
    have "readable fl (rs ! i)" "readable fl (rs' ! i)" "same_json (rs ! i) (rs' ! i)"
      using that(1) ok assms(4) by (simp_all add: list_all2_conv_all_nth list_all_length)
    then show "readable fl (JObj d)" "readable fl (JObj d')" "same_json (JObj d) (JObj d')"
      unfolding that(2,3) .
  qed
  moreover have "verify_ledger hmac_hex fl environ key (Some raw) = verify_ledger hmac_hex fl environ key (Some raw')"
    using verify_from_same [OF assms(4) ok] assms(1,2) by (simp add: verify_ledger_def)
  ultimately show ?thesis by blast
qed

text \<open>An example: two lines that differ in the order of their members only.\<close>

definition fields_ab :: dict where
  "fields_ab = [(KStr ''inputs'', JObj [(KStr ''b'', JInt 1), (KStr ''a'', JInt 2)]), (KStr ''sig'', JStr [])]"

definition fields_ba :: dict where
  "fields_ba = [(KStr ''sig'', JStr []), (KStr ''inputs'', JObj [(KStr ''a'', JInt 2), (KStr ''b'', JInt 1)])]"

lemma lines_parsed:
  "parse_lines half (line_of (JObj fields_ab)) = Inr [JObj fields_ab]"
  "parse_lines half (line_of (JObj fields_ba)) = Inr [JObj fields_ba]"
proof -
  have "json_ok half (JObj fields_ab)" "json_ok half (JObj fields_ba)" by (simp_all add: fields_ab_def fields_ba_def)
  moreover have "loaded default_format (JObj fields_ab) = JObj fields_ab"
    "loaded default_format (JObj fields_ba) = JObj fields_ba" by code_simp+
  ultimately show "parse_lines half (line_of (JObj fields_ab)) = Inr [JObj fields_ab]"
    "parse_lines half (line_of (JObj fields_ba)) = Inr [JObj fields_ba]"
    using parse_one_line by metis+
qed

theorem reordered_ledger_verifies_alike_witness:
  "fields_ab \<noteq> fields_ba \<and>
   verify_ledger hmac_hex half Map.empty None (Some (line_of (JObj fields_ab))) =
     verify_ledger hmac_hex half Map.empty None (Some (line_of (JObj fields_ba)))"
proof -
  have "fields_ab \<noteq> fields_ba" by (simp add: fields_ab_def fields_ba_def)
  moreover have "list_all2 same_json [JObj fields_ab] [JObj fields_ba]"
    by (simp add: dict_get_def fields_ab_def fields_ba_def)
  from reordered_ledger_verifies_alike [OF lines_parsed half_codec this]
  have "verify_ledger hmac_hex half Map.empty None (Some (line_of (JObj fields_ab))) =
     verify_ledger hmac_hex half Map.empty None (Some (line_of (JObj fields_ba)))" by blast
  ultimately show ?thesis by blast
qed

end
