(* ===== verification/Atomic.thy ===== *)
theory Atomic
  imports Prelude
begin

section \<open>Atomic file writes\<close>

text \<open>
  Models \<^verbatim>\<open>python/src/cubiczan_resilience/atomic.py\<close>. A file system maps paths to files (bytes and
  permission bits). Each operating system call is a step that succeeds with its effect or raises the
  exception the argument \<open>faults\<close> gives for it; a write may leave some bytes behind when it fails,
  \<^verbatim>\<open>os.replace\<close> is atomic. A run returns the states it passes through, the latest first: a crash of
  the process leaves the disk in one of them, and another process may see any of them.
\<close>

record file_node =
  fn_data :: string
  fn_mode :: int

type_synonym fs = "string \<rightharpoonup> file_node"

record faults =
  mkdir_fault :: "exn option"
  mkstemp_fault :: "exn option"
  write_fault :: "(nat \<times> exn) option"
  fsync_fault :: "exn option"
  chmod_fault :: "exn option"
  replace_fault :: "exn option"
  unlink_fault :: "exn option"

definition no_faults :: faults where
  "no_faults = \<lparr>mkdir_fault = None, mkstemp_fault = None, write_fault = None, fsync_fault = None,
     chmod_fault = None, replace_fault = None, unlink_fault = None\<rparr>"

type_synonym io = "fs \<Rightarrow> (exn + unit) \<times> fs list"

text \<open>A step that raises or has its effect, and the sequence of two steps.\<close>

definition step :: "exn option \<Rightarrow> (fs \<Rightarrow> fs) \<Rightarrow> io" where
  "step fault effect s =
     (case fault of Some e \<Rightarrow> (Inl e, [s]) | None \<Rightarrow> (Inr (), [effect s]))"

definition and_then :: "io \<Rightarrow> io \<Rightarrow> io" where
  "and_then a b s =
     (case a s of
        (Inl e, trace) \<Rightarrow> (Inl e, trace)
      | (Inr _, trace) \<Rightarrow> (case b (hd trace) of (r, trace') \<Rightarrow> (r, trace' @ trace)))"

definition write_temp :: "faults \<Rightarrow> string \<Rightarrow> string \<Rightarrow> io" where
  "write_temp f tmp payload s =
     (let put = (\<lambda>bytes. s(tmp := map_option (\<lambda>n. n\<lparr>fn_data := bytes\<rparr>) (s tmp))) in
      case write_fault f of
        Some (n, e) \<Rightarrow> (Inl e, [put (take n payload)])
      | None \<Rightarrow> (Inr (), [put payload]))"

definition set_mode :: "string \<Rightarrow> int option \<Rightarrow> fs \<Rightarrow> fs" where
  "set_mode tmp mode s =
     (case mode of None \<Rightarrow> s | Some m \<Rightarrow> s(tmp := map_option (\<lambda>n. n\<lparr>fn_mode := m\<rparr>) (s tmp)))"

text \<open>The \<^verbatim>\<open>try\<close> block: write, flush and sync, set the permissions, move into place.\<close>

definition write_and_replace ::
  "faults \<Rightarrow> string \<Rightarrow> string \<Rightarrow> string \<Rightarrow> int option \<Rightarrow> bool \<Rightarrow> io" where
  "write_and_replace f tmp dest payload mode fsync =
     and_then (write_temp f tmp payload)
       (and_then (step (if fsync then fsync_fault f else None) id)
         (and_then (step (if mode = None then None else chmod_fault f) (set_mode tmp mode))
           (step (replace_fault f) (\<lambda>s. s(tmp := None, dest := s tmp)))))"

text \<open>The handler: remove the temporary file and raise again; \<^verbatim>\<open>FileNotFoundError\<close> from \<^verbatim>\<open>unlink\<close> says that
  it is gone already, and is passed over.\<close>

definition clean_up :: "faults \<Rightarrow> string \<Rightarrow> io \<Rightarrow> io" where
  "clean_up f tmp body s =
     (case body s of
        (Inr u, trace) \<Rightarrow> (Inr u, trace)
      | (Inl e, trace) \<Rightarrow>
          (if case unlink_fault f of None \<Rightarrow> False | Some e' \<Rightarrow> \<not> isinstance e' FileNotFoundError
           then (Inl (the (unlink_fault f)), trace)
           else (Inl e, (hd trace)(tmp := None) # trace)))"

text \<open>\<open>data\<close> is \<^verbatim>\<open>data.encode(encoding)\<close>, which may raise, or the bytes given; \<open>tmp\<close> is the name
  \<^verbatim>\<open>mkstemp\<close> picks, with permissions 0600 (384).\<close>

definition atomic_write ::
  "faults \<Rightarrow> string \<Rightarrow> string \<Rightarrow> exn + string \<Rightarrow> int option \<Rightarrow> bool \<Rightarrow> io" where
  "atomic_write f tmp dest data mode fsync =
     and_then (step (mkdir_fault f) id)
       (case data of
          Inl e \<Rightarrow> step (Some e) id
        | Inr payload \<Rightarrow>
            and_then (step (mkstemp_fault f) (\<lambda>s. s(tmp \<mapsto> \<lparr>fn_data = [], fn_mode = 384\<rparr>)))
              (clean_up f tmp (write_and_replace f tmp dest payload mode fsync)))"

subsection \<open>All or nothing\<close>

lemma step_nonempty: "snd (step f e s) \<noteq> []"
  by (simp add: step_def split: option.split)

lemma and_then_nonempty: "snd (a s) \<noteq> [] \<Longrightarrow> snd (and_then a b s) \<noteq> []"
  by (auto simp: and_then_def split: prod.splits sum.splits)

lemma atomic_write_nonempty: "snd (atomic_write f tmp dest data mode fsync s) \<noteq> []"
  unfolding atomic_write_def by (intro and_then_nonempty step_nonempty)

text \<open>What a run of the \<^verbatim>\<open>try\<close> block may do to the disk.\<close>

definition only_temp :: "string \<Rightarrow> fs \<Rightarrow> fs \<Rightarrow> bool" where
  "only_temp tmp s s' \<longleftrightarrow> (\<forall>q. q \<noteq> tmp \<longrightarrow> s' q = s q)"

definition installed :: "string \<Rightarrow> string \<Rightarrow> string \<Rightarrow> int option \<Rightarrow> fs \<Rightarrow> fs" where
  "installed tmp dest payload mode s =
     s(tmp := None, dest \<mapsto> \<lparr>fn_data = payload, fn_mode = (case mode of None \<Rightarrow> 384 | Some m \<Rightarrow> m)\<rparr>)"

lemma write_and_replace_trace:
  assumes "write_and_replace f tmp dest payload mode fsync s = (r, tr)"
    and "s tmp = Some \<lparr>fn_data = [], fn_mode = 384\<rparr>" "tmp \<noteq> dest"
  shows "tr \<noteq> [] \<and>
    (case r of
       Inl e \<Rightarrow> \<forall>s' \<in> set tr. only_temp tmp s s'
     | Inr _ \<Rightarrow> \<exists>tr'. tr = installed tmp dest payload mode s # tr' \<and> (\<forall>s' \<in> set tr'. only_temp tmp s s'))"
  using assms
  by (cases mode; cases "write_fault f"; cases "fsync_fault f"; cases "chmod_fault f"; cases "replace_fault f")
    (auto simp: write_and_replace_def and_then_def write_temp_def step_def set_mode_def only_temp_def
      installed_def Let_def split: if_splits)

lemma clean_up_trace:
  assumes "clean_up f tmp (write_and_replace f tmp dest payload mode fsync) s = (r, tr)"
    and "s tmp = Some \<lparr>fn_data = [], fn_mode = 384\<rparr>" "tmp \<noteq> dest"
  shows "tr \<noteq> [] \<and>
    (case r of
       Inl e \<Rightarrow> (\<forall>s' \<in> set tr. only_temp tmp s s') \<and> (unlink_fault f = None \<longrightarrow> hd tr tmp = None)
     | Inr _ \<Rightarrow> \<exists>tr'. tr = installed tmp dest payload mode s # tr' \<and> (\<forall>s' \<in> set tr'. only_temp tmp s s'))"
proof -
  obtain q t where w: "write_and_replace f tmp dest payload mode fsync s = (q, t)" by (rule prod.exhaust)
  from write_and_replace_trace [OF w assms(2,3)] assms(1) w show ?thesis
    by (cases q; cases t) (auto simp: clean_up_def only_temp_def split: option.splits if_splits)
qed

lemma atomic_write_cases:
  assumes "atomic_write f tmp dest (Inr payload) mode fsync s = (r, tr)"
    and "s tmp = None" and "tmp \<noteq> dest"
  shows "(\<forall>s' \<in> set tr. (s' dest = s dest \<or> map_option fn_data (s' dest) = Some payload) \<and>
        (\<forall>q. q \<noteq> dest \<and> q \<noteq> tmp \<longrightarrow> s' q = s q)) \<and>
     (case r of
        Inr _ \<Rightarrow> hd tr = s(dest \<mapsto> \<lparr>fn_data = payload, fn_mode = (case mode of None \<Rightarrow> 384 | Some m \<Rightarrow> m)\<rparr>)
      | Inl _ \<Rightarrow> hd tr dest = s dest \<and> (unlink_fault f = None \<longrightarrow> hd tr = s))"
proof -
  let ?t = "s(tmp \<mapsto> \<lparr>fn_data = [], fn_mode = 384\<rparr>)"
  consider (early) e where "r = Inl e" "set tr = {s}" "tr \<noteq> []"
    | (late) t rest where "clean_up f tmp (write_and_replace f tmp dest payload mode fsync) ?t = (r, t)"
      "tr = t @ rest" "set rest \<subseteq> {s, ?t}"
    using assms(1)
    by (fastforce simp: atomic_write_def and_then_def step_def split: option.splits prod.splits)
  then show ?thesis
  proof cases
    case early
    then show ?thesis by (cases tr) auto
  next
    case late
    have c: "t \<noteq> [] \<and>
      (case r of
         Inl e \<Rightarrow> (\<forall>s' \<in> set t. only_temp tmp ?t s') \<and> (unlink_fault f = None \<longrightarrow> hd t tmp = None)
       | Inr _ \<Rightarrow> \<exists>tr'. t = installed tmp dest payload mode ?t # tr' \<and> (\<forall>s' \<in> set tr'. only_temp tmp ?t s'))"
      by (rule clean_up_trace [OF late(1)]) (use assms(3) in simp_all)
    have same: "s' dest = s dest \<and> (\<forall>q. q \<noteq> dest \<and> q \<noteq> tmp \<longrightarrow> s' q = s q)" if "only_temp tmp ?t s'" for s'
      using that assms(3) by (auto simp: only_temp_def)
    have rest: "s' dest = s dest \<and> (\<forall>q. q \<noteq> dest \<and> q \<noteq> tmp \<longrightarrow> s' q = s q)" if "s' \<in> set rest" for s'
      using that late(3) assms(3) by auto
    have inst: "installed tmp dest payload mode ?t =
        s(dest \<mapsto> \<lparr>fn_data = payload, fn_mode = (case mode of None \<Rightarrow> 384 | Some m \<Rightarrow> m)\<rparr>)"
      using assms(2,3) by (auto simp: installed_def fun_eq_iff)
    have undone: "hd t = s" if "only_temp tmp ?t (hd t)" "hd t tmp = None"
    proof (rule ext)
      fix q show "hd t q = s q" using that assms(2) by (cases "q = tmp") (auto simp: only_temp_def)
    qed
    have safe: "(s' dest = s dest \<or> map_option fn_data (s' dest) = Some payload) \<and>
        (\<forall>q. q \<noteq> dest \<and> q \<noteq> tmp \<longrightarrow> s' q = s q)"
      if "only_temp tmp ?t s' \<or> s' \<in> set rest \<or> s' = installed tmp dest payload mode ?t" for s'
      using that
    proof (elim disjE)
      assume "s' = installed tmp dest payload mode ?t"
      then show ?thesis unfolding inst by simp
    qed (use same rest in blast)+
    have hd: "hd tr = hd t" using c late(2) by simp
    show ?thesis
    proof (cases r)
      case (Inl e)
      with c have "hd t \<in> set t" "\<forall>s' \<in> set t. only_temp tmp ?t s'" by auto
      then have all: "\<forall>s' \<in> set tr. only_temp tmp ?t s' \<or> s' \<in> set rest" and first: "only_temp tmp ?t (hd t)"
        using late(2) by auto
      have "hd tr dest = s dest" using same [OF first] hd by simp
      moreover have "unlink_fault f = None \<longrightarrow> hd tr = s" using Inl c undone [OF first] hd by simp
      ultimately show ?thesis using Inl all safe by (simp del: map_option_eq_Some) blast
    next
      case (Inr u)
      then obtain tr' where t: "t = installed tmp dest payload mode ?t # tr'" "\<forall>s' \<in> set tr'. only_temp tmp ?t s'"
        using c by auto
      then have "\<forall>s' \<in> set tr. only_temp tmp ?t s' \<or> s' \<in> set rest \<or> s' = installed tmp dest payload mode ?t"
        using late(2) by auto
      moreover have "hd tr = installed tmp dest payload mode ?t" using hd t(1) by simp
      ultimately show ?thesis using Inr safe inst by (simp del: map_option_eq_Some)
    qed
  qed
qed

subsection \<open>The contract\<close>

text \<open>What the users of an atomic write rely on, whatever faults \<open>e\<close> it meets: a write that returns
  has installed its bytes and left no temporary file, one that raises has not touched the destination,
  and no state in between shows anything else. A reader of the destination never sees a mixture.\<close>

locale atomic_writer =
  fixes put :: "'e \<Rightarrow> string \<Rightarrow> string \<Rightarrow> string \<Rightarrow> io"
  assumes returned: "s tmp = None \<Longrightarrow> tmp \<noteq> dest \<Longrightarrow> put e tmp dest payload s = (Inr u, tr) \<Longrightarrow>
      hd tr tmp = None \<and> map_option fn_data (hd tr dest) = Some payload"
    and raised: "s tmp = None \<Longrightarrow> tmp \<noteq> dest \<Longrightarrow> put e tmp dest payload s = (Inl exc, tr) \<Longrightarrow>
      hd tr dest = s dest"
    and passed: "s tmp = None \<Longrightarrow> tmp \<noteq> dest \<Longrightarrow> put e tmp dest payload s = (r, tr) \<Longrightarrow> s' \<in> set tr \<Longrightarrow>
      (s' dest = s dest \<or> map_option fn_data (s' dest) = Some payload) \<and>
      (\<forall>q. q \<noteq> dest \<and> q \<noteq> tmp \<longrightarrow> s' q = s q)"
    and stepped: "put e tmp dest payload s = (r, tr) \<Longrightarrow> tr \<noteq> []"
begin

lemma finished:
  assumes "s tmp = None" "tmp \<noteq> dest" "put e tmp dest payload s = (r, tr)"
  shows "(\<forall>q. q \<noteq> dest \<longrightarrow> q \<noteq> tmp \<longrightarrow> hd tr q = s q) \<and>
    (if isl r then hd tr dest = s dest
     else hd tr tmp = None \<and> map_option fn_data (hd tr dest) = Some payload)"
proof -
  have "hd tr \<in> set tr" using stepped [OF assms(3)] by simp
  from passed [of s tmp dest e payload r tr "hd tr", OF assms this]
    returned [of s tmp dest e payload _ tr, OF assms(1,2)]
    raised [of s tmp dest e payload _ tr, OF assms(1,2)] assms(3)
  show ?thesis by (cases r) auto
qed

lemma reader:
  assumes "s tmp = None" "tmp \<noteq> dest" "put e tmp dest payload s = (r, tr)" "s' \<in> set tr"
    and "\<And>a b. map_option fn_data (a dest) = map_option fn_data (b dest) \<Longrightarrow> read a = read b"
    and "map_option fn_data (new dest) = Some payload"
  shows "read s' = read s \<or> read s' = read new"
  using passed [of s tmp dest e payload r tr s', OF assms(1-4)] assms(5) [of s' s] assms(5) [of s' new] assms(6) by auto

end

interpretation aw: atomic_writer "\<lambda>f tmp dest payload. atomic_write f tmp dest (Inr payload) mode fsync"
  for mode fsync
proof unfold_locales
  fix s :: fs and f tmp dest payload r tr
  show "tr \<noteq> []" if "atomic_write f tmp dest (Inr payload) mode fsync s = (r, tr)"
    using atomic_write_nonempty [of f tmp dest "Inr payload" mode fsync s] that by simp
  assume tmp: "s tmp = None" "tmp \<noteq> dest"
  show "hd tr tmp = None \<and> map_option fn_data (hd tr dest) = Some payload"
    if "atomic_write f tmp dest (Inr payload) mode fsync s = (Inr u, tr)" for u
    using atomic_write_cases [OF that tmp] tmp by simp
  show "hd tr dest = s dest"
    if "atomic_write f tmp dest (Inr payload) mode fsync s = (Inl exc, tr)" for exc
    using atomic_write_cases [OF that tmp] by simp
  show "(s' dest = s dest \<or> map_option fn_data (s' dest) = Some payload) \<and>
      (\<forall>q. q \<noteq> dest \<and> q \<noteq> tmp \<longrightarrow> s' q = s q)"
    if "atomic_write f tmp dest (Inr payload) mode fsync s = (r, tr)" "s' \<in> set tr" for s'
    using conjunct1 [OF atomic_write_cases [OF that(1) tmp]] that(2) by blast
qed

text \<open>C13: a write is all or nothing. In every state the disk passes through (so after a crash at any
  point, and for any concurrent reader) the destination holds its old content or the whole new one, and
  no other file but the temporary one is touched; if the call returns, the destination has the new
  bytes with the requested permissions (0600 when none are requested, whatever it had before) and
  nothing else changed; if it raises, the destination is untouched, and no temporary file is left
  unless removing it failed too.\<close>

theorem atomic_write_all_or_nothing:
  assumes "atomic_write f tmp dest (Inr payload) mode fsync s = (r, tr)"
    and "s tmp = None" and "tmp \<noteq> dest"
  shows "(\<forall>s' \<in> set tr. (s' dest = s dest \<or> map_option fn_data (s' dest) = Some payload) \<and>
        (\<forall>q. q \<noteq> dest \<and> q \<noteq> tmp \<longrightarrow> s' q = s q)) \<and>
     (case r of
        Inr _ \<Rightarrow> hd tr = s(dest \<mapsto> \<lparr>fn_data = payload, fn_mode = (case mode of None \<Rightarrow> 384 | Some m \<Rightarrow> m)\<rparr>)
      | Inl _ \<Rightarrow> hd tr dest = s dest \<and> (unlink_fault f = None \<longrightarrow> hd tr = s))"
  using atomic_write_cases [OF assms] .

theorem atomic_write_all_or_nothing_witness:
  "\<exists>tr. atomic_write (no_faults\<lparr>replace_fault := Some (mk_exn OSError ''busy'')\<rparr>) ''t'' ''d'' (Inr ''new'')
       None True [''d'' \<mapsto> \<lparr>fn_data = ''old'', fn_mode = 420\<rparr>] = (Inl (mk_exn OSError ''busy''), tr) \<and>
     hd tr = [''d'' \<mapsto> \<lparr>fn_data = ''old'', fn_mode = 420\<rparr>]"
proof -
  let ?f = "no_faults\<lparr>replace_fault := Some (mk_exn OSError ''busy'')\<rparr>"
  let ?s = "[''d'' \<mapsto> \<lparr>fn_data = ''old'', fn_mode = 420\<rparr>] :: fs"
  obtain r tr where w: "atomic_write ?f ''t'' ''d'' (Inr ''new'') None True ?s = (r, tr)" by (rule prod.exhaust)
  then have "r = Inl (mk_exn OSError ''busy'')"
    by (auto simp: atomic_write_def and_then_def step_def clean_up_def write_and_replace_def write_temp_def
        no_faults_def set_mode_def Let_def)
  with atomic_write_all_or_nothing [OF w] w show ?thesis by (simp add: no_faults_def)
qed

end
