(* ===== verification/Store_Contract.thy ===== *)
theory Store_Contract
  imports Json
begin

section \<open>The contract of an idempotency store\<close>

text \<open>
  The protocol \<^verbatim>\<open>IdempotencyStore\<close> of \<^verbatim>\<open>idempotency.py\<close> as an interface: a store of type \<open>'s\<close>,
  and operations that run in an environment of type \<open>'e\<close> (what the operating system does during the
  call). The laws are those its docstrings promise of \<^verbatim>\<open>mark_done\<close>, on the calls that return; what
  clients may conclude from them is proved once here.
\<close>

record ('e, 's) store_ops =
  so_done :: "'s \<Rightarrow> string \<Rightarrow> bool"
  so_result :: "'s \<Rightarrow> string \<Rightarrow> json"
  so_mark :: "'e \<Rightarrow> string \<Rightarrow> json \<Rightarrow> 's \<Rightarrow> (exn + bool) \<times> 's"

text \<open>A sequence of marks, with their answers.\<close>

fun marks ::
  "('e, 's) store_ops \<Rightarrow> ('e \<times> string \<times> json) list \<Rightarrow> 's \<Rightarrow> (exn + bool) list \<times> 's" where
  "marks ops [] s = ([], s)"
| "marks ops ((e, k, v) # ms) s =
     (case so_mark ops e k v s of
        (r, s1) \<Rightarrow> (case marks ops ms s1 of (rs, s2) \<Rightarrow> (r # rs, s2)))"

lemma marks_length: "marks ops ms s = (rs, s') \<Longrightarrow> length rs = length ms"
  by (induction ms arbitrary: rs s) (auto split: prod.splits)

locale idempotency_store =
  fixes ops :: "('e, 's) store_ops"
  assumes claim: "\<not> so_done ops s k \<Longrightarrow> so_mark ops e k v s = (Inr b, s') \<Longrightarrow>
      b \<and> so_done ops s' k \<and> so_result ops s' k = v"
    and refuse: "so_done ops s k \<Longrightarrow> so_mark ops e k v s = (Inr False, s)"
    and other_keys: "so_mark ops e k v s = (r, s') \<Longrightarrow> j \<noteq> k \<Longrightarrow>
      so_done ops s' j = so_done ops s j \<and> so_result ops s' j = so_result ops s j"
begin

lemma done_stays:
  assumes "so_done ops s k" "marks ops ms s = (rs, s')"
  shows "so_done ops s' k \<and> so_result ops s' k = so_result ops s k \<and>
    (\<forall>i < length ms. fst (snd (ms ! i)) = k \<longrightarrow> rs ! i = Inr False)"
  using assms
proof (induction ms arbitrary: rs s)
  case (Cons m ms)
  obtain e j v where em: "m = (e, j, v)" by (rule prod_cases3)
  obtain r s1 where so: "so_mark ops e j v s = (r, s1)" by (rule prod.exhaust)
  obtain qs where q: "marks ops ms s1 = (qs, s')" "rs = r # qs"
    using Cons.prems(2) so em by (auto split: prod.splits)
  have s1: "so_done ops s1 k \<and> so_result ops s1 k = so_result ops s k \<and> (j = k \<longrightarrow> r = Inr False)"
    using so Cons.prems(1) refuse [of s k e v] other_keys [OF so, of k] by (cases "j = k") auto
  with Cons.IH [of s1 qs] q em show ?case
    by (auto simp: nth_Cons split: nat.splits)
qed simp

text \<open>However often a key is claimed, the first call that does not raise wins: it is the only one
  answered \<^verbatim>\<open>True\<close>, and the result kept is the one it brought.\<close>

lemma first_writer_wins:
  assumes "marks ops ms s = (rs, s')" "\<not> so_done ops s k" "i < length ms" "fst (snd (ms ! i)) = k"
    and "\<forall>j < i. fst (snd (ms ! j)) \<noteq> k" and "isl (rs ! i) = False"
  shows "rs ! i = Inr True \<and> so_result ops s' k = snd (snd (ms ! i)) \<and> so_done ops s' k \<and>
    (\<forall>j < length ms. i < j \<and> fst (snd (ms ! j)) = k \<longrightarrow> rs ! j = Inr False)"
  using assms
proof (induction ms arbitrary: rs s i)
  case (Cons m ms)
  obtain e key v where em: "m = (e, key, v)" by (rule prod_cases3)
  obtain r s1 where so: "so_mark ops e key v s = (r, s1)" by (rule prod.exhaust)
  obtain qs where q: "marks ops ms s1 = (qs, s')" "rs = r # qs" using Cons.prems(1) so em by (auto split: prod.splits)
  show ?case
  proof (cases i)
    case 0
    with Cons.prems em q have k: "key = k" and r: "\<not> isl r" by auto
    from r obtain b where b: "r = Inr b" by (cases r) auto
    from claim [OF Cons.prems(2), of e v b s1] so k b have s1: "b" "so_done ops s1 k" "so_result ops s1 k = v" by auto
    have later: "rs ! j = Inr False" if "j < length (m # ms)" "0 < j"
        "fst (snd ((m # ms) ! j)) = k" for j
      using that done_stays [OF s1(2) q(1)] q(2) by (cases j) auto
    from done_stays [OF s1(2) q(1)] s1 b q(2) 0 em later show ?thesis by auto
  next
    case (Suc n)
    have "key \<noteq> k" using Cons.prems(5) Suc em by auto
    then have "\<not> so_done ops s1 k" using other_keys [OF so, of k] Cons.prems(2) by auto
    have "\<forall>j < n. fst (snd (ms ! j)) \<noteq> k" using Cons.prems(5) Suc by (metis Suc_less_eq nth_Cons_Suc)
    with Cons.IH [of s1 qs n] q(1) \<open>\<not> so_done ops s1 k\<close> Cons.prems(3,4,6) q(2) Suc
    have IH: "qs ! n = Inr True \<and> so_result ops s' k = snd (snd (ms ! n)) \<and> so_done ops s' k \<and>
      (\<forall>j < length ms. n < j \<and> fst (snd (ms ! j)) = k \<longrightarrow> qs ! j = Inr False)" by auto
    have "rs ! j = Inr False" if "j < length (m # ms)" "i < j"
        "fst (snd ((m # ms) ! j)) = k" for j
      using that IH q(2) Suc by (cases j) auto
    with IH q(2) Suc show ?thesis by auto
  qed
qed simp

end

text \<open>A claim that raises leaves its key as it was; then it may be claimed again, and the first claim that
  returns wins.\<close>

locale clean_store = idempotency_store ops for ops :: "('e, 's) store_ops" +
  assumes failed: "so_mark ops e k v s = (Inl exc, s') \<Longrightarrow> so_done ops s' k = so_done ops s k"
begin

lemma still_open:
  assumes "marks ops ms s = (rs, s')" "\<not> so_done ops s k"
    and "\<forall>j < length ms. fst (snd (ms ! j)) = k \<longrightarrow> isl (rs ! j)"
  shows "\<not> so_done ops s' k"
  using assms
proof (induction ms arbitrary: rs s)
  case (Cons m ms)
  obtain e j v where em: "m = (e, j, v)" by (rule prod_cases3)
  obtain r s1 where so: "so_mark ops e j v s = (r, s1)" by (rule prod.exhaust)
  obtain qs where q: "marks ops ms s1 = (qs, s')" "rs = r # qs"
    using Cons.prems(1) so em by (auto split: prod.splits)
  have "\<not> so_done ops s1 k"
  proof (cases "j = k")
    case True
    with Cons.prems(3) em q obtain exc where "r = Inl exc" by (cases r) force+
    with failed so True Cons.prems(2) show ?thesis by blast
  next
    case False
    with other_keys [OF so, of k] Cons.prems(2) show ?thesis by auto
  qed
  moreover have "\<forall>i < length ms. fst (snd (ms ! i)) = k \<longrightarrow> isl (qs ! i)"
    using Cons.prems(3) q(2) by force
  ultimately show ?case using Cons.IH [OF q(1)] by blast
qed simp

lemma marks_append:
  "marks ops (ms @ ms') s =
     (case marks ops ms s of (rs, s1) \<Rightarrow> (case marks ops ms' s1 of (rs', s2) \<Rightarrow> (rs @ rs', s2)))"
  by (induction ms arbitrary: s) (auto split: prod.splits)

lemma first_return_wins:
  assumes "marks ops ms s = (rs, s')" "\<not> so_done ops s k" "i < length ms" "fst (snd (ms ! i)) = k"
    and "\<forall>j < i. fst (snd (ms ! j)) = k \<longrightarrow> isl (rs ! j)" and "\<not> isl (rs ! i)"
  shows "rs ! i = Inr True \<and> so_result ops s' k = snd (snd (ms ! i)) \<and> so_done ops s' k \<and>
    (\<forall>j < length ms. i < j \<and> fst (snd (ms ! j)) = k \<longrightarrow> rs ! j = Inr False)"
proof -
  obtain qs s1 where 1: "marks ops (take i ms) s = (qs, s1)" by (rule prod.exhaust)
  obtain ps s2 where 2: "marks ops (drop i ms) s1 = (ps, s2)" by (rule prod.exhaust)
  have rs: "rs = qs @ ps" "s' = s2" using marks_append [of "take i ms" "drop i ms" s] assms(1) 1 2 by simp_all
  have len: "length qs = i" using marks_length [OF 1] assms(3) by simp
  have "\<not> so_done ops s1 k"
    using assms(5) len rs(1) by (intro still_open [OF 1 assms(2)]) (auto simp: nth_append)
  from first_writer_wins [OF 2 this, of 0] assms(3,4,6) rs len
  have w: "ps ! 0 = Inr True \<and> so_result ops s' k = snd (snd (ms ! i)) \<and> so_done ops s' k \<and>
      (\<forall>j < length ms - i. 0 < j \<and> fst (snd (ms ! (i + j))) = k \<longrightarrow> ps ! j = Inr False)"
    by (simp add: nth_append)
  have "\<forall>j < length ms. i < j \<and> fst (snd (ms ! j)) = k \<longrightarrow> rs ! j = Inr False"
    using w len rs(1) by (auto simp: nth_append dest!: spec [of _ "_ - i"])
  moreover have "rs ! i = ps ! 0" using rs len by (simp add: nth_append)
  ultimately show ?thesis using w by simp
qed

end

end
