(* ===== verification/Idempotency.thy ===== *)
theory Idempotency
  imports Atomic Store_Contract Json_Reader
begin

section \<open>Idempotency stores\<close>

text \<open>
  Models \<^verbatim>\<open>python/src/cubiczan_resilience/idempotency.py\<close>: the in-memory store, and the file store
  on the disk of \<^verbatim>\<open>Atomic\<close>. The locks make each method one step. The environment of a call of the
  file store is what the system does during its write, and the name of the temporary file.
\<close>

subsection \<open>In memory\<close>

type_synonym data = "(pykey \<times> json) list"

definition data_done :: "data \<Rightarrow> string \<Rightarrow> bool" where
  "data_done d k = (dict_get d (KStr k) \<noteq> None)"

definition data_result :: "data \<Rightarrow> string \<Rightarrow> json" where
  "data_result d k = (case dict_get d (KStr k) of None \<Rightarrow> JNull | Some v \<Rightarrow> v)"

definition mem_mark_done :: "unit \<Rightarrow> string \<Rightarrow> json \<Rightarrow> data \<Rightarrow> (exn + bool) \<times> data" where
  "mem_mark_done _ k v d =
     (if data_done d k then (Inr False, d) else (Inr True, dict_set d (KStr k) v))"

definition mem_clear :: "data \<Rightarrow> data" where
  "mem_clear d = []"

definition mem_store :: "(unit, data) store_ops" where
  "mem_store = \<lparr>so_done = data_done, so_result = data_result, so_mark = mem_mark_done\<rparr>"

subsection \<open>Reading a state file\<close>

text \<open>\<^verbatim>\<open>bytes.decode("utf-8")\<close>: code points above 255 are beyond the model, and an invalid sequence
  raises \<^verbatim>\<open>UnicodeDecodeError\<close>.\<close>

definition continuation :: "nat \<Rightarrow> nat \<Rightarrow> string \<Rightarrow> bool" where
  "continuation lo hi s =
     (case s of [] \<Rightarrow> False | c # _ \<Rightarrow> lo \<le> (of_char c :: nat) \<and> (of_char c :: nat) \<le> hi)"

definition wide_sequence :: "string \<Rightarrow> bool" where
  "wide_sequence s =
     (case s of
        [] \<Rightarrow> False
      | c # r \<Rightarrow>
          (let n = (of_char c :: nat); second = (if n = 224 then (160, 191) else if n = 237 then (128, 159)
                 else if n = 240 then (144, 191) else if n = 244 then (128, 143) else (128, 191)) in
           if 196 \<le> n \<and> n \<le> 223 then continuation 128 191 r
           else if 224 \<le> n \<and> n \<le> 239 then
             continuation (fst second) (snd second) r \<and> continuation 128 191 (tl r)
           else if 240 \<le> n \<and> n \<le> 244 then
             continuation (fst second) (snd second) r \<and> continuation 128 191 (tl r) \<and>
             continuation 128 191 (tl (tl r))
           else False))"

definition decode_error :: exn where
  "decode_error = mk_exn UnicodeDecodeError ''invalid utf-8''"

fun utf8_decode :: "string \<Rightarrow> exn + string" where
  "utf8_decode [] = Inr []"
| "utf8_decode (c # cs) =
     (let n = (of_char c :: nat) in
      if n < 128 then (case utf8_decode cs of Inl e \<Rightarrow> Inl e | Inr t \<Rightarrow> Inr (c # t))
      else
        (case cs of
           d # r \<Rightarrow>
             if (n = 194 \<or> n = 195) \<and> continuation 128 191 cs then
               (case utf8_decode r of
                  Inl e \<Rightarrow> Inl e
                | Inr t \<Rightarrow> Inr (char_of ((n - 192) * 64 + ((of_char d :: nat) - 128)) # t))
             else if wide_sequence (c # cs) then Inl beyond_model
             else Inl decode_error
         | [] \<Rightarrow> Inl decode_error))"

text \<open>The handler of \<^verbatim>\<open>_load\<close> catches \<^verbatim>\<open>JSONDecodeError\<close> and \<^verbatim>\<open>OSError\<close>.\<close>

definition recover :: "exn \<Rightarrow> exn + data" where
  "recover e = (if isinstance e JSONDecodeError \<or> isinstance e OSError then Inr [] else Inl e)"

definition load_state :: "(string \<Rightarrow> string) \<Rightarrow> exn option \<Rightarrow> fs \<Rightarrow> string \<Rightarrow> exn + data" where
  "load_state fl read_fault disk path =
     (case disk path of
        None \<Rightarrow> Inr []
      | Some n \<Rightarrow>
          (case (case read_fault of Some e \<Rightarrow> Inl e | None \<Rightarrow> utf8_decode (fn_data n)) of
             Inl e \<Rightarrow> recover e
           | Inr raw \<Rightarrow>
               if py_strip raw = [] then Inr []
               else
                 (case json_loads fl raw of
                    Inl e \<Rightarrow> recover e
                  | Inr v \<Rightarrow> (case v of JObj d \<Rightarrow> Inr d | _ \<Rightarrow> Inr []))))"

subsection \<open>The file store\<close>

record file_store =
  fst_path :: string
  fst_data :: data
  fst_disk :: fs

record flush_env =
  fe_faults :: faults
  fe_tmp :: string

definition open_store ::
  "(string \<Rightarrow> string) \<Rightarrow> exn option \<Rightarrow> fs \<Rightarrow> string \<Rightarrow> exn + file_store" where
  "open_store fl read_fault disk path =
     (case load_state fl read_fault disk path of
        Inl e \<Rightarrow> Inl e
      | Inr d \<Rightarrow> Inr \<lparr>fst_path = path, fst_data = d, fst_disk = disk\<rparr>)"

text \<open>\<open>flush_states\<close> are the states the disk passes through during a flush, the latest first.\<close>

definition flush_run :: "flush_env \<Rightarrow> file_store \<Rightarrow> (exn + unit) \<times> fs list" where
  "flush_run e s =
     (case json_dumps compact_format (JObj (fst_data s)) of
        Inl exc \<Rightarrow> (Inl exc, [fst_disk s])
      | Inr txt \<Rightarrow> atomic_write (fe_faults e) (fe_tmp e) (fst_path s) (Inr txt) None True (fst_disk s))"

definition flush_states :: "flush_env \<Rightarrow> file_store \<Rightarrow> fs list" where
  "flush_states e s = snd (flush_run e s)"

definition flush_store :: "flush_env \<Rightarrow> file_store \<Rightarrow> (exn + unit) \<times> file_store" where
  "flush_store e s = (case flush_run e s of (r, states) \<Rightarrow> (r, s\<lparr>fst_disk := hd states\<rparr>))"

definition file_done :: "file_store \<Rightarrow> string \<Rightarrow> bool" where
  "file_done s k = data_done (fst_data s) k"

definition file_result :: "file_store \<Rightarrow> string \<Rightarrow> json" where
  "file_result s k = data_result (fst_data s) k"

definition file_mark_done ::
  "flush_env \<Rightarrow> string \<Rightarrow> json \<Rightarrow> file_store \<Rightarrow> (exn + bool) \<times> file_store" where
  "file_mark_done e k v s =
     (if file_done s k then (Inr False, s)
      else
        (case flush_store e (s\<lparr>fst_data := dict_set (fst_data s) (KStr k) v\<rparr>) of
           (Inl exc, s') \<Rightarrow> (Inl exc, s')
         | (Inr _, s') \<Rightarrow> (Inr True, s')))"

definition disk_store :: "(flush_env, file_store) store_ops" where
  "disk_store = \<lparr>so_done = file_done, so_result = file_result, so_mark = file_mark_done\<rparr>"

subsection \<open>Both stores keep the contract\<close>

lemma flush_store_data: "flush_store e s = (r, s') \<Longrightarrow> fst_data s' = fst_data s \<and> fst_path s' = fst_path s"
  by (auto simp: flush_store_def split: sum.splits prod.splits)

interpretation mem: clean_store mem_store
  by unfold_locales
    (auto simp: mem_store_def mem_mark_done_def data_done_def data_result_def split: if_splits)

interpretation disk: idempotency_store disk_store
  by unfold_locales
    (auto simp: disk_store_def file_mark_done_def file_done_def file_result_def data_done_def data_result_def
      split: if_splits sum.splits prod.splits dest!: flush_store_data)

subsection \<open>What a flush does to the disk\<close>

definition fresh_tmp :: "flush_env \<Rightarrow> file_store \<Rightarrow> bool" where
  "fresh_tmp e s \<longleftrightarrow> fst_disk s (fe_tmp e) = None \<and> fe_tmp e \<noteq> fst_path s"

text \<open>The state file holds the data as one line of JSON; it may be missing while there are none.\<close>

definition store_inv :: "(string \<Rightarrow> string) \<Rightarrow> file_store \<Rightarrow> bool" where
  "store_inv fl s \<longleftrightarrow> dict_ok fl (fst_data s) \<and>
     (fst_data s = [] \<and> fst_disk s (fst_path s) = None \<or>
      map_option fn_data (fst_disk s (fst_path s)) = Some (json_text compact_format (JObj (fst_data s))))"

lemma flush_run_cases:
  obtains (bad) exc where "flush_run e s = (Inl exc, [fst_disk s])"
    | (run) r tr where "flush_run e s = (r, tr)"
        "atomic_write (fe_faults e) (fe_tmp e) (fst_path s)
           (Inr (json_text compact_format (JObj (fst_data s)))) None True (fst_disk s) = (r, tr)"
proof (cases "serialisable compact_format (JObj (fst_data s))")
  case False
  with bad show thesis by (simp add: flush_run_def json_dumps_def del: serialisable.simps)
next
  case True
  obtain r tr where "atomic_write (fe_faults e) (fe_tmp e) (fst_path s)
      (Inr (json_text compact_format (JObj (fst_data s)))) None True (fst_disk s) = (r, tr)"
    by (rule prod.exhaust)
  with True run show thesis by (simp add: flush_run_def json_dumps_def del: serialisable.simps json_text.simps)
qed

lemma flush_store_disk:
  assumes "flush_store e s = (r, s')" "fresh_tmp e s"
  shows "\<forall>q. q \<noteq> fst_path s \<longrightarrow> q \<noteq> fe_tmp e \<longrightarrow> fst_disk s' q = fst_disk s q"
    and "isl r \<Longrightarrow> fst_disk s' (fst_path s) = fst_disk s (fst_path s)"
    and "\<not> isl r \<Longrightarrow> fst_disk s' (fe_tmp e) = None \<and>
      map_option fn_data (fst_disk s' (fst_path s)) = Some (json_text compact_format (JObj (fst_data s)))"
proof -
  have "(\<forall>q. q \<noteq> fst_path s \<longrightarrow> q \<noteq> fe_tmp e \<longrightarrow> fst_disk s' q = fst_disk s q) \<and>
    (if isl r then fst_disk s' (fst_path s) = fst_disk s (fst_path s)
     else fst_disk s' (fe_tmp e) = None \<and>
       map_option fn_data (fst_disk s' (fst_path s)) = Some (json_text compact_format (JObj (fst_data s))))"
  proof (cases rule: flush_run_cases [of e s])
    case (run q tr)
    with assms(1) have "r = q" "fst_disk s' = hd tr" by (auto simp: flush_store_def)
    with aw.finished [OF _ _ run(2)] assms(2) show ?thesis by (simp add: fresh_tmp_def del: json_text.simps)
  qed (use assms(1) in \<open>auto simp: flush_store_def\<close>)
  then show "\<forall>q. q \<noteq> fst_path s \<longrightarrow> q \<noteq> fe_tmp e \<longrightarrow> fst_disk s' q = fst_disk s q"
    and "isl r \<Longrightarrow> fst_disk s' (fst_path s) = fst_disk s (fst_path s)"
    and "\<not> isl r \<Longrightarrow> fst_disk s' (fe_tmp e) = None \<and>
      map_option fn_data (fst_disk s' (fst_path s)) = Some (json_text compact_format (JObj (fst_data s)))"
    by (simp_all del: json_text.simps)
qed

lemma mark_success_inv:
  assumes "store_inv fl s" "fresh_tmp e s" "json_ok fl v" "str_keyed v"
    and "file_mark_done e k v s = (Inr b, s')"
  shows "store_inv fl s' \<and> fst_path s' = fst_path s \<and>
    (\<forall>q. q \<noteq> fst_path s \<longrightarrow> fst_disk s q = None \<longrightarrow> fst_disk s' q = None)"
proof (cases "file_done s k")
  case True
  with assms(1,5) show ?thesis by (simp add: file_mark_done_def)
next
  case False
  let ?s = "s\<lparr>fst_data := dict_set (fst_data s) (KStr k) v\<rparr>"
  from False assms(5) obtain u where f: "flush_store e ?s = (Inr u, s')"
    by (auto simp: file_mark_done_def split: sum.splits prod.splits)
  have "fresh_tmp e ?s" using assms(2) by (simp add: fresh_tmp_def)
  note d = flush_store_disk [OF f this]
  have "dict_ok fl (dict_set (fst_data s) (KStr k) v)"
    using assms(1,3,4) dict_ok_set by (auto simp: store_inv_def)
  with d(1,3) flush_store_data [OF f] show ?thesis
    by (auto simp: store_inv_def)
qed

lemma marks_success_inv:
  assumes "marks disk_store ms s = (rs, s')" "store_inv fl s"
    and "\<forall>(e, k, v) \<in> set ms. fresh_tmp e s \<and> json_ok fl v \<and> str_keyed v"
    and "\<forall>r \<in> set rs. \<not> isl r"
  shows "store_inv fl s' \<and> fst_path s' = fst_path s"
  using assms
proof (induction ms arbitrary: s rs)
  case (Cons m ms)
  obtain e k v where m: "m = (e, k, v)" by (rule prod_cases3)
  obtain r s1 where s1: "file_mark_done e k v s = (r, s1)" by (rule prod.exhaust)
  with Cons.prems(1) m obtain qs where q: "marks disk_store ms s1 = (qs, s')" "rs = r # qs"
    by (auto simp: disk_store_def split: prod.splits)
  with Cons.prems(4) obtain b where b: "r = Inr b" by (cases r) auto
  have inv: "store_inv fl s1 \<and> fst_path s1 = fst_path s \<and>
      (\<forall>q. q \<noteq> fst_path s \<longrightarrow> fst_disk s q = None \<longrightarrow> fst_disk s1 q = None)"
    using mark_success_inv [of fl s e v k b s1] Cons.prems(2,3) m s1 b by auto
  then have "\<forall>(e, k, v) \<in> set ms. fresh_tmp e s1 \<and> json_ok fl v \<and> str_keyed v"
    using Cons.prems(3) by (auto simp: fresh_tmp_def)
  with Cons.IH [OF q(1)] inv q(2) Cons.prems(4) show ?case by auto
qed simp

subsection \<open>Properties\<close>

text \<open>C10: first writer wins: in any sequence of claims on a file store, whatever the disk does, the
  first claim of a key that was not done, if it returns, is the only claim of that key answered
  \<^verbatim>\<open>True\<close>; the key is done from then on and the result kept is the one that claim brought.\<close>

theorem file_store_first_writer_wins:
  assumes "marks disk_store ms s = (rs, s')" and "\<not> file_done s k"
    and "i < length ms" and "fst (snd (ms ! i)) = k" and "\<forall>j < i. fst (snd (ms ! j)) \<noteq> k"
    and "\<not> isl (rs ! i)"
  shows "rs ! i = Inr True \<and> file_result s' k = snd (snd (ms ! i)) \<and> file_done s' k \<and>
     (\<forall>j < length ms. i < j \<and> fst (snd (ms ! j)) = k \<longrightarrow> rs ! j = Inr False)"
  using disk.first_writer_wins [of ms s rs s' k i] assms by (simp add: disk_store_def)

definition empty_store :: file_store where
  "empty_store = \<lparr>fst_path = ''d'', fst_data = [], fst_disk = Map.empty\<rparr>"

definition calm :: "string \<Rightarrow> flush_env" where
  "calm tmp = \<lparr>fe_faults = no_faults, fe_tmp = tmp\<rparr>"

definition two_claims :: "(flush_env \<times> string \<times> json) list" where
  "two_claims = [(calm ''t'', ''pay'', JInt 1), (calm ''u'', ''pay'', JInt 2)]"

lemma two_claims_run:
  "\<exists>s'. marks disk_store two_claims empty_store = ([Inr True, Inr False], s')"
proof -
  have run: "fst (atomic_write no_faults tmp ''d'' (Inr t) None True w) = Inr ()" for tmp t w
    by (simp add: atomic_write_def and_then_def step_def clean_up_def write_and_replace_def
        write_temp_def no_faults_def Let_def)
  have "fst (flush_store (calm ''t'') \<lparr>fst_path = ''d'', fst_data = [(KStr ''pay'', JInt 1)], fst_disk = Map.empty\<rparr>) = Inr ()"
    by (simp add: flush_store_def flush_run_def calm_def json_dumps_def comparable_def case_prod_beta)
      (rule run)
  then obtain s1 where f: "flush_store (calm ''t'')
      \<lparr>fst_path = ''d'', fst_data = [(KStr ''pay'', JInt 1)], fst_disk = Map.empty\<rparr> = (Inr (), s1)"
    by (metis prod.collapse)
  then have "fst_data s1 = [(KStr ''pay'', JInt 1)]" using flush_store_data by fastforce
  with f show ?thesis
    by (simp add: two_claims_def disk_store_def file_mark_done_def file_done_def data_done_def
        empty_store_def dict_get_def dict_set_def)
qed

theorem file_store_first_writer_wins_witness:
  "\<exists>s'. marks disk_store two_claims empty_store = ([Inr True, Inr False], s') \<and>
     file_result s' ''pay'' = JInt 1"
proof -
  obtain s' where r: "marks disk_store two_claims empty_store = ([Inr True, Inr False], s')"
    using two_claims_run by blast
  have "\<not> file_done empty_store ''pay''"
    by (simp add: file_done_def data_done_def empty_store_def dict_get_def)
  from file_store_first_writer_wins [OF r this, of 0] r show ?thesis by (auto simp: two_claims_def)
qed

lemma utf8_ascii: "\<forall>c \<in> set s. printable c \<Longrightarrow> utf8_decode s = Inr s"
  by (induction s) (auto simp: printable_def Let_def)

lemma open_after_inv:
  assumes "store_inv fl s"
  shows "\<exists>d. open_store fl None (fst_disk s) (fst_path s) =
      Inr \<lparr>fst_path = fst_path s, fst_data = d, fst_disk = fst_disk s\<rparr> \<and>
    loaded compact_format (JObj (fst_data s)) = JObj d \<and>
    (\<forall>k. dict_get d (KStr k) = map_option (loaded compact_format) (dict_get (fst_data s) (KStr k)))"
proof (cases "fst_disk s (fst_path s)")
  case None
  with assms show ?thesis
    by (intro exI [of _ "[]"]) (auto simp: store_inv_def open_store_def load_state_def dict_get_def)
next
  case (Some n)
  let ?t = "json_text compact_format (JObj (fst_data s))"
  have n: "fn_data n = ?t" and ok: "json_ok fl (JObj (fst_data s))" "str_keyed (JObj (fst_data s))"
    using assms Some by (auto simp: store_inv_def dict_ok_def)
  obtain d where d: "loaded compact_format (JObj (fst_data s)) = JObj d" by simp
  have "\<forall>c \<in> set ?t. printable c" by (blast intro: json_text_printable [OF ok(1) formats_ok(2)])
  then have "utf8_decode (fn_data n) = Inr ?t" using n utf8_ascii by simp
  moreover have "py_strip ?t \<noteq> []" by (auto simp: py_strip_empty is_space_def)
  moreover have "json_loads fl ?t = Inr (JObj d)" using json_loads_text [OF ok(1), of compact_format] d by simp
  ultimately have "load_state fl None (fst_disk s) (fst_path s) = Inr d"
    using Some by (simp add: load_state_def del: json_text.simps)
  moreover have "dict_get d (KStr k) = map_option (loaded compact_format) (dict_get (fst_data s) (KStr k))" for k
  proof (rule dict_get_loaded [OF _ _ d])
    show "\<forall>k \<in> fst ` set (fst_data s). \<not> is_kint k" using ok(2) by (auto simp: list_all_iff)
    show "distinct (List.map fst (fst_data s))"
      using ok(1) by (simp add: distinct_map inj_on_def)
  qed
  ultimately show ?thesis using d by (intro exI [of _ d]) (simp add: open_store_def del: loaded.simps)
qed

text \<open>C20: what was marked survives a restart: after any sequence of claims that all returned, opening
  the file again gives a store in which the same keys are done, each with the result that was recorded
  (up to the order of the keys of nested dictionaries).\<close>

theorem marked_results_persist:
  assumes "marks disk_store ms s = (rs, s')" and "store_inv fl s" and "\<forall>r \<in> set rs. \<not> isl r"
    and "\<forall>(e, k, v) \<in> set ms. fresh_tmp e s \<and> json_ok fl v \<and> str_keyed v"
  shows "\<exists>t. open_store fl None (fst_disk s') (fst_path s) = Inr t \<and>
     (\<forall>k. file_done t k = file_done s' k \<and>
       (file_done s' k \<longrightarrow> file_result t k = loaded compact_format (file_result s' k)))"
proof -
  have inv: "store_inv fl s'" "fst_path s' = fst_path s"
    using marks_success_inv [OF assms(1,2,4,3)] by auto
  obtain d where "open_store fl None (fst_disk s') (fst_path s') =
      Inr \<lparr>fst_path = fst_path s', fst_data = d, fst_disk = fst_disk s'\<rparr>"
    "\<And>k. dict_get d (KStr k) = map_option (loaded compact_format) (dict_get (fst_data s') (KStr k))"
    using open_after_inv [OF inv(1)] by blast
  with inv(2) show ?thesis
    by (auto simp: file_done_def data_done_def file_result_def data_result_def)
qed

theorem marked_results_persist_witness:
  "\<exists>s' t. marks disk_store two_claims empty_store = ([Inr True, Inr False], s') \<and>
     open_store id None (fst_disk s') ''d'' = Inr t \<and> file_done t ''pay'' = file_done s' ''pay''"
proof -
  obtain s' where r: "marks disk_store two_claims empty_store = ([Inr True, Inr False], s')"
    using two_claims_run by blast
  have inv: "store_inv id empty_store" by (simp add: store_inv_def empty_store_def dict_ok_def)
  have ms: "\<forall>(e, k, v) \<in> set two_claims. fresh_tmp e empty_store \<and> json_ok id v \<and> str_keyed v"
    by (simp add: two_claims_def fresh_tmp_def empty_store_def calm_def)
  have ret: "\<forall>r \<in> set [Inr True, Inr False :: exn + bool]. \<not> isl r" by simp
  from marked_results_persist [OF r inv ret ms] r show ?thesis by (auto simp: empty_store_def)
qed

lemma load_state_cong:
  "map_option fn_data (a p) = map_option fn_data (b p) \<Longrightarrow> load_state fl f a p = load_state fl f b p"
  by (cases "a p"; cases "b p"; cases f) (simp_all add: load_state_def)

text \<open>Opening the file in a state whose file holds a dictionary.\<close>

lemma open_holding:
  assumes "dict_ok fl d" and "map_option fn_data (disk p) = Some (json_text compact_format (JObj d))"
  shows "\<exists>t. open_store fl None disk p = Inr t \<and> (\<forall>k. dict_get (fst_data t) (KStr k) =
    map_option (loaded compact_format) (dict_get d (KStr k)))"
  using open_after_inv [of fl "\<lparr>fst_path = p, fst_data = d, fst_disk = disk\<rparr>"] assms
  by (auto simp: store_inv_def simp del: json_text.simps)

text \<open>C22: a crash in the middle of a claim loses nothing: take the disk in any state it passes through
  while a new key is flushed, whatever fault the write meets, and open the file again. Every other key
  is done exactly if it was, with the result it had, and the new key is either not done or done with
  the result that was claimed.\<close>

theorem crash_keeps_claims:
  assumes "store_inv fl s" and "fresh_tmp e s" and "json_ok fl v" and "str_keyed v" and "\<not> file_done s k"
    and "disk \<in> set (flush_states e (s\<lparr>fst_data := dict_set (fst_data s) (KStr k) v\<rparr>))"
  shows "\<exists>t. open_store fl None disk (fst_path s) = Inr t \<and>
     (\<forall>j. j \<noteq> k \<longrightarrow> file_done t j = file_done s j \<and>
        (file_done s j \<longrightarrow> file_result t j = loaded compact_format (file_result s j))) \<and>
     (file_done t k \<longrightarrow> file_result t k = loaded compact_format v)"
proof -
  let ?d = "dict_set (fst_data s) (KStr k) v"
  let ?new = "(fst_disk s)(fst_path s \<mapsto> \<lparr>fn_data = json_text compact_format (JObj ?d), fn_mode = 384\<rparr>)"
  have ok: "dict_ok fl ?d" using assms(1,3,4) dict_ok_set by (auto simp: store_inv_def)
  have "map_option fn_data (disk (fst_path s)) = map_option fn_data (fst_disk s (fst_path s)) \<or>
      map_option fn_data (disk (fst_path s)) = map_option fn_data (?new (fst_path s))"
  proof (cases rule: flush_run_cases [of e "s\<lparr>fst_data := ?d\<rparr>"])
    case (bad exc)
    with assms(6) show ?thesis by (simp add: flush_states_def)
  next
    case (run r tr)
    with assms(6) have "disk \<in> set tr" by (simp add: flush_states_def)
    with run(2) assms(2) show ?thesis
      by (intro aw.reader [where s = "fst_disk s" and tmp = "fe_tmp e" and r = r and tr = tr and
            payload = "json_text compact_format (JObj ?d)"]) (simp_all add: fresh_tmp_def del: json_text.simps)
  qed
  then consider (old) "map_option fn_data (disk (fst_path s)) = map_option fn_data (fst_disk s (fst_path s))"
    | (new) "map_option fn_data (disk (fst_path s)) = Some (json_text compact_format (JObj ?d))"
    by (auto simp del: json_text.simps)
  then show ?thesis
  proof cases
    case old
    from open_after_inv [OF assms(1)] obtain d where
      d: "load_state fl None (fst_disk s) (fst_path s) = Inr d"
        "\<forall>k. dict_get d (KStr k) = map_option (loaded compact_format) (dict_get (fst_data s) (KStr k))"
      by (auto simp: open_store_def split: sum.splits)
    with load_state_cong [of disk "fst_path s" "fst_disk s", OF old] assms(5) show ?thesis
      by (auto simp: open_store_def file_done_def data_done_def file_result_def data_result_def)
  next
    case new
    from open_holding [of fl ?d disk "fst_path s", OF ok new] assms(5) show ?thesis
      by (auto simp: file_done_def data_done_def file_result_def data_result_def)
  qed
qed

theorem crash_keeps_claims_witness:
  "\<exists>t. open_store id None (\<lambda>p. if p = ''t'' then Some \<lparr>fn_data = [], fn_mode = 384\<rparr> else None) ''d'' = Inr t \<and>
     (\<forall>j. j \<noteq> ''pay'' \<longrightarrow> \<not> file_done t j)"
proof -
  let ?s = "empty_store\<lparr>fst_data := dict_set (fst_data empty_store) (KStr ''pay'') (JInt 1)\<rparr>"
  have inv: "store_inv id empty_store" "fresh_tmp (calm ''t'') empty_store" "\<not> file_done empty_store ''pay''"
    by (simp_all add: store_inv_def dict_ok_def empty_store_def fresh_tmp_def calm_def file_done_def
        data_done_def dict_get_def)
  have "(\<lambda>p. if p = ''t'' then Some \<lparr>fn_data = [], fn_mode = 384\<rparr> else None) \<in> set (flush_states (calm ''t'') ?s)"
    by (simp add: flush_states_def flush_run_def json_dumps_def comparable_def calm_def empty_store_def dict_set_def
        atomic_write_def and_then_def step_def clean_up_def write_and_replace_def write_temp_def no_faults_def
        Let_def fun_eq_iff)
  from crash_keeps_claims [OF inv(1,2) _ _ inv(3) this] show ?thesis
    by (auto simp: empty_store_def file_done_def data_done_def dict_get_def)
qed

text \<open>C40: a claim that raises is half made: when the flush fails (the disk is full, or the result cannot
  be serialised), \<^verbatim>\<open>mark_done\<close> raises but the key stays done in memory, so every later claim in this
  process is answered \<^verbatim>\<open>False\<close>; the file is unchanged, so after a restart the key is not done and
  the action runs again.\<close>

theorem failed_claim_is_half_made:
  assumes "file_mark_done e k v s = (Inl exc, s')" and "fresh_tmp e s"
  shows "\<not> file_done s k \<and> file_done s' k \<and>
     (\<forall>e' v'. file_mark_done e' k v' s' = (Inr False, s')) \<and>
     load_state fl None (fst_disk s') (fst_path s) = load_state fl None (fst_disk s) (fst_path s)"
proof -
  have new: "\<not> file_done s k" using assms(1) by (auto simp: file_mark_done_def)
  let ?s = "s\<lparr>fst_data := dict_set (fst_data s) (KStr k) v\<rparr>"
  from new assms(1) have f: "flush_store e ?s = (Inl exc, s')"
    by (auto simp: file_mark_done_def split: sum.splits prod.splits)
  then have "file_done s' k" using flush_store_data [OF f] by (simp add: file_done_def data_done_def)
  moreover have "fresh_tmp e ?s" using assms(2) by (simp add: fresh_tmp_def)
  from flush_store_disk(2) [OF f this] have "fst_disk s' (fst_path s) = fst_disk s (fst_path s)" by simp
  ultimately show ?thesis using new by (simp add: file_mark_done_def load_state_def)
qed

theorem failed_claim_is_half_made_witness:
  "\<exists>exc s'. file_mark_done (calm ''t'') ''pay'' JOther empty_store = (Inl exc, s') \<and> file_done s' ''pay'' \<and>
     load_state id None (fst_disk s') ''d'' = Inr []"
proof -
  obtain exc s' where f: "file_mark_done (calm ''t'') ''pay'' JOther empty_store = (Inl exc, s')"
    by (simp add: file_mark_done_def file_done_def data_done_def empty_store_def dict_get_def dict_set_def
        flush_store_def flush_run_def json_dumps_def)
  have "fresh_tmp (calm ''t'') empty_store" by (simp add: fresh_tmp_def calm_def empty_store_def)
  from failed_claim_is_half_made [OF f this, of id] f show ?thesis
    by (auto simp: empty_store_def load_state_def)
qed

text \<open>A corrupt state file: bytes that are UTF-8 but not a JSON object give an empty store, as the
  comment promises; bytes that are not UTF-8 are not caught, and the constructor raises
  \<^verbatim>\<open>UnicodeDecodeError\<close>.\<close>

theorem corrupt_state_file:
  "(\<forall>disk n raw e. disk path = Some n \<longrightarrow> utf8_decode (fn_data n) = Inr raw \<longrightarrow>
      json_loads fl raw = Inl e \<longrightarrow> e \<noteq> beyond_model \<longrightarrow>
      open_store fl None disk path = Inr \<lparr>fst_path = path, fst_data = [], fst_disk = disk\<rparr>) \<and>
   (\<forall>disk n. disk path = Some n \<longrightarrow> utf8_decode (fn_data n) = Inl decode_error \<longrightarrow>
      open_store fl None disk path = Inl decode_error) \<and>
   isinstance decode_error UnicodeDecodeError \<and> utf8_decode [CHR 0xFF] = Inl decode_error"
proof (intro conjI allI impI)
  fix disk :: fs and n raw e
  assume a: "disk path = Some n" "utf8_decode (fn_data n) = Inr raw" "json_loads fl raw = Inl e" "e \<noteq> beyond_model"
  then have "isinstance e JSONDecodeError"
    by (auto simp: json_loads_def split: sum.splits json_error.splits)
  with a show "open_store fl None disk path = Inr \<lparr>fst_path = path, fst_data = [], fst_disk = disk\<rparr>"
    by (simp add: open_store_def load_state_def recover_def)
next
  fix disk :: fs and n
  assume "disk path = Some n" "utf8_decode (fn_data n) = Inl decode_error"
  then show "open_store fl None disk path = Inl decode_error"
    by (simp add: open_store_def load_state_def recover_def decode_error_def)
next
  show "isinstance decode_error UnicodeDecodeError" by (simp add: decode_error_def)
  show "utf8_decode [CHR 0xFF] = Inl decode_error" by simp
qed

end
