(* ===== verification/Shared_Store.thy ===== *)
theory Shared_Store
  imports Idempotency
begin

section \<open>Several stores on one state file\<close>

text \<open>
  \<^verbatim>\<open>FileIdempotencyStore\<close> reads its file when it is constructed and rewrites the whole of it with
  every claim; its docstring asks of several processes to layer their own file locking. Two ways to do
  that are modelled, on the methods of theory \<open>Idempotency\<close> and any state of the disk:

  \<^item> a session: under the lock, construct a store, claim, and drop it. Sessions refine a store in memory
    whose claims may fail without a trace (\<open>spec_store\<close>), an instance of the interface
    \<open>clean_store\<close> of theory \<open>Store_Contract\<close>;
  \<^item> long-lived objects whose claims are made one after the other under the lock: these lose claims.
\<close>

subsection \<open>The specification: a store whose claims may fail\<close>

text \<open>The environment says whether a claim fails.\<close>

definition spec_mark :: "exn option \<Rightarrow> string \<Rightarrow> json \<Rightarrow> data \<Rightarrow> (exn + bool) \<times> data" where
  "spec_mark fault k v d =
     (if data_done d k then (Inr False, d)
      else (case fault of Some e \<Rightarrow> (Inl e, d) | None \<Rightarrow> (Inr True, dict_set d (KStr k) v)))"

definition spec_store :: "(exn option, data) store_ops" where
  "spec_store = \<lparr>so_done = data_done, so_result = data_result, so_mark = spec_mark\<rparr>"

interpretation spec: clean_store spec_store
  by unfold_locales
    (auto simp: spec_store_def spec_mark_def data_done_def data_result_def split: if_splits option.splits)

subsection \<open>Sessions under a lock\<close>

text \<open>What a store constructed now, without a read error, would answer.\<close>

definition shared_done :: "(string \<Rightarrow> string) \<Rightarrow> string \<Rightarrow> fs \<Rightarrow> string \<Rightarrow> bool" where
  "shared_done fl path disk k =
     (case open_store fl None disk path of Inl e \<Rightarrow> False | Inr s \<Rightarrow> file_done s k)"

definition shared_result :: "(string \<Rightarrow> string) \<Rightarrow> string \<Rightarrow> fs \<Rightarrow> string \<Rightarrow> json" where
  "shared_result fl path disk k =
     (case open_store fl None disk path of Inl e \<Rightarrow> JNull | Inr s \<Rightarrow> file_result s k)"

record session_env =
  se_read :: "exn option"
  se_flush :: flush_env

definition locked_claim ::
  "(string \<Rightarrow> string) \<Rightarrow> string \<Rightarrow> session_env \<Rightarrow> string \<Rightarrow> json \<Rightarrow> fs \<Rightarrow> (exn + bool) \<times> fs" where
  "locked_claim fl path e k v disk =
     (case open_store fl (se_read e) disk path of
        Inl exc \<Rightarrow> (Inl exc, disk)
      | Inr s \<Rightarrow> (case file_mark_done (se_flush e) k v s of (r, s') \<Rightarrow> (r, fst_disk s')))"

definition session_store :: "(string \<Rightarrow> string) \<Rightarrow> string \<Rightarrow> (session_env, fs) store_ops" where
  "session_store fl path =
     \<lparr>so_done = shared_done fl path, so_result = shared_result fl path, so_mark = locked_claim fl path\<rparr>"

text \<open>The state file is missing or was written by a store; \<open>agrees\<close> relates it to the specification.\<close>

definition state_file :: "(string \<Rightarrow> string) \<Rightarrow> string \<Rightarrow> fs \<Rightarrow> bool" where
  "state_file fl path disk \<longleftrightarrow> disk path = None \<or>
     (\<exists>d. dict_ok fl d \<and> map_option fn_data (disk path) = Some (json_text compact_format (JObj d)))"

definition agrees :: "(string \<Rightarrow> string) \<Rightarrow> string \<Rightarrow> fs \<Rightarrow> data \<Rightarrow> bool" where
  "agrees fl path disk d \<longleftrightarrow> state_file fl path disk \<and>
     (\<forall>k. shared_done fl path disk k = data_done d k \<and> shared_result fl path disk k = data_result d k)"

lemma open_state_file:
  assumes "state_file fl path disk"
  obtains d where "open_store fl None disk path = Inr \<lparr>fst_path = path, fst_data = d, fst_disk = disk\<rparr>"
    "dict_ok fl d" "\<And>k. map_option (loaded compact_format) (dict_get d (KStr k)) = dict_get d (KStr k)"
proof -
  obtain d0 where d0: "store_inv fl \<lparr>fst_path = path, fst_data = d0, fst_disk = disk\<rparr>"
  proof (cases "disk path")
    case None
    then show ?thesis by (intro that [of "[]"]) (simp add: store_inv_def dict_ok_def)
  next
    case (Some n)
    with assms that show ?thesis
      by (auto simp: state_file_def store_inv_def simp del: json_text.simps)
  qed
  then have ok: "json_ok fl (JObj d0)" "str_keyed (JObj d0)" by (simp_all add: store_inv_def dict_ok_def)
  from open_after_inv [OF d0] obtain d where
    d: "open_store fl None disk path = Inr \<lparr>fst_path = path, fst_data = d, fst_disk = disk\<rparr>"
      "loaded compact_format (JObj d0) = JObj d"
      "\<And>k. dict_get d (KStr k) = map_option (loaded compact_format) (dict_get d0 (KStr k))"
    by (auto simp del: loaded.simps)
  have "dict_ok fl d"
    using loaded_json_ok [OF ok, of compact_format] loaded_again [OF ok(2), of compact_format] d(2)
    by (simp add: dict_ok_def del: json_ok.simps str_keyed.simps loaded.simps)
  moreover have "map_option (loaded compact_format) (dict_get d (KStr k)) = dict_get d (KStr k)" for k
  proof (cases "dict_get d0 (KStr k)")
    case (Some v)
    then have "(KStr k, v) \<in> set d0" by (simp add: dict_get_def map_of_SomeD)
    then have "str_keyed v" using ok(2) by (auto simp: list_all_iff)
    then show ?thesis using Some d(3) loaded_again by simp
  qed (simp add: d(3))
  ultimately show thesis using that d(1) by blast
qed

lemma agrees_open:
  assumes "state_file fl path disk"
    and "open_store fl None disk path = Inr \<lparr>fst_path = path, fst_data = d, fst_disk = disk\<rparr>"
  shows "agrees fl path disk a \<longleftrightarrow> (\<forall>k. data_done d k = data_done a k \<and> data_result d k = data_result a k)"
  using assms by (simp add: agrees_def shared_done_def shared_result_def file_done_def file_result_def)

text \<open>What a session is given: the file can be read, the temporary name is unused, and the result can be
  printed and read back.\<close>

definition fine_session :: "(string \<Rightarrow> string) \<Rightarrow> string \<Rightarrow> fs \<Rightarrow> session_env \<times> string \<times> json \<Rightarrow> bool" where
  "fine_session fl path disk m \<longleftrightarrow> (case m of (e, k, v) \<Rightarrow>
     se_read e = None \<and> disk (fe_tmp (se_flush e)) = None \<and> fe_tmp (se_flush e) \<noteq> path \<and>
     json_ok fl v \<and> str_keyed v)"

lemma session_step:
  assumes "locked_claim fl path e k v disk = (r, disk')" "agrees fl path disk a"
    and "fine_session fl path disk (e, k, v)"
  shows "\<exists>f a'. spec_mark f k (loaded compact_format v) a = (r, a') \<and> agrees fl path disk' a' \<and>
    (\<forall>q. q \<noteq> path \<longrightarrow> q \<noteq> fe_tmp (se_flush e) \<longrightarrow> disk' q = disk q)"
proof -
  have sf: "state_file fl path disk" using assms(2) by (simp add: agrees_def)
  obtain d where o: "open_store fl None disk path = Inr \<lparr>fst_path = path, fst_data = d, fst_disk = disk\<rparr>"
    and d: "dict_ok fl d" "\<And>k. map_option (loaded compact_format) (dict_get d (KStr k)) = dict_get d (KStr k)"
    by (rule open_state_file [OF sf]) blast
  let ?s = "\<lparr>fst_path = path, fst_data = d, fst_disk = disk\<rparr>"
  let ?t = "?s\<lparr>fst_data := dict_set d (KStr k) v\<rparr>"
  note a = assms(2) [unfolded agrees_open [OF sf o]]
  have env: "se_read e = None" "fresh_tmp (se_flush e) ?t" "json_ok fl v" "str_keyed v"
    using assms(3) by (simp_all add: fine_session_def fresh_tmp_def)
  obtain s' where m: "file_mark_done (se_flush e) k v ?s = (r, s')" "disk' = fst_disk s'"
    using assms(1) env(1) o by (auto simp: locked_claim_def split: prod.splits)
  show ?thesis
  proof (cases "data_done d k")
    case True
    with m have "r = Inr False" "disk' = disk" by (auto simp: file_mark_done_def file_done_def)
    with True a assms(2) show ?thesis by (auto simp: spec_mark_def)
  next
    case False
    with m(1) obtain q where f: "flush_store (se_flush e) ?t = (q, s')"
      and r: "r = map_sum id (\<lambda>_. True) q"
      by (auto simp: file_mark_done_def file_done_def split: prod.splits sum.splits)
    note fl = flush_store_disk [OF f env(2)]
    show ?thesis
    proof (cases q)
      case (Inl exc)
      have "disk' path = disk path" using fl(2) Inl m(2) by simp
      then have "agrees fl path disk' a"
        using assms(2) load_state_cong [of disk' path disk fl None]
        by (auto simp: agrees_def state_file_def shared_done_def shared_result_def open_store_def
            file_done_def file_result_def split: sum.splits)
      moreover have "spec_mark (Some exc) k (loaded compact_format v) a = (r, a)"
        using False a Inl r by (simp add: spec_mark_def)
      ultimately show ?thesis using fl(1) m(2) by (auto intro!: exI)
    next
      case (Inr u)
      have ok: "dict_ok fl (dict_set d (KStr k) v)" by (rule dict_ok_set [OF d(1) env(3,4)])
      have written: "map_option fn_data (disk' path) = Some (json_text compact_format (JObj (dict_set d (KStr k) v)))"
        using fl(3) Inr m(2) by (simp del: json_text.simps)
      have sf': "state_file fl path disk'" using ok written unfolding state_file_def by blast
      obtain d' where o': "open_store fl None disk' path = Inr \<lparr>fst_path = path, fst_data = d', fst_disk = disk'\<rparr>"
        by (rule open_state_file [OF sf']) blast
      have get: "dict_get d' (KStr j) = (if j = k then Some (loaded compact_format v) else dict_get d (KStr j))" for j
        using open_holding [of fl _ disk' path, OF ok written] o' d(2) by simp
      have "agrees fl path disk' (dict_set a (KStr k) (loaded compact_format v))"
        unfolding agrees_open [OF sf' o'] using a get by (simp add: data_done_def data_result_def)
      moreover have "spec_mark None k (loaded compact_format v) a =
          (r, dict_set a (KStr k) (loaded compact_format v))"
        using False a Inr r by (simp add: spec_mark_def)
      ultimately show ?thesis using fl(1) m(2) by (auto intro!: exI)
    qed
  qed
qed

text \<open>Sessions refine the specification: the same answers, and files that agree with its dictionaries.\<close>

lemma sessions_refine:
  assumes "marks (session_store fl path) ms disk = (rs, disk')" and "agrees fl path disk a"
    and "\<forall>m \<in> set ms. fine_session fl path disk m"
    and "distinct (List.map (\<lambda>(e, k, v). fe_tmp (se_flush e)) ms)"
  shows "\<exists>ms' a'. List.map snd ms' = List.map (\<lambda>(e, k, v). (k, loaded compact_format v)) ms \<and>
    marks spec_store ms' a = (rs, a') \<and> agrees fl path disk' a'"
  using assms
proof (induction ms arbitrary: rs disk a)
  case (Cons m ms)
  obtain e k v where em: "m = (e, k, v)" by (rule prod_cases3)
  obtain r disk1 where m: "locked_claim fl path e k v disk = (r, disk1)" by (rule prod.exhaust)
  with Cons.prems(1) em obtain qs where q: "marks (session_store fl path) ms disk1 = (qs, disk')" "rs = r # qs"
    by (auto simp: session_store_def split: prod.splits)
  from session_step [OF m Cons.prems(2)] Cons.prems(3) em obtain f a1 where
    step: "spec_mark f k (loaded compact_format v) a = (r, a1)" "agrees fl path disk1 a1"
      "\<And>q. q \<noteq> path \<Longrightarrow> q \<noteq> fe_tmp (se_flush e) \<Longrightarrow> disk1 q = disk q" by auto
  have "\<forall>m \<in> set ms. fine_session fl path disk1 m"
  proof
    fix n assume n: "n \<in> set ms"
    obtain g j w where gn: "n = (g, j, w)" by (rule prod_cases3)
    have "fe_tmp (se_flush g) \<noteq> fe_tmp (se_flush e)" using Cons.prems(4) em n gn by force
    moreover have "fine_session fl path disk n" using Cons.prems(3) n by simp
    ultimately show "fine_session fl path disk1 n" using step(3) gn by (simp add: fine_session_def)
  qed
  with Cons.IH [OF q(1) step(2)] Cons.prems(4) obtain ms' a' where
    "List.map snd ms' = List.map (\<lambda>(e, k, v). (k, loaded compact_format v)) ms"
    "marks spec_store ms' a1 = (qs, a')" "agrees fl path disk' a'" by auto
  with step(1) q(2) em show ?case
    by (intro exI [of _ "(f, k, loaded compact_format v) # ms'"]) (simp add: spec_store_def)
qed simp

subsection \<open>Properties\<close>

text \<open>C11: processes that share a state file and make each claim in a session of its own under a lock
  execute once: of all claims of a key that was not done, made by any number of processes, whatever
  faults their writes meet, the first one that returns is answered \<^verbatim>\<open>True\<close> and every later one
  \<^verbatim>\<open>False\<close>; a store constructed afterwards has the key done with the result of that claim. A claim
  that raises leaves the key free, unlike in a long-lived object.\<close>

theorem locked_sessions_execute_once:
  assumes "marks (session_store fl path) ms disk = (rs, disk')" and "state_file fl path disk"
    and "\<forall>m \<in> set ms. fine_session fl path disk m"
    and "distinct (List.map (\<lambda>(e, k, v). fe_tmp (se_flush e)) ms)"
    and "\<not> shared_done fl path disk k" and "i < length ms" and "fst (snd (ms ! i)) = k"
    and "\<forall>j < i. fst (snd (ms ! j)) = k \<longrightarrow> isl (rs ! j)" and "\<not> isl (rs ! i)"
  shows "rs ! i = Inr True \<and>
    (\<forall>j < length ms. i < j \<and> fst (snd (ms ! j)) = k \<longrightarrow> rs ! j = Inr False) \<and>
    shared_done fl path disk' k \<and>
    shared_result fl path disk' k = loaded compact_format (snd (snd (ms ! i)))"
proof -
  obtain d where "open_store fl None disk path = Inr \<lparr>fst_path = path, fst_data = d, fst_disk = disk\<rparr>"
    by (rule open_state_file [OF assms(2)]) blast
  then have a: "agrees fl path disk d" using agrees_open [OF assms(2)] by simp
  obtain ms' a' where ms': "List.map snd ms' = List.map (\<lambda>(e, k, v). (k, loaded compact_format v)) ms"
    "marks spec_store ms' d = (rs, a')" "agrees fl path disk' a'"
    using sessions_refine [OF assms(1) a assms(3,4)] by blast
  have len: "length ms' = length ms" using ms'(1) by (metis length_map)
  have nth: "snd (ms' ! j) = (fst (snd (ms ! j)), loaded compact_format (snd (snd (ms ! j))))"
    if "j < length ms" for j
    using arg_cong [OF ms'(1), of "\<lambda>xs. xs ! j"] that len by (simp add: case_prod_beta)
  have "\<not> data_done d k" using assms(5) a by (simp add: agrees_def)
  then have "rs ! i = Inr True \<and> data_result a' k = snd (snd (ms' ! i)) \<and> data_done a' k \<and>
      (\<forall>j < length ms'. i < j \<and> fst (snd (ms' ! j)) = k \<longrightarrow> rs ! j = Inr False)"
    using spec.first_return_wins [OF ms'(2), of k i] assms(6-9) len nth by (simp add: spec_store_def)
  with ms'(3) nth len assms(6) show ?thesis by (simp add: agrees_def)
qed

text \<open>An example: two processes claim the same payment.\<close>

definition session_env :: "string \<Rightarrow> session_env" where
  "session_env tmp = \<lparr>se_read = None, se_flush = calm tmp\<rparr>"

definition two_sessions :: "(session_env \<times> string \<times> json) list" where
  "two_sessions = [(session_env ''t'', ''pay'', JInt 1), (session_env ''u'', ''pay'', JInt 2)]"

lemma empty_opens: "open_store fl None Map.empty ''d'' = Inr empty_store"
  by (simp add: open_store_def load_state_def empty_store_def)

lemma calm_flush:
  assumes "serialisable compact_format (JObj (fst_data s))"
  shows "\<exists>s'. flush_store (calm tmp) s = (Inr (), s')"
proof -
  have "fst (atomic_write no_faults tmp p (Inr t) None True w) = Inr ()" for p t w
    by (simp add: atomic_write_def and_then_def step_def clean_up_def write_and_replace_def
        write_temp_def no_faults_def Let_def)
  then have "fst (flush_store (calm tmp) s) = Inr ()"
    using assms by (simp add: flush_store_def flush_run_def calm_def json_dumps_def case_prod_beta
        del: serialisable.simps json_text.simps)
  then show ?thesis by (metis prod.collapse)
qed

lemma calm_mark:
  assumes "\<not> file_done s k" and "serialisable compact_format (JObj (dict_set (fst_data s) (KStr k) v))"
  shows "\<exists>s'. file_mark_done (calm tmp) k v s = (Inr True, s')"
  using calm_flush [of "s\<lparr>fst_data := dict_set (fst_data s) (KStr k) v\<rparr>" tmp] assms
  by (auto simp: file_mark_done_def)

lemma calm_claim: "fst (file_mark_done (calm ''t'') ''pay'' (JInt 1) empty_store) = Inr True"
  using calm_mark [of empty_store "''pay''" "JInt 1" "''t''"]
  by (auto simp: file_done_def data_done_def empty_store_def dict_get_def dict_set_def comparable_def)

theorem locked_sessions_execute_once_witness:
  "\<exists>disk'. marks (session_store id ''d'') two_sessions Map.empty = ([Inr True, Inr False], disk') \<and>
     shared_result id ''d'' disk' ''pay'' = JInt 1"
proof -
  obtain rs disk' where r: "marks (session_store id ''d'') two_sessions Map.empty = (rs, disk')" by (rule prod.exhaust)
  have len: "length rs = 2" using marks_length [OF r] by (simp add: two_sessions_def)
  have rs0: "rs ! 0 = Inr True"
    using r calm_claim by (auto simp: two_sessions_def session_store_def locked_claim_def session_env_def
        empty_opens split: prod.splits)
  have "state_file id ''d'' Map.empty" by (simp add: state_file_def)
  moreover have "\<forall>m \<in> set two_sessions. fine_session id ''d'' Map.empty m"
    by (simp add: two_sessions_def fine_session_def session_env_def calm_def)
  moreover have "distinct (List.map (\<lambda>(e, k, v). fe_tmp (se_flush e)) two_sessions)"
    by (simp add: two_sessions_def session_env_def calm_def)
  moreover have "\<not> shared_done id ''d'' Map.empty ''pay''"
    by (simp add: shared_done_def empty_opens file_done_def empty_store_def data_done_def dict_get_def)
  ultimately have c: "rs ! 1 = Inr False" "shared_result id ''d'' disk' ''pay'' = JInt 1"
    using locked_sessions_execute_once [OF r, of "''pay''" 0] rs0 by (auto simp: two_sessions_def)
  have "rs = [Inr True, Inr False]" using len rs0 c(1) by (intro nth_equalityI) (auto simp: less_2_cases_iff)
  with r c(2) show ?thesis by blast
qed

text \<open>C34: a lock around the claims is not enough: two objects on one file that were constructed in the
  same state of the file, one in each process, and whose claims are made strictly one after the other.
  Both claims are answered \<^verbatim>\<open>True\<close>, also when they claim the same key, which is then executed twice;
  and the second rewrites the file without the first, so a store constructed afterwards has lost the
  key of the first claim.\<close>

theorem serialised_claims_lost:
  assumes "state_file fl path disk" and "open_store fl None disk path = Inr s"
    and "\<not> file_done s k" and "\<not> file_done s j"
    and "file_mark_done e k v s = (Inr a, s1)"
    and "file_mark_done e' j u (s\<lparr>fst_disk := fst_disk s1\<rparr>) = (Inr b, s2)"
    and "fresh_tmp e' (s\<lparr>fst_disk := fst_disk s1\<rparr>)" and "json_ok fl u" and "str_keyed u"
  shows "a \<and> b \<and> file_done s1 k \<and>
    (\<exists>t. open_store fl None (fst_disk s2) path = Inr t \<and>
       file_done t j \<and> file_result t j = loaded compact_format u \<and> (k \<noteq> j \<longrightarrow> \<not> file_done t k))"
proof -
  let ?s = "s\<lparr>fst_disk := fst_disk s1\<rparr>"
  obtain d where s: "s = \<lparr>fst_path = path, fst_data = d, fst_disk = disk\<rparr>" "dict_ok fl d"
    using open_state_file [OF assms(1)] assms(2) by auto
  have a: "a \<and> file_done s1 k"
    using disk.claim [of s k e v a s1] assms(3,5) by (simp add: disk_store_def)
  have new: "\<not> file_done ?s j" using assms(4) by (simp add: file_done_def)
  then have b: b using disk.claim [of ?s j e' u b s2] assms(6) by (simp add: disk_store_def)
  let ?d = "dict_set d (KStr j) u"
  let ?t = "?s\<lparr>fst_data := ?d\<rparr>"
  from new assms(6) obtain w where f: "flush_store e' ?t = (Inr w, s2)"
    using s(1) by (auto simp: file_mark_done_def split: sum.splits prod.splits)
  have "fresh_tmp e' ?t" using assms(7) by (simp add: fresh_tmp_def)
  from flush_store_disk(3) [OF f this] s(1)
  have "map_option fn_data (fst_disk s2 path) = Some (json_text compact_format (JObj ?d))"
    by (simp del: json_text.simps)
  from open_holding [of fl ?d "fst_disk s2" path, OF dict_ok_set [OF s(2) assms(8,9)] this] obtain t where
    "open_store fl None (fst_disk s2) path = Inr t"
    "\<forall>i. dict_get (fst_data t) (KStr i) = map_option (loaded compact_format) (dict_get ?d (KStr i))" by blast
  with a b assms(3) s(1) show ?thesis
    by (auto simp: file_done_def data_done_def file_result_def data_result_def)
qed

text \<open>An example: both objects claim the same payment.\<close>

theorem serialised_claims_lost_witness:
  "\<exists>s1 s2 t. file_mark_done (calm ''t'') ''pay'' (JInt 1) empty_store = (Inr True, s1) \<and>
     file_mark_done (calm ''u'') ''pay'' (JInt 2) (empty_store\<lparr>fst_disk := fst_disk s1\<rparr>) = (Inr True, s2) \<and>
     open_store id None (fst_disk s2) ''d'' = Inr t \<and> file_result t ''pay'' = JInt 2"
proof -
  have n: "\<not> file_done (empty_store\<lparr>fst_disk := w\<rparr>) ''pay''" for w
    by (simp add: file_done_def data_done_def empty_store_def dict_get_def)
  have ser: "serialisable compact_format (JObj (dict_set (fst_data (empty_store\<lparr>fst_disk := w\<rparr>)) (KStr ''pay'') (JInt i)))" for w i
    by (simp add: empty_store_def dict_set_def comparable_def)
  obtain s1 where 1: "file_mark_done (calm ''t'') ''pay'' (JInt 1) empty_store = (Inr True, s1)"
    using calm_mark [OF n ser [of "fst_disk empty_store" 1], of "''t''"] by auto
  obtain s2 where 2: "file_mark_done (calm ''u'') ''pay'' (JInt 2) (empty_store\<lparr>fst_disk := fst_disk s1\<rparr>) = (Inr True, s2)"
    using calm_mark [OF n ser] by blast
  have "fst_disk s1 ''u'' = None"
  proof -
    from 1 obtain w where f: "flush_store (calm ''t'') (empty_store\<lparr>fst_data := dict_set (fst_data empty_store) (KStr ''pay'') (JInt 1)\<rparr>) = (Inr w, s1)"
      using n [of "fst_disk empty_store"] by (auto simp: file_mark_done_def split: sum.splits prod.splits)
    from flush_store_disk(1) [OF f] show ?thesis by (simp add: fresh_tmp_def empty_store_def calm_def)
  qed
  then have t: "fresh_tmp (calm ''u'') (empty_store\<lparr>fst_disk := fst_disk s1\<rparr>)"
    by (simp add: fresh_tmp_def empty_store_def calm_def)
  have "state_file id ''d'' Map.empty" "\<not> file_done empty_store ''pay''"
    using n [of "fst_disk empty_store"] by (simp_all add: state_file_def)
  from serialised_claims_lost [OF this(1) empty_opens this(2) this(2) 1 2 t] 1 2 show ?thesis by auto
qed

text \<open>A file that cannot be read is taken for an empty one: after a read that failed with an \<^verbatim>\<open>OSError\<close>,
  however transient, a claim of any key is answered \<^verbatim>\<open>True\<close>, and every other key is lost.\<close>

theorem unreadable_file_forgets:
  assumes "isinstance exc OSError" and "disk path = Some n" and "disk (fe_tmp e) = None" and "fe_tmp e \<noteq> path"
    and "locked_claim fl path \<lparr>se_read = Some exc, se_flush = e\<rparr> k v disk = (Inr b, disk')"
    and "json_ok fl v" and "str_keyed v"
  shows "b \<and> (\<forall>j. shared_done fl path disk' j \<longleftrightarrow> j = k)"
proof -
  let ?s = "\<lparr>fst_path = path, fst_data = [], fst_disk = disk\<rparr>"
  let ?t = "?s\<lparr>fst_data := [(KStr k, v)]\<rparr>"
  have "open_store fl (Some exc) disk path = Inr ?s"
    using assms(1,2) by (simp add: open_store_def load_state_def recover_def)
  with assms(5) obtain s' where m: "file_mark_done e k v ?s = (Inr b, s')" "disk' = fst_disk s'"
    by (auto simp: locked_claim_def split: prod.splits)
  then obtain w where f: "flush_store e ?t = (Inr w, s')" and b: b
    by (auto simp: file_mark_done_def file_done_def data_done_def dict_get_def dict_set_def
        split: sum.splits prod.splits)
  have "fresh_tmp e ?t" using assms(3,4) by (simp add: fresh_tmp_def)
  from flush_store_disk(3) [OF f this] m(2)
  have "map_option fn_data (disk' path) = Some (json_text compact_format (JObj [(KStr k, v)]))"
    by (simp del: json_text.simps)
  moreover have "dict_ok fl [(KStr k, v)]" using assms(6,7) by (simp add: dict_ok_def)
  ultimately obtain t where "open_store fl None disk' path = Inr t"
    "\<forall>j. dict_get (fst_data t) (KStr j) = map_option (loaded compact_format) (dict_get [(KStr k, v)] (KStr j))"
    using open_holding by blast
  with b show ?thesis by (simp add: shared_done_def file_done_def data_done_def dict_get_def)
qed

end
