(* ===== verification/Guarded_Action.thy ===== *)
theory Guarded_Action
  imports Shared_Store
begin

section \<open>Actions guarded by an idempotency store\<close>

text \<open>
  The use of a store that the README and the head of \<^verbatim>\<open>idempotency.py\<close> are about: a request asks
  \<^verbatim>\<open>already_done\<close>, claims its key with \<^verbatim>\<open>mark_done\<close>, and acts only if the claim is answered
  \<^verbatim>\<open>True\<close>; otherwise it replays the stored result. Any number of requests, of any keys, run on one
  store, interleaved in any order: each call of a method of the store is one step (its lock is held for
  the call), and so is the action. What follows from the contract of theory \<open>Store_Contract\<close> is
  proved once, and holds of both stores.
\<close>

datatype stage = Asking | Claiming | Acting | Replaying | Answered "exn + json"

record request =
  rq_key :: string
  rq_result :: json
  rq_stage :: stage

text \<open>The system: the requests, the store, the world of the actions, and the keys acted for, in order
  (an action that raises counts).\<close>

record ('s, 'w) service =
  sv_requests :: "request list"
  sv_store :: 's
  sv_world :: 'w
  sv_acted :: "string list"

definition at_stage :: "nat \<Rightarrow> stage \<Rightarrow> ('s, 'w) service \<Rightarrow> ('s, 'w) service" where
  "at_stage i stage sv = sv\<lparr>sv_requests := (sv_requests sv)[i := (sv_requests sv ! i)\<lparr>rq_stage := stage\<rparr>]\<rparr>"

definition serve_step ::
  "('e, 's) store_ops \<Rightarrow> (string \<Rightarrow> ('w, unit) callback) \<Rightarrow> nat \<Rightarrow> 'e \<Rightarrow>
   ('s, 'w) service \<Rightarrow> ('s, 'w) service" where
  "serve_step ops act i e sv =
     (let rq = sv_requests sv ! i; s = sv_store sv in
      case rq_stage rq of
        Asking \<Rightarrow> at_stage i (if so_done ops s (rq_key rq) then Replaying else Claiming) sv
      | Claiming \<Rightarrow>
          (case so_mark ops e (rq_key rq) (rq_result rq) s of
             (Inl exc, s') \<Rightarrow> at_stage i (Answered (Inl exc)) (sv\<lparr>sv_store := s'\<rparr>)
           | (Inr won, s') \<Rightarrow> at_stage i (if won then Acting else Replaying) (sv\<lparr>sv_store := s'\<rparr>))
      | Acting \<Rightarrow>
          (case act (rq_key rq) (sv_world sv) of
             (r, w') \<Rightarrow>
               at_stage i (Answered (case r of Inl exc \<Rightarrow> Inl exc | Inr _ \<Rightarrow> Inr (rq_result rq)))
                 (sv\<lparr>sv_world := w', sv_acted := sv_acted sv @ [rq_key rq]\<rparr>))
      | Replaying \<Rightarrow> at_stage i (Answered (Inr (so_result ops s (rq_key rq)))) sv
      | Answered r \<Rightarrow> sv)"

fun serve ::
  "('e, 's) store_ops \<Rightarrow> (string \<Rightarrow> ('w, unit) callback) \<Rightarrow> (nat \<times> 'e) list \<Rightarrow>
   ('s, 'w) service \<Rightarrow> ('s, 'w) service" where
  "serve ops act [] sv = sv"
| "serve ops act ((i, e) # sched) sv =
     serve ops act sched (if i < length (sv_requests sv) then serve_step ops act i e sv else sv)"

subsection \<open>The invariant\<close>

text \<open>How many requests of a key are about to act, and how many ended in an exception.\<close>

definition acting_for :: "string \<Rightarrow> request list \<Rightarrow> nat" where
  "acting_for k rqs = length (List.filter (\<lambda>rq. rq_key rq = k \<and> rq_stage rq = Acting) rqs)"

definition has_raised :: "request \<Rightarrow> bool" where
  "has_raised rq = (case rq_stage rq of Answered r \<Rightarrow> isl r | _ \<Rightarrow> False)"

definition raised_for :: "string \<Rightarrow> request list \<Rightarrow> nat" where
  "raised_for k rqs = length (List.filter (\<lambda>rq. rq_key rq = k \<and> has_raised rq) rqs)"

text \<open>What the stage of a request says about the store.\<close>

definition stage_fine :: "('e, 's) store_ops \<Rightarrow> 's \<Rightarrow> request \<Rightarrow> bool" where
  "stage_fine ops s rq \<longleftrightarrow>
     (case rq_stage rq of
        Acting \<Rightarrow> so_done ops s (rq_key rq) \<and> so_result ops s (rq_key rq) = rq_result rq
      | Replaying \<Rightarrow> so_done ops s (rq_key rq)
      | Answered (Inr v) \<Rightarrow> so_done ops s (rq_key rq) \<and> so_result ops s (rq_key rq) = v
      | _ \<Rightarrow> True)"

definition guarded :: "('e, 's) store_ops \<Rightarrow> string \<Rightarrow> ('s, 'w) service \<Rightarrow> bool" where
  "guarded ops k sv \<longleftrightarrow>
     (let n = count_list (sv_acted sv) k + acting_for k (sv_requests sv) in
      n \<le> 1 \<and> (1 \<le> n \<longrightarrow> so_done ops (sv_store sv) k) \<and>
      (so_done ops (sv_store sv) k \<longrightarrow> n = 1 \<or> 1 \<le> raised_for k (sv_requests sv)))"

lemma acting_update:
  "i < length rqs \<Longrightarrow>
     acting_for k (rqs[i := rq]) + (if rq_key (rqs ! i) = k \<and> rq_stage (rqs ! i) = Acting then 1 else 0) =
     acting_for k rqs + (if rq_key rq = k \<and> rq_stage rq = Acting then 1 else 0)"
  unfolding acting_for_def by (rule filter_update_length)

lemma raised_update:
  "i < length rqs \<Longrightarrow>
     raised_for k (rqs[i := rq]) + (if rq_key (rqs ! i) = k \<and> has_raised (rqs ! i) then 1 else 0) =
     raised_for k rqs + (if rq_key rq = k \<and> has_raised rq then 1 else 0)"
  unfolding raised_for_def by (rule filter_update_length)

context idempotency_store
begin

lemma mark_keeps_done:
  "so_done ops s k \<Longrightarrow> so_mark ops e j v s = (r, s') \<Longrightarrow> so_done ops s' k \<and> so_result ops s' k = so_result ops s k"
  using refuse [of s j e v] other_keys [of e j v s r s' k] by (cases "j = k") auto

lemma mark_keeps_fine:
  "stage_fine ops s rq \<Longrightarrow> so_mark ops e j v s = (r, s') \<Longrightarrow> stage_fine ops s' rq"
  using mark_keeps_done [of s "rq_key rq" e j v r s']
  by (auto simp: stage_fine_def split: stage.splits sum.splits)

text \<open>A request moves on to a stage that is fine of the store as it then is.\<close>

lemma move_fine:
  assumes "\<forall>rq \<in> set rqs. stage_fine ops s rq" and "so_mark ops e j v s = (r, s') \<or> s' = s"
    and "stage_fine ops s' rq'"
  shows "\<forall>rq \<in> set (rqs[i := rq']). stage_fine ops s' rq"
proof -
  have "\<forall>rq \<in> set rqs. stage_fine ops s' rq" using assms(1,2) mark_keeps_fine by blast
  then show ?thesis using assms(3) set_update_subset_insert [of rqs i rq'] by blast
qed

lemma claim_cases:
  assumes "so_mark ops e k v s = (r, s')"
  obtains (raised) exc where "r = Inl exc" "\<not> so_done ops s k"
    | (won) "r = Inr True" "\<not> so_done ops s k" "so_done ops s' k" "so_result ops s' k = v"
    | (lost) "r = Inr False" "so_done ops s k" "s' = s"
  using assms refuse [of s k e v] claim [of s k e v _ s'] by (cases r; cases "so_done ops s k") auto

lemma serve_step_fine:
  assumes "\<forall>rq \<in> set (sv_requests sv). stage_fine ops (sv_store sv) rq" and "i < length (sv_requests sv)"
  shows "\<forall>rq \<in> set (sv_requests (serve_step ops act i e sv)).
    stage_fine ops (sv_store (serve_step ops act i e sv)) rq"
proof -
  let ?s = "sv_store sv"
  define rq where "rq = sv_requests sv ! i"
  have rqf: "stage_fine ops ?s rq" using assms unfolding rq_def by simp
  note move = move_fine [OF assms(1)]
  show ?thesis
  proof (cases "rq_stage rq")
    case Asking
    have "stage_fine ops ?s (rq\<lparr>rq_stage := if so_done ops ?s (rq_key rq) then Replaying else Claiming\<rparr>)"
      by (simp add: stage_fine_def)
    with move Asking show ?thesis by (simp add: serve_step_def at_stage_def rq_def [symmetric])
  next
    case Claiming
    obtain r s' where m: "so_mark ops e (rq_key rq) (rq_result rq) ?s = (r, s')" by (rule prod.exhaust)
    have c: "stage_fine ops s' (rq\<lparr>rq_stage := case r of Inl exc \<Rightarrow> Answered (Inl exc)
        | Inr won \<Rightarrow> if won then Acting else Replaying\<rparr>)"
      by (cases rule: claim_cases [OF m]) (simp_all add: stage_fine_def)
    with move [OF disjI1 [OF m] c] m Claiming show ?thesis
      by (cases r) (simp_all add: serve_step_def at_stage_def rq_def [symmetric])
  next
    case Acting
    obtain r w where a: "act (rq_key rq) (sv_world sv) = (r, w)" by (rule prod.exhaust)
    have "stage_fine ops ?s (rq\<lparr>rq_stage := Answered (case r of Inl exc \<Rightarrow> Inl exc | Inr _ \<Rightarrow> Inr (rq_result rq))\<rparr>)"
      using rqf Acting by (simp add: stage_fine_def split: sum.split)
    with move a Acting show ?thesis by (simp add: serve_step_def at_stage_def rq_def [symmetric])
  next
    case Replaying
    have "stage_fine ops ?s (rq\<lparr>rq_stage := Answered (Inr (so_result ops ?s (rq_key rq)))\<rparr>)"
      using rqf Replaying by (simp add: stage_fine_def)
    with move Replaying show ?thesis by (simp add: serve_step_def at_stage_def rq_def [symmetric])
  next
    case (Answered r)
    with assms(1) show ?thesis by (simp add: serve_step_def rq_def [symmetric])
  qed
qed

lemma serve_step_guarded:
  assumes "guarded ops k sv" and "i < length (sv_requests sv)"
    and "\<forall>rq \<in> set (sv_requests sv). stage_fine ops (sv_store sv) rq"
  shows "guarded ops k (serve_step ops act i e sv)"
proof -
  let ?s = "sv_store sv"
  define rq where "rq = sv_requests sv ! i"
  have rqf: "stage_fine ops ?s rq" using assms(2,3) unfolding rq_def by simp
  note upd = acting_update [OF assms(2), of k, folded rq_def] raised_update [OF assms(2), of k, folded rq_def]
  note step = serve_step_def at_stage_def rq_def [symmetric] guarded_def has_raised_def Let_def
  note g = assms(1) [unfolded guarded_def Let_def]
  show ?thesis
  proof (cases "rq_stage rq")
    case Asking
    then show ?thesis
      using g upd [of "rq\<lparr>rq_stage := if so_done ops ?s (rq_key rq) then Replaying else Claiming\<rparr>"]
      by (simp add: step split: if_splits)
  next
    case Claiming
    obtain r s' where m: "so_mark ops e (rq_key rq) (rq_result rq) ?s = (r, s')" by (rule prod.exhaust)
    note other = other_keys [OF m, of k]
    from m show ?thesis
    proof (cases rule: claim_cases)
      case (raised exc)
      with g other Claiming m upd [of "rq\<lparr>rq_stage := Answered (Inl exc)\<rparr>"] show ?thesis
        by (cases "rq_key rq = k") (auto simp: step)
    next
      case won
      with g other Claiming m upd [of "rq\<lparr>rq_stage := Acting\<rparr>"] show ?thesis
        by (cases "rq_key rq = k") (auto simp: step)
    next
      case lost
      with g Claiming m upd [of "rq\<lparr>rq_stage := Replaying\<rparr>"] show ?thesis by (simp add: step)
    qed
  next
    case Acting
    obtain r w where a: "act (rq_key rq) (sv_world sv) = (r, w)" by (rule prod.exhaust)
    with g Acting upd [of "rq\<lparr>rq_stage := Answered (case r of Inl exc \<Rightarrow> Inl exc | Inr _ \<Rightarrow> Inr (rq_result rq))\<rparr>"]
    show ?thesis by (cases r; cases "rq_key rq = k") (auto simp: step)
  next
    case Replaying
    with g upd [of "rq\<lparr>rq_stage := Answered (Inr (so_result ops ?s (rq_key rq)))\<rparr>"] show ?thesis
      by (simp add: step)
  next
    case (Answered r)
    with assms(1) show ?thesis by (simp add: serve_step_def rq_def [symmetric])
  qed
qed

lemma serve_guarded:
  assumes "guarded ops k sv" and "\<forall>rq \<in> set (sv_requests sv). stage_fine ops (sv_store sv) rq"
  shows "guarded ops k (serve ops act sched sv) \<and>
    (\<forall>rq \<in> set (sv_requests (serve ops act sched sv)). stage_fine ops (sv_store (serve ops act sched sv)) rq)"
  using assms
proof (induction sched arbitrary: sv)
  case (Cons m sched)
  obtain i e where m: "m = (i, e)" by (rule prod.exhaust)
  show ?case
    using Cons.IH [OF serve_step_guarded serve_step_fine] Cons.IH Cons.prems m by simp
qed simp

lemma guarded_once:
  assumes "serve ops act sched sv = sv'" and "\<forall>rq \<in> set (sv_requests sv). rq_stage rq = Asking"
    and "sv_acted sv = []" and "\<not> so_done ops (sv_store sv) k"
  shows "count_list (sv_acted sv') k \<le> 1 \<and>
    (\<forall>rq \<in> set (sv_requests sv'). \<forall>v. rq_key rq = k \<and> rq_stage rq = Answered (Inr v) \<longrightarrow>
       so_done ops (sv_store sv') k \<and> so_result ops (sv_store sv') k = v) \<and>
    ((\<exists>rq \<in> set (sv_requests sv'). \<exists>v. rq_key rq = k \<and> rq_stage rq = Answered (Inr v)) \<and>
     (\<forall>rq \<in> set (sv_requests sv'). rq_key rq = k \<longrightarrow> rq_stage rq \<noteq> Acting \<and> \<not> has_raised rq) \<longrightarrow>
     count_list (sv_acted sv') k = 1)"
proof -
  have "acting_for k (sv_requests sv) = 0" using assms(2) by (auto simp: acting_for_def filter_empty_conv)
  then have "guarded ops k sv" using assms(3,4) by (simp add: guarded_def)
  moreover have "\<forall>rq \<in> set (sv_requests sv). stage_fine ops (sv_store sv) rq"
    using assms(2) by (simp add: stage_fine_def)
  ultimately have g: "guarded ops k sv'"
    and f: "\<forall>rq \<in> set (sv_requests sv'). stage_fine ops (sv_store sv') rq"
    using serve_guarded [of k sv act sched] assms(1) by auto
  have answers: "\<forall>rq \<in> set (sv_requests sv'). \<forall>v. rq_key rq = k \<and> rq_stage rq = Answered (Inr v) \<longrightarrow>
      so_done ops (sv_store sv') k \<and> so_result ops (sv_store sv') k = v"
    using f by (fastforce simp: stage_fine_def)
  moreover have "count_list (sv_acted sv') k = 1"
    if "so_done ops (sv_store sv') k"
      "\<forall>rq \<in> set (sv_requests sv'). rq_key rq = k \<longrightarrow> rq_stage rq \<noteq> Acting \<and> \<not> has_raised rq"
  proof -
    have "acting_for k (sv_requests sv') = 0" "raised_for k (sv_requests sv') = 0"
      using that(2) by (auto simp: acting_for_def raised_for_def filter_empty_conv)
    with g that(1) show ?thesis by (simp add: guarded_def Let_def)
  qed
  ultimately show ?thesis using g by (auto simp: guarded_def Let_def)
qed

end

subsection \<open>Properties\<close>

text \<open>C12: guarded actions run once: any number of requests of a key that was not done run on one file
  store, interleaved anywhere, with requests of other keys, and whatever the disk and the action do.
  The action of the key is run at most once; every request that is answered with a value is answered
  with the one result the store holds; and if no request of the key ended in an exception or still has
  to act, and one was answered, the action was run exactly once.\<close>

theorem guarded_action_runs_once:
  assumes "serve disk_store act sched sv = sv'" and "\<forall>rq \<in> set (sv_requests sv). rq_stage rq = Asking"
    and "sv_acted sv = []" and "\<not> file_done (sv_store sv) k"
  shows "count_list (sv_acted sv') k \<le> 1 \<and>
    (\<forall>rq \<in> set (sv_requests sv'). \<forall>v. rq_key rq = k \<and> rq_stage rq = Answered (Inr v) \<longrightarrow>
       file_done (sv_store sv') k \<and> file_result (sv_store sv') k = v) \<and>
    ((\<exists>rq \<in> set (sv_requests sv'). \<exists>v. rq_key rq = k \<and> rq_stage rq = Answered (Inr v)) \<and>
     (\<forall>rq \<in> set (sv_requests sv'). rq_key rq = k \<longrightarrow> rq_stage rq \<noteq> Acting \<and> \<not> has_raised rq) \<longrightarrow>
     count_list (sv_acted sv') k = 1)"
  using disk.guarded_once [of act sched sv sv' k] assms by (simp add: disk_store_def)

text \<open>An example: two requests of one key, both of which ask before either claims.\<close>

definition pay_request :: "json \<Rightarrow> request" where
  "pay_request v = \<lparr>rq_key = ''pay'', rq_result = v, rq_stage = Asking\<rparr>"

definition two_orders :: "'s \<Rightarrow> ('s, nat) service" where
  "two_orders s = \<lparr>sv_requests = [pay_request (JInt 1), pay_request (JInt 2)], sv_store = s, sv_world = 0, sv_acted = []\<rparr>"

definition both_at_once :: "(nat \<times> flush_env) list" where
  "both_at_once = List.map (\<lambda>i. (i, calm ''t'')) [0, 1, 0, 1, 0, 1]"

theorem guarded_action_runs_once_witness:
  "\<exists>sv'. serve disk_store (\<lambda>k w. (Inr (), w + 1)) both_at_once (two_orders empty_store) = sv' \<and>
     sv_world sv' = 1 \<and> count_list (sv_acted sv') ''pay'' = 1 \<and>
     List.map rq_stage (sv_requests sv') = [Answered (Inr (JInt 1)), Answered (Inr (JInt 1))]"
proof -
  have new: "\<not> file_done empty_store ''pay''"
    by (simp add: file_done_def data_done_def empty_store_def dict_get_def)
  obtain s1 where s1: "file_mark_done (calm ''t'') ''pay'' (JInt 1) empty_store = (Inr True, s1)"
    using calm_claim by (cases "file_mark_done (calm ''t'') ''pay'' (JInt 1) empty_store") auto
  have s1d: "file_done s1 ''pay''" "file_result s1 ''pay'' = JInt 1"
    using disk.claim [of empty_store "''pay''" "calm ''t''" "JInt 1" True s1] new s1 by (simp_all add: disk_store_def)
  then have s2: "file_mark_done (calm ''t'') ''pay'' (JInt 2) s1 = (Inr False, s1)" by (simp add: file_mark_done_def)
  obtain sv' where sv': "serve disk_store (\<lambda>k w. (Inr (), w + 1)) both_at_once (two_orders empty_store) = sv'" by blast
  have ends: "sv_world sv' = 1" "sv_acted sv' = [''pay'']"
    "List.map rq_stage (sv_requests sv') = [Answered (Inr (JInt 1)), Answered (Inr (JInt 1))]"
    using sv' new s1 s2 s1d
    by (auto simp: both_at_once_def two_orders_def pay_request_def serve_step_def at_stage_def disk_store_def)
  have "\<forall>rq \<in> set (sv_requests (two_orders empty_store :: (file_store, nat) service)). rq_stage rq = Asking"
    by (simp add: two_orders_def pay_request_def)
  from guarded_action_runs_once [OF sv' this, of "''pay''"] new have "count_list (sv_acted sv') ''pay'' \<le> 1"
    by (simp add: two_orders_def)
  with sv' ends show ?thesis by simp
qed

text \<open>Exactly once is of the claim, not of the effect: on a store in memory, the second request is answered
  with the result while the first has not acted yet, and stays so when the action then fails.\<close>

theorem replay_before_action:
  "\<exists>sv1 sv2. serve mem_store (\<lambda>k w. (Inl (mk_exn RuntimeError ''declined''), w))
       (List.map (\<lambda>i. (i, ())) [0, 0, 1, 1]) (two_orders []) = sv1 \<and>
     sv_acted sv1 = [] \<and> rq_stage (sv_requests sv1 ! 1) = Answered (Inr (JInt 1)) \<and>
     serve mem_store (\<lambda>k w. (Inl (mk_exn RuntimeError ''declined''), w)) [(0, ())] sv1 = sv2 \<and>
     has_raised (sv_requests sv2 ! 0) \<and> rq_stage (sv_requests sv2 ! 1) = Answered (Inr (JInt 1)) \<and>
     data_done (sv_store sv2) ''pay''"
  by (simp add: two_orders_def pay_request_def serve_step_def at_stage_def mem_store_def mem_mark_done_def
      data_done_def data_result_def dict_get_def dict_set_def has_raised_def)

end
