(* ===== verification/Handlers.thy ===== *)
theory Handlers
  imports Athena Line_Codec
begin

section \<open>The Lambda handlers\<close>

text \<open>
  Models the S3 and response helpers of \<^verbatim>\<open>scope-core/src/scope_core/utils.py\<close> and the two handler
  scaffolds of \<^verbatim>\<open>scope-core/src/scope_core/handlers.py\<close>. The S3 client and the hooks of a subclass
  (\<^verbatim>\<open>fetch_records\<close>, \<^verbatim>\<open>build_s3_key\<close>, \<^verbatim>\<open>build_query\<close>) are callbacks on a world; a hook that is
  not overridden is \<open>not_implemented\<close> or the default key. Logging is left out. Events and records
  are JSON values.
\<close>

subsection \<open>Writing to S3\<close>

record s3_request =
  sr_bucket :: string
  sr_key :: string
  sr_body :: string
  sr_content_type :: "string option"

type_synonym 'w s3 = "s3_request \<Rightarrow> ('w, unit) callback"

definition s3_uri :: "string \<Rightarrow> string \<Rightarrow> string" where
  "s3_uri bucket key = ''s3://'' @ bucket @ ''/'' @ key"

definition write_object_to_s3 ::
  "'w s3 \<Rightarrow> string \<Rightarrow> string \<Rightarrow> string \<Rightarrow> string option \<Rightarrow> ('w, string) callback" where
  "write_object_to_s3 s3 bucket key body content_type w =
     (case s3 \<lparr>sr_bucket = bucket, sr_key = key, sr_body = body,
               sr_content_type = (case content_type of
                  None \<Rightarrow> None | Some t \<Rightarrow> if t = [] then None else Some t)\<rparr> w of
        (Inl e, w1) \<Rightarrow> (Inl e, w1)
      | (Inr _, w1) \<Rightarrow> (Inr (s3_uri bucket key), w1))"

fun dumps_all :: "json list \<Rightarrow> exn + string list" where
  "dumps_all [] = Inr []"
| "dumps_all (r # rs) =
     (case json_dumps default_format r of
        Inl e \<Rightarrow> Inl e
      | Inr t \<Rightarrow> (case dumps_all rs of Inl e \<Rightarrow> Inl e | Inr ts \<Rightarrow> Inr (t # ts)))"

definition write_jsonl_to_s3 ::
  "'w s3 \<Rightarrow> string \<Rightarrow> string \<Rightarrow> json list \<Rightarrow> ('w, string) callback" where
  "write_jsonl_to_s3 s3 bucket key records w =
     (case dumps_all records of
        Inl e \<Rightarrow> (Inl e, w)
      | Inr ts \<Rightarrow>
          write_object_to_s3 s3 bucket key (py_join [CHR 0x0A] ts) (Some ''application/json'') w)"

subsection \<open>Envelopes\<close>

record response =
  rs_status :: int
  rs_body :: string

definition response_envelope :: "int \<Rightarrow> json \<Rightarrow> exn + response" where
  "response_envelope status_code body =
     (case json_dumps default_format body of
        Inl e \<Rightarrow> Inl e
      | Inr t \<Rightarrow> Inr \<lparr>rs_status = status_code, rs_body = t\<rparr>)"

definition success_response :: "json \<Rightarrow> exn + response" where
  "success_response body = response_envelope 200 body"

definition error_response :: "string \<Rightarrow> int \<Rightarrow> exn + response" where
  "error_response error status_code = response_envelope status_code (JObj [(KStr ''error'', JStr error)])"

subsection \<open>Ingestion\<close>

record 'w ingestion_handler =
  ih_s3 :: "'w s3"
  ih_bucket :: string
  ih_fetch :: "json \<Rightarrow> ('w, json list) callback"
  ih_build_key :: "json \<Rightarrow> ('w, string) callback"

definition not_implemented :: "json \<Rightarrow> ('w, 'a) callback" where
  "not_implemented event w = (Inl (mk_exn NotImplementedError []), w)"

definition default_s3_key :: "json \<Rightarrow> ('w, string) callback" where
  "default_s3_key event w = (Inr ''records.jsonl'', w)"

definition ingest_result :: "nat \<Rightarrow> string \<Rightarrow> json" where
  "ingest_result n s3_path =
     JObj [(KStr ''status'', JStr ''completed''), (KStr ''records_fetched'', JInt (int n)),
           (KStr ''s3_path'', JStr s3_path)]"

definition ingest :: "'w ingestion_handler \<Rightarrow> json \<Rightarrow> ('w, json) callback" where
  "ingest h event w =
     (case ih_fetch h event w of
        (Inl e, w1) \<Rightarrow> (Inl e, w1)
      | (Inr records, w1) \<Rightarrow>
          (if records = [] then (Inr (ingest_result 0 []), w1)
           else
             (case ih_build_key h event w1 of
                (Inl e, w2) \<Rightarrow> (Inl e, w2)
              | (Inr key, w2) \<Rightarrow>
                  (case write_jsonl_to_s3 (ih_s3 h) (ih_bucket h) key records w2 of
                     (Inl e, w3) \<Rightarrow> (Inl e, w3)
                   | (Inr s3_path, w3) \<Rightarrow> (Inr (ingest_result (length records) s3_path), w3)))))"

text \<open>\<^verbatim>\<open>try\<close> around \<^verbatim>\<open>success_response(self.ingest(event))\<close>.\<close>

definition handle :: "'w ingestion_handler \<Rightarrow> json \<Rightarrow> ('w, response) callback" where
  "handle h event w =
     (case ingest h event w of
        (r, w1) \<Rightarrow>
          (case (case r of Inl e \<Rightarrow> Inl e | Inr body \<Rightarrow> success_response body) of
             Inr resp \<Rightarrow> (Inr resp, w1)
           | Inl e \<Rightarrow>
               if isinstance e Exception then (error_response (exn_str e) 500, w1) else (Inl e, w1)))"

subsection \<open>Analysis\<close>

record 'w analysis_handler =
  an_client :: "'w athena_client"
  an_allowlist :: "pyval list"
  an_field :: string
  an_build :: "pyval \<Rightarrow> json \<Rightarrow> ('w, string \<times> string list) callback"

text \<open>The constructor: the allowlist becomes a set.\<close>

definition new_analysis_handler ::
  "'w athena_client \<Rightarrow> pyval list \<Rightarrow> string \<Rightarrow> (pyval \<Rightarrow> json \<Rightarrow> ('w, string \<times> string list) callback) \<Rightarrow>
   exn + 'w analysis_handler" where
  "new_analysis_handler client allowlist entity_field build =
     (case as_set allowlist of
        Inl e \<Rightarrow> Inl e
      | Inr s \<Rightarrow> Inr \<lparr>an_client = client, an_allowlist = s, an_field = entity_field, an_build = build\<rparr>)"

datatype result_value = REntity pyval | RText string | RRows "row list option"

type_synonym result = "(string \<times> result_value) list"

text \<open>A dictionary display: later entries replace earlier ones with the same key.\<close>

definition display :: "result \<Rightarrow> result" where
  "display kvs = foldl (\<lambda>d (k, v). dict_set d k v) [] kvs"

definition completed_result :: "'w analysis_handler \<Rightarrow> pyval \<Rightarrow> exec_result \<Rightarrow> result" where
  "completed_result h entity res =
     display [(an_field h, REntity entity), (''query_execution_id'', RText (er_qid res)),
       (''status'', RText ''completed''), (''rows'', RRows (er_rows res))]"

definition error_result :: "'w analysis_handler \<Rightarrow> pyval \<Rightarrow> exn \<Rightarrow> result" where
  "error_result h entity exc =
     display [(an_field h, REntity entity), (''status'', RText ''error''), (''error'', RText (exn_str exc))]"

definition analyze_entity ::
  "'w analysis_handler \<Rightarrow> pyval \<Rightarrow> json \<Rightarrow> 'w \<Rightarrow> ((exn + result) \<times> 'w) option" where
  "analyze_entity h entity event w =
     (case validate_in_allowlist entity (an_allowlist h) (an_field h) of
        Inl e \<Rightarrow> Some (Inl e, w)
      | Inr _ \<Rightarrow>
          (case an_build h entity event w of
             (Inl e, w1) \<Rightarrow> Some (Inl e, w1)
           | (Inr (query, params), w1) \<Rightarrow>
               (case execute (an_client h) query (Some params) None True None 1000 w1 of
                  None \<Rightarrow> None
                | Some (Inl e, w2) \<Rightarrow> Some (Inl e, w2)
                | Some (Inr res, w2) \<Rightarrow> Some (Inr (completed_result h entity res), w2))))"

fun analyze_loop ::
  "'w analysis_handler \<Rightarrow> json \<Rightarrow> pyval list \<Rightarrow> result list \<Rightarrow> 'w \<Rightarrow>
   ((exn + result list) \<times> 'w) option" where
  "analyze_loop h event [] results w = Some (Inr results, w)"
| "analyze_loop h event (entity # entities) results w =
     (case analyze_entity h entity event w of
        None \<Rightarrow> None
      | Some (Inr r, w1) \<Rightarrow> analyze_loop h event entities (results @ [r]) w1
      | Some (Inl e, w1) \<Rightarrow>
          if isinstance e Exception
          then analyze_loop h event entities (results @ [error_result h entity e]) w1
          else Some (Inl e, w1))"

text \<open>Python's \<^verbatim>\<open>event or {}\<close>: a falsy value is replaced. The event is \<^verbatim>\<open>None\<close> or a JSON value.\<close>

text \<open>A float is zero when the digits before its exponent are.\<close>

definition zero_float :: "string \<Rightarrow> bool" where
  "zero_float t = list_all (\<lambda>c. c \<in> set ''-0.'') (takeWhile (\<lambda>c. c \<notin> set ''eE'') t)"

definition falsy :: "json \<Rightarrow> bool" where
  "falsy j =
     (case j of
        JFloat t \<Rightarrow> zero_float t
      | _ \<Rightarrow> j \<in> {JNull, JBool False, JInt 0, JStr [], JList [], JObj []})"

definition event_or_empty :: "json option \<Rightarrow> json" where
  "event_or_empty event = (case event of None \<Rightarrow> JObj [] | Some e \<Rightarrow> if falsy e then JObj [] else e)"

definition analyze ::
  "'w analysis_handler \<Rightarrow> pyval list \<Rightarrow> json option \<Rightarrow> 'w \<Rightarrow> ((exn + result list) \<times> 'w) option" where
  "analyze h entities event w =
     analyze_loop h (event_or_empty event) entities [] w"

subsection \<open>One result per entity\<close>

text \<open>What may be reported for an entity, by an analysis of it that starts in the world \<open>w\<close> and ends in
  \<open>w'\<close>. A dictionary is given by what each key returns.\<close>

text \<open>The query built for the entity was started with its text, its parameters and the client's
  database, the service reported success for the identifier it gave, and the rows are those of its
  result.\<close>

definition completed :: "'w analysis_handler \<Rightarrow> json \<Rightarrow> pyval \<Rightarrow> 'w \<Rightarrow> result \<Rightarrow> 'w \<Rightarrow> bool" where
  "completed h ev x w r w' \<longleftrightarrow>
     (let svc = ac_service (an_client h) in
      \<exists>query params w1 rq qid w2. an_build h x ev w = (Inr (query, params), w1) \<and>
        as_start svc rq w1 = (Inr qid, w2) \<and> qr_query rq = query \<and>
        qr_database rq = ac_database (an_client h) \<and> qr_params rq = (if params = [] then None else Some params) \<and>
        (\<exists>v reason v'. as_status svc qid v = (Inr (''SUCCEEDED'', reason), v')) \<and>
        (\<exists>v raw. as_results svc qid 1000 v = (Inr raw, w') \<and>
           dict_get r = map_of [(''rows'', RRows (Some (rows_of raw))), (''status'', RText ''completed''),
             (''query_execution_id'', RText qid), (an_field h, REntity x)]))"

text \<open>The query builder raised \<open>e\<close>, or the client did when it executed the query built.\<close>

definition query_raised :: "'w analysis_handler \<Rightarrow> json \<Rightarrow> pyval \<Rightarrow> 'w \<Rightarrow> exn \<Rightarrow> 'w \<Rightarrow> bool" where
  "query_raised h ev x w e w' \<longleftrightarrow>
     an_build h x ev w = (Inl e, w') \<or>
     (\<exists>query params w1. an_build h x ev w = (Inr (query, params), w1) \<and>
        execute (an_client h) query (Some params) None True None 1000 w1 = Some (Inl e, w'))"

definition error_entry :: "'w analysis_handler \<Rightarrow> pyval \<Rightarrow> exn \<Rightarrow> result \<Rightarrow> bool" where
  "error_entry h x e r \<longleftrightarrow>
     dict_get r = map_of [(''error'', RText (exn_str e)), (''status'', RText ''error''), (an_field h, REntity x)]"

definition reported :: "'w analysis_handler \<Rightarrow> json \<Rightarrow> pyval \<Rightarrow> 'w \<Rightarrow> result \<Rightarrow> 'w \<Rightarrow> bool" where
  "reported h ev x w r w' \<longleftrightarrow>
     (if permitted x (an_allowlist h)
      then completed h ev x w r w' \<or>
           (\<exists>e. query_raised h ev x w e w' \<and> isinstance e Exception \<and> error_entry h x e r)
      else w' = w \<and>
           (\<exists>e. validate_in_allowlist x (an_allowlist h) (an_field h) = Inl e \<and> error_entry h x e r \<and>
             (isinstance e TypeError \<or>
              e = mk_exn IdentifierError (''Disallowed '' @ an_field h @ '': '' @ repr_of x))))"

text \<open>A run over entities: each in the world the one before left.\<close>

fun reported_all ::
  "'w analysis_handler \<Rightarrow> json \<Rightarrow> pyval list \<Rightarrow> 'w \<Rightarrow> result list \<Rightarrow> 'w \<Rightarrow> bool" where
  "reported_all h ev [] w rs w' \<longleftrightarrow> rs = [] \<and> w' = w"
| "reported_all h ev (x # xs) w rs w' \<longleftrightarrow>
     (\<exists>r rest w1. rs = r # rest \<and> reported h ev x w r w1 \<and> reported_all h ev xs w1 rest w')"

lemma reported_all_snoc:
  "reported_all h ev (xs @ [x]) w rs w' \<longleftrightarrow>
     (\<exists>front r v. rs = front @ [r] \<and> reported_all h ev xs w front v \<and> reported h ev x v r w')"
proof (induction xs arbitrary: w rs)
  case (Cons y ys)
  show ?case
  proof
    assume "reported_all h ev ((y # ys) @ [x]) w rs w'"
    then obtain q rest w1 where q: "rs = q # rest" "reported h ev y w q w1"
      "reported_all h ev (ys @ [x]) w1 rest w'" by auto
    from q(3) [unfolded Cons.IH] obtain front r v where
      "rest = front @ [r]" "reported_all h ev ys w1 front v" "reported h ev x v r w'" by blast
    with q(1,2) show "\<exists>front r v. rs = front @ [r] \<and> reported_all h ev (y # ys) w front v \<and> reported h ev x v r w'"
      by (intro exI [of _ "q # front"]) auto
  qed (use Cons.IH in fastforce)
qed simp

lemma reported_all_length: "reported_all h ev xs w rs w' \<Longrightarrow> length rs = length xs"
  by (induction xs arbitrary: w rs) auto

lemma display_get:
  "dict_get (display kvs) k = map_of (rev kvs) k"
proof -
  have "dict_get (foldl (\<lambda>d (k, v). dict_set d k v) d kvs) k =
      (case map_of (rev kvs) k of None \<Rightarrow> dict_get d k | Some v \<Rightarrow> Some v)" for d :: result
    by (induction kvs arbitrary: d) (auto simp: map_add_def split: option.splits)
  then show ?thesis by (simp add: display_def dict_get_def split: option.splits)
qed

lemma error_result_entry: "error_entry h x e (error_result h x e)"
  unfolding error_entry_def by (rule ext) (simp add: error_result_def display_get)

lemma not_validated_exception:
  "validate_in_allowlist x allowed field = Inl e \<Longrightarrow> isinstance e Exception"
proof -
  have "isinstance e Exception" if "hash_error v = Some e" for v
    using that by (auto simp: hash_error_def split: pyval.splits)
  moreover have "as_set vs = Inl e \<Longrightarrow> \<exists>v. hash_error v = Some e" for vs
    by (induction vs) (auto split: option.splits sum.splits)
  moreover assume "validate_in_allowlist x allowed field = Inl e"
  ultimately show ?thesis
    by (auto simp: validate_in_allowlist_def split: sum.splits option.splits if_splits)
qed

lemma analyze_entity_disallowed:
  assumes "\<not> permitted x (an_allowlist h)"
  obtains e where "analyze_entity h x event w = Some (Inl e, w)"
    "validate_in_allowlist x (an_allowlist h) (an_field h) = Inl e"
    "isinstance e TypeError \<or>
     e = mk_exn IdentifierError (''Disallowed '' @ an_field h @ '': '' @ repr_of x)"
proof (cases "validate_in_allowlist x (an_allowlist h) (an_field h)")
  case (Inl e)
  with that not_validated [OF Inl] show thesis by (simp add: analyze_entity_def)
next
  case (Inr v)
  with assms validated show thesis by blast
qed

lemma analyze_entity_returns:
  assumes "client_clocked time (an_client h)" "0 < ac_interval (an_client h)" "permitted x (an_allowlist h)"
  shows "\<exists>r w'. analyze_entity h x ev w = Some (r, w') \<and>
    (case r of Inl e \<Rightarrow> query_raised h ev x w e w' | Inr q \<Rightarrow> completed h ev x w q w')"
proof -
  have v: "validate_in_allowlist x (an_allowlist h) (an_field h) = Inr x" using assms(3) by (simp add: validated)
  obtain b w1 where b: "an_build h x ev w = (b, w1)" by (rule prod.exhaust)
  show ?thesis
  proof (cases b)
    case (Inl e)
    with v b show ?thesis by (simp add: analyze_entity_def query_raised_def)
  next
    case (Inr qp)
    obtain query params where qp: "qp = (query, params)" by (rule prod.exhaust)
    let ?svc = "ac_service (an_client h)"
    from execute_cases [OF assms(1,2), of query "Some params" None True None 1000 w1] obtain r w2 where
      r: "execute (an_client h) query (Some params) None True None 1000 w1 = Some (r, w2)" and
      ok: "case r of Inl e \<Rightarrow> True
        | Inr res \<Rightarrow>
          (\<exists>rq u. as_start ?svc rq w1 = (Inr (er_qid res), u) \<and> qr_query rq = query \<and>
             qr_database rq = ac_database (an_client h) \<and>
             qr_params rq = (if Some params = Some [] then None else Some params)) \<and>
          (\<exists>v reason v'. as_status ?svc (er_qid res) v = (Inr (''SUCCEEDED'', reason), v')) \<and>
          (\<exists>v raw. as_results ?svc (er_qid res) 1000 v = (Inr raw, w2) \<and> er_rows res = Some (rows_of raw))"
      by (elim exE conjE) (auto split: sum.splits)
    show ?thesis
    proof (cases r)
      case (Inl e)
      with v b Inr qp r \<open>b = Inr qp\<close> show ?thesis by (auto simp: analyze_entity_def query_raised_def)
    next
      case (Inr res)
      have d: "dict_get (completed_result h x res) = map_of [(''rows'', RRows (er_rows res)), (''status'', RText ''completed''),
          (''query_execution_id'', RText (er_qid res)), (an_field h, REntity x)]"
        by (rule ext) (simp add: completed_result_def display_get)
      from ok Inr obtain rq u v reason v' v2 raw where s:
        "as_start ?svc rq w1 = (Inr (er_qid res), u)" "qr_query rq = query" "qr_database rq = ac_database (an_client h)"
        "qr_params rq = (if params = [] then None else Some params)"
        "as_status ?svc (er_qid res) v = (Inr (''SUCCEEDED'', reason), v')"
        "as_results ?svc (er_qid res) 1000 v2 = (Inr raw, w2)" "er_rows res = Some (rows_of raw)" by auto
      have "an_build h x ev w = (Inr (query, params), w1)" using b \<open>b = Inr qp\<close> qp by simp
      then have "completed h ev x w (completed_result h x res) w2"
        unfolding completed_def Let_def using d s by metis
      with v b \<open>b = Inr qp\<close> qp r Inr show ?thesis by (simp add: analyze_entity_def)
    qed
  qed
qed

text \<open>What stops a run: an exception that is not an \<^verbatim>\<open>Exception\<close>, raised by the query of an entity.\<close>

definition interrupted :: "'w analysis_handler \<Rightarrow> json \<Rightarrow> pyval list \<Rightarrow> 'w \<Rightarrow> exn \<Rightarrow> 'w \<Rightarrow> bool" where
  "interrupted h ev xs w e w' \<longleftrightarrow>
     (\<exists>before x after rs v. xs = before @ x # after \<and> reported_all h ev before w rs v \<and>
        permitted x (an_allowlist h) \<and> query_raised h ev x v e w' \<and> \<not> isinstance e Exception)"

lemma analyze_entity_reported:
  assumes "client_clocked time (an_client h)" "0 < ac_interval (an_client h)"
  shows "\<exists>r w'. analyze_entity h x ev w = Some (r, w') \<and>
    (case r of
       Inl e \<Rightarrow> if isinstance e Exception then reported h ev x w (error_result h x e) w'
                else permitted x (an_allowlist h) \<and> query_raised h ev x w e w'
     | Inr q \<Rightarrow> reported h ev x w q w')"
proof (cases "permitted x (an_allowlist h)")
  case True
  from analyze_entity_returns [OF assms True, of ev w] show ?thesis
    by (rule ex2_conj_mono) (use True error_result_entry in \<open>auto simp: reported_def split: sum.splits\<close>)
next
  case False
  then obtain e where e: "analyze_entity h x ev w = Some (Inl e, w)"
    "validate_in_allowlist x (an_allowlist h) (an_field h) = Inl e"
    "isinstance e TypeError \<or> e = mk_exn IdentifierError (''Disallowed '' @ an_field h @ '': '' @ repr_of x)"
    by (rule analyze_entity_disallowed)
  have "isinstance e Exception" using not_validated_exception [OF e(2)] .
  with e False error_result_entry [of h x e] show ?thesis by (auto simp: reported_def)
qed

lemma analyze_loop_returns:
  assumes "client_clocked time (an_client h)" "0 < ac_interval (an_client h)"
    and "reported_all h ev before w0 done w"
  shows "\<exists>r w'. analyze_loop h ev xs done w = Some (r, w') \<and>
    (case r of
       Inl e \<Rightarrow> interrupted h ev (before @ xs) w0 e w'
     | Inr rs \<Rightarrow> reported_all h ev (before @ xs) w0 rs w')"
  using assms(3)
proof (induction xs arbitrary: before "done" w)
  case (Cons x xs)
  from analyze_entity_reported [OF assms(1,2), of x ev w] obtain r w1 where
    r: "analyze_entity h x ev w = Some (r, w1)"
    "case r of
       Inl e \<Rightarrow> if isinstance e Exception then reported h ev x w (error_result h x e) w1
                else permitted x (an_allowlist h) \<and> query_raised h ev x w e w1
     | Inr q \<Rightarrow> reported h ev x w q w1" by blast
  have next_one: ?case
    if "reported h ev x w q w1" "analyze_loop h ev (x # xs) done w = analyze_loop h ev xs (done @ [q]) w1" for q
  proof -
    have "reported_all h ev (before @ [x]) w0 (done @ [q]) w1"
      using Cons.prems that(1) by (auto simp: reported_all_snoc)
    from Cons.IH [OF this] that(2) show ?thesis by (simp only: append_assoc append_Cons append_Nil)
  qed
  show ?case
  proof (cases r)
    case (Inr q)
    with r show ?thesis by (intro next_one [of q]) auto
  next
    case (Inl e)
    show ?thesis
    proof (cases "isinstance e Exception")
      case True
      with r Inl show ?thesis by (intro next_one [of "error_result h x e"]) auto
    next
      case False
      with r Inl Cons.prems have "interrupted h ev (before @ x # xs) w0 e w1"
        unfolding interrupted_def by auto
      with r Inl False show ?thesis by simp
    qed
  qed
qed simp

text \<open>C14: analysis isolates its entities: with a clock that moves it always comes to an end, and there is
  exactly one result per entity, in order, each entity analysed in the world the one before left, unless
  the query of an entity raises something that is not an \<^verbatim>\<open>Exception\<close> (an interrupt), which passes through. An
  entity that equals no member of the allowlist is reported as a disallowed identifier (or as
  unhashable), and neither the query builder nor the service is called for it. For one that is in it, the
  query built for that entity was started with its text and parameters, succeeded, and the result
  carries its identifier and its rows; or the builder or the client raised, and the result carries that
  error. The result names its entity as long as the configured field is none of the fixed fields.\<close>

theorem analyze_one_result_each:
  assumes "client_clocked time (an_client h)" and "0 < ac_interval (an_client h)"
  shows "(\<exists>r w'. analyze h xs event w = Some (r, w') \<and>
      (case r of
         Inl e \<Rightarrow> interrupted h (event_or_empty event) xs w e w'
       | Inr rs \<Rightarrow> length rs = length xs \<and> reported_all h (event_or_empty event) xs w rs w')) \<and>
     (\<forall>x ev v. \<not> permitted x (an_allowlist h) \<longrightarrow> (\<exists>e. analyze_entity h x ev v = Some (Inl e, v))) \<and>
     (\<forall>x ev v r v'. reported h ev x v r v' \<and> an_field h \<notin> {''query_execution_id'', ''status'', ''rows'', ''error''} \<longrightarrow>
        dict_get r (an_field h) = Some (REntity x))"
proof (intro conjI allI impI)
  have "reported_all h (event_or_empty event) [] w [] w" by simp
  from analyze_loop_returns [OF assms this, of xs]
  show "\<exists>r w'. analyze h xs event w = Some (r, w') \<and>
      (case r of
         Inl e \<Rightarrow> interrupted h (event_or_empty event) xs w e w'
       | Inr rs \<Rightarrow> length rs = length xs \<and> reported_all h (event_or_empty event) xs w rs w')"
    unfolding analyze_def by (rule ex2_conj_mono) (auto split: sum.splits dest: reported_all_length)
next
  fix x ev v
  assume "\<not> permitted x (an_allowlist h)"
  then show "\<exists>e. analyze_entity h x ev v = Some (Inl e, v)"
    by (rule analyze_entity_disallowed [of x h ev v]) blast
next
  fix x ev v r v'
  assume "reported h ev x v r v' \<and> an_field h \<notin> {''query_execution_id'', ''status'', ''rows'', ''error''}"
  then show "dict_get r (an_field h) = Some (REntity x)"
    by (auto simp: reported_def completed_def error_entry_def Let_def split: if_splits)
qed

text \<open>An example: two entities, one of them not in the allowlist.\<close>

definition demo_analysis :: "rat analysis_handler" where
  "demo_analysis = \<lparr>an_client = demo_client, an_allowlist = [VStr ''CU''], an_field = ''commodity'',
     an_build = \<lambda>x ev w. (Inr (''SELECT 1'', []), w)\<rparr>"

theorem analyze_one_result_each_witness:
  "\<exists>r w'. analyze demo_analysis [VStr ''CU'', VStr ''CU; DROP''] None 0 = Some (r, w') \<and>
     (\<forall>rs. r = Inr rs \<longrightarrow> length rs = 2 \<and>
        dict_get (rs ! 1) ''error'' = Some (RText (''Disallowed commodity: '' @ repr_of (VStr ''CU; DROP''))))"
proof -
  have c: "client_clocked id (an_client demo_analysis)" "0 < ac_interval (an_client demo_analysis)"
    using demo_clocked by (simp_all add: demo_analysis_def demo_client_def)
  note a = analyze_one_result_each [OF c, of "[VStr ''CU'', VStr ''CU; DROP'']" None 0]
  show ?thesis
    using conjunct1 [OF a]
    by (rule ex2_conj_mono) (auto simp: reported_def demo_analysis_def permitted_def hash_error_def
        validate_in_allowlist_def error_entry_def)
qed

subsection \<open>Ingestion is handled\<close>

lemma dumps_all_fine:
  "list_all (record_fine fl) rs \<Longrightarrow> dumps_all rs = Inr (List.map (json_text default_format) rs)"
  by (induction rs) (auto simp: record_fine_def json_dumps_def str_keyed_serialisable [of fl])

lemma envelope_ok:
  "success_response (ingest_result n p) = Inr \<lparr>rs_status = 200, rs_body = json_text default_format (ingest_result n p)\<rparr>"
  "error_response msg code =
     Inr \<lparr>rs_status = code, rs_body = json_text default_format (JObj [(KStr ''error'', JStr msg)])\<rparr>"
  by (simp_all add: success_response_def error_response_def response_envelope_def json_dumps_def
      ingest_result_def default_format_def)

lemma ingest_returns:
  assumes "ingest h event w = (Inr body, w')" "list_all (record_fine fl) records"
    and "ih_fetch h event w = (Inr records, w1)" "records \<noteq> []"
  shows "\<exists>rq v. ih_s3 h rq v = (Inr (), w') \<and> sr_bucket rq = ih_bucket h \<and>
    body = ingest_result (length records) (s3_uri (sr_bucket rq) (sr_key rq)) \<and>
    List.map (json_loads fl) (splitlines (sr_body rq)) = List.map Inr records"
proof -
  obtain k w2 where k: "ih_build_key h event w1 = (k, w2)" by (rule prod.exhaust)
  with assms(1,3,4) obtain key where key: "k = Inr key" by (cases k) (auto simp: ingest_def)
  let ?body = "py_join [CHR 0x0A] (List.map (json_text default_format) records)"
  obtain p w3 where p: "write_jsonl_to_s3 (ih_s3 h) (ih_bucket h) key records w2 = (p, w3)"
    by (rule prod.exhaust)
  with assms(1,3,4) k key obtain path where path: "p = Inr path" "w3 = w'"
    "body = ingest_result (length records) path"
    by (cases p) (auto simp: ingest_def)
  let ?rq = "\<lparr>sr_bucket = ih_bucket h, sr_key = key, sr_body = ?body,
      sr_content_type = Some ''application/json''\<rparr>"
  from p path have put: "ih_s3 h ?rq w2 = (Inr (), w')" "path = s3_uri (ih_bucket h) key"
    by (auto simp: write_jsonl_to_s3_def dumps_all_fine [OF assms(2)] write_object_to_s3_def
        split: prod.splits sum.splits)
  from json_lines.joined_decode [OF assms(2)]
  have "List.map (json_loads fl) (splitlines ?body) = List.map Inr records" .
  with put path(3) show ?thesis by (intro exI [of _ ?rq] exI [of _ w2]) simp
qed

text \<open>C30: the ingestion entry point never raises an \<^verbatim>\<open>Exception\<close>: it answers 200 with the result of
  \<^verbatim>\<open>ingest\<close>, or 500 with the text of what was raised; and on a 200 with records, one object was
  written to the configured bucket, whose lines read back as exactly the fetched records, under the
  URI and with the count the answer gives.\<close>

theorem ingestion_handled:
  assumes "handle h event w = (r, w')"
  shows "(case r of
        Inl e \<Rightarrow> \<not> isinstance e Exception \<and> ingest h event w = (Inl e, w')
      | Inr resp \<Rightarrow>
          (\<exists>n path. ingest h event w = (Inr (ingest_result n path), w') \<and> rs_status resp = 200 \<and>
             rs_body resp = json_text default_format (ingest_result n path)) \<or>
          (\<exists>e. ingest h event w = (Inl e, w') \<and> rs_status resp = 500 \<and>
             rs_body resp = json_text default_format (JObj [(KStr ''error'', JStr (exn_str e))]))) \<and>
     (\<forall>resp records w1. r = Inr resp \<longrightarrow> rs_status resp = 200 \<longrightarrow>
        ih_fetch h event w = (Inr records, w1) \<longrightarrow> records \<noteq> [] \<longrightarrow> list_all (record_fine fl) records \<longrightarrow>
        (\<exists>rq v. ih_s3 h rq v = (Inr (), w') \<and> sr_bucket rq = ih_bucket h \<and>
           rs_body resp = json_text default_format
             (ingest_result (length records) (s3_uri (sr_bucket rq) (sr_key rq))) \<and>
           List.map (json_loads fl) (splitlines (sr_body rq)) = List.map Inr records))"
proof -
  obtain q w1 where q: "ingest h event w = (q, w1)" by (rule prod.exhaust)
  have shape: "\<exists>n path. body = ingest_result n path" if "q = Inr body" for body
    using q that by (auto simp: ingest_def split: prod.splits sum.splits if_splits)
  show ?thesis
  proof (cases q)
    case (Inl e)
    with q assms show ?thesis by (auto simp: handle_def envelope_ok split: if_splits)
  next
    case (Inr body)
    with shape obtain n path where body: "body = ingest_result n path" by blast
    with q assms Inr have r: "w' = w1" "r = Inr \<lparr>rs_status = 200, rs_body = json_text default_format body\<rparr>"
      by (simp_all add: handle_def envelope_ok)
    have put: "\<exists>rq v. ih_s3 h rq v = (Inr (), w') \<and> sr_bucket rq = ih_bucket h \<and>
        body = ingest_result (length records) (s3_uri (sr_bucket rq) (sr_key rq)) \<and>
        List.map (json_loads fl) (splitlines (sr_body rq)) = List.map Inr records"
      if "ih_fetch h event w = (Inr records, v1)" "records \<noteq> []" "list_all (record_fine fl) records"
      for records v1
      using ingest_returns [OF q [unfolded Inr] that(3,1,2)] r(1) by simp
    from body q Inr r put show ?thesis by fastforce
  qed
qed

text \<open>An example: one record, written to a bucket that accepts it; the world is the last request.\<close>

definition demo_ingestion :: "s3_request option ingestion_handler" where
  "demo_ingestion = \<lparr>ih_s3 = \<lambda>rq w. (Inr (), Some rq), ih_bucket = ''raw'',
     ih_fetch = \<lambda>ev w. (Inr [JObj [(KStr ''i'', JInt 1)]], w), ih_build_key = default_s3_key\<rparr>"

theorem ingestion_handled_witness:
  "\<exists>resp rq. handle demo_ingestion (JObj []) None = (Inr resp, Some rq) \<and> rs_status resp = 200 \<and>
     List.map (json_loads id) (splitlines (sr_body rq)) = [Inr (JObj [(KStr ''i'', JInt 1)])]"
proof -
  obtain r w' where h: "handle demo_ingestion (JObj []) None = (r, w')" by (rule prod.exhaust)
  have fine: "list_all (record_fine id) [JObj [(KStr ''i'', JInt 1)]]" by (simp add: record_fine_def)
  have fetch: "ih_fetch demo_ingestion (JObj []) None = (Inr [JObj [(KStr ''i'', JInt 1)]], None)"
    by (simp add: demo_ingestion_def)
  have put: "\<exists>w'. write_jsonl_to_s3 (ih_s3 demo_ingestion) (ih_bucket demo_ingestion) k
      [JObj [(KStr ''i'', JInt 1)]] w = (Inr (s3_uri ''raw'' k), w')" for k w
    unfolding write_jsonl_to_s3_def dumps_all_fine [OF fine]
    by (simp add: write_object_to_s3_def demo_ingestion_def del: json_text.simps)
  have key: "ih_build_key demo_ingestion ev w = (Inr ''records.jsonl'', w)" for ev w
    by (simp add: demo_ingestion_def default_s3_key_def)
  from put [of "''records.jsonl''" None] obtain v where
    "write_jsonl_to_s3 (ih_s3 demo_ingestion) (ih_bucket demo_ingestion) ''records.jsonl''
      [JObj [(KStr ''i'', JInt 1)]] None = (Inr (s3_uri ''raw'' ''records.jsonl''), v)" by blast
  then have "ingest demo_ingestion (JObj []) None = (Inr (ingest_result 1 (s3_uri ''raw'' ''records.jsonl'')), v)"
    unfolding ingest_def fetch by (simp add: key)
  then have "\<exists>resp. r = Inr resp \<and> rs_status resp = 200"
    using h unfolding handle_def by (simp add: envelope_ok) auto
  then obtain resp where r: "r = Inr resp" "rs_status resp = 200" by blast
  from conjunct2 [OF ingestion_handled [OF h, of id]] r fetch fine obtain rq v where
    "ih_s3 demo_ingestion rq v = (Inr (), w')"
    "List.map (json_loads id) (splitlines (sr_body rq)) = List.map Inr [JObj [(KStr ''i'', JInt 1)]]"
    by blast
  with h r show ?thesis by (auto simp: demo_ingestion_def)
qed

end
