(* ===== verification/Spec2Isabelle.thy ===== *)
theory Spec2Isabelle
  imports Repository_Tests Member_Order
    Guarded_Action Handlers
begin

text \<open>
  A verification development for the Python packages of cubiczan-resilience:
  \<^verbatim>\<open>python/src/cubiczan_resilience\<close> (the toolkit), \<^verbatim>\<open>onchain/python/resilient_onchain\<close> (on-chain
  writes) and \<^verbatim>\<open>scope-core/src/scope_core\<close> (Athena queries and Lambda handlers). All paths below are
  relative to the repository.

  \<^bold>\<open>The program.\<close> The toolkit protects calls of unreliable services: \<^verbatim>\<open>resilient\<close> retries a function
  under a deadline, asking a \<^verbatim>\<open>CircuitBreaker\<close> before every attempt and telling it the outcome;
  \<^verbatim>\<open>resolve_tiered\<close> falls back from a live source to a cache to a mock, with a label;
  \<^verbatim>\<open>IdempotencyStore\<close>s record which operations were done, the file one through \<^verbatim>\<open>atomic_write\<close>;
  \<^verbatim>\<open>AuditLedger\<close> writes a chain of signed records, one JSON text a line. The on-chain client has a
  breaker and a retry loop of its own, with fee bumps and nonces. The scope package polls Athena
  queries to an end and writes JSON Lines to S3.

  \<^bold>\<open>The model.\<close> A Python object is a record of its attributes, and a method a function on it. What the
  code calls but does not define (the wrapped function, RPC and boto3 clients, clocks, sleeps, the random
  source, the operating system) is a callback on a world of any type: it takes the world and returns a
  result or the exception it raises, and the next world. Exceptions are values with their method
  resolution order. A method under a lock is one step; threads and tasks that share an object
  interleave these steps in any order. Floats are exact rationals, strings are lists of code points
  below 256; the text of a float inside a message comes from \<^verbatim>\<open>repr\<close> as a parameter, where no format
  is given.

  \<^bold>\<open>The theories\<close>, in the order they build on each other:

  \<^item> \<open>Prelude\<close> (exceptions, callbacks, clocks, the float range), \<open>Py_String\<close> (the \<^verbatim>\<open>str\<close> methods),
    \<open>Json\<close>, \<open>Json_Roundtrip\<close>, \<open>Json_Reader\<close> (\<^verbatim>\<open>json.dumps\<close> and \<^verbatim>\<open>json.loads\<close>: the round trip,
    totality of the reader, what it returns), \<open>Line_Codec\<close> (one value per line: the interface
    \<open>line_codec\<close> of both JSON Lines formats).
  \<^item> \<open>Breaker_Contract\<close>: the interface \<open>breaker_contract\<close> of both circuit breakers, with what any burst
    of failures does. \<open>Circuit\<close> models \<^verbatim>\<open>circuit.py\<close>: the state machine, its invariant over all
    reachable objects, its edges, the bound on half-open calls, and the state after any history of calls as
    its trailing failures and the queries since determine it.
  \<^item> \<open>Retry\<close> models \<^verbatim>\<open>retry.py\<close>: both drivers refine one abstract retry loop, which gives their
    outcomes, the bounds on effort, the agreement of the two, and that no half-open slot is lost.
    \<open>Shared_Breaker\<close> cuts the drivers into steps and runs any number of them on one breaker,
    interleaved in any order: the interface \<open>slot_client\<close> of a caller gives that every half-open slot
    has its owner, so the circuit is never wedged; every caller ends, and with what its own function
    can return or raise; a late failure lets more trials run than the maximum. \<open>Recovery\<close> bounds the drivers from below: transient failures are survived, and a
    circuit that opened closes again and \<^verbatim>\<open>resolve_tiered\<close> over it is live again.
  \<^item> \<open>Onchain\<close> models \<^verbatim>\<open>client.py\<close>: what is submitted (a log of fetches and transactions: each transaction replaces the one
    before at strictly higher fees, or is made from the state just fetched), for which reasons a send is refused, when it returns, the schedule it follows through transient failures, and two ways it sends too often.
  \<^item> \<open>Tiered\<close> models \<^verbatim>\<open>tiered.py\<close>: results are honestly labelled, with the source, age and errors they have. \<open>Verification_Gate\<close> models
    \<^verbatim>\<open>verification_gate.py\<close>: status, confidence and evidence agree. \<open>Fastapi_Helpers\<close> models
    \<^verbatim>\<open>fastapi_helpers.py\<close>: authentication fails closed.
  \<^item> \<open>Audit_Ledger\<close> models \<^verbatim>\<open>audit_ledger.py\<close> for any keyed hash; \<open>Audit_Properties\<close> shows that
    appended ledgers verify and resume, tamper evidence and what a verdict means; \<open>Audit_Hazards\<close> shows
    what breaks a ledger and that its path is confined. \<open>Hmac_Sha256\<close> defines the hash itself,
    \<open>Hmac_Vector\<close> evaluates one digest block by block, and \<open>Ledger_Mac\<close> puts the two together through the
    interface \<open>signature_scheme\<close>, with the signature that the tests of all ports pin; \<open>Member_Order\<close> shows that signatures and verdicts do not
    depend on the order in which members are written.
  \<^item> \<open>Atomic\<close> models \<^verbatim>\<open>atomic.py\<close> as a run over the states of the disk, any call of which may fail, and
    provides the interface \<open>atomic_writer\<close>. \<open>Store_Contract\<close> is the protocol \<^verbatim>\<open>IdempotencyStore\<close> as
    the interface \<open>idempotency_store\<close>; \<open>Idempotency\<close> models both stores of \<^verbatim>\<open>idempotency.py\<close> as
    instances of it: the first writer wins, results survive a restart, a crash loses nothing, and what a
    failed flush leaves. \<open>Shared_Store\<close> puts several stores on one file: claims made in sessions under a
    lock refine a store in memory whose claims may fail (the interface \<open>clean_store\<close>), so each key is
    executed once; a lock around the claims of long-lived objects is not enough. \<open>Guarded_Action\<close> runs
    any number of requests (ask, claim, act or replay), interleaved on one store: the action of a key
    runs at most once, and all answers agree.
  \<^item> \<open>Polling\<close> models \<^verbatim>\<open>poll_until_terminal\<close> of \<^verbatim>\<open>utils.py\<close>, \<open>Athena\<close> models \<^verbatim>\<open>athena.py\<close>, and
    \<open>Handlers\<close> the rest of \<^verbatim>\<open>utils.py\<close> and \<^verbatim>\<open>handlers.py\<close>: polling ends, a query is a success only
    if the service said so, each entity gets one result, of its own query or its own error, ingestion answers and what it wrote reads back.
  \<^item> \<open>Repository_Tests\<close> runs tests of the Python packages on the model, under their own names.
  \<^item> This theory: resolution over a function whose circuit is open.

  \<^bold>\<open>Termination and fuel.\<close> The retry loops recurse over the list of attempts. The reader of JSON nests
  as deep as its input says, and recurses on fuel: twice the length of the text plus one is enough for
  any text (\<open>json_parse_total\<close>), so running out of it is not an outcome of \<^verbatim>\<open>json.loads\<close>. The poll loop
  has no bound in the code: it is a partial function whose value \<open>None\<close> is a loop that never returns, and
  it is shown to return whenever the interval is positive and sleeping moves the clock.

  \<^bold>\<open>What is assumed.\<close> Hypotheses about code outside the sources are named in the statements that use
  them: \<open>clocked\<close> and \<open>client_clocked\<close> (the monotonic clock does not go back, a sleep lasts as long as
  asked), \<open>float_codec\<close> (a float is read back as the text it is written as), \<open>float_text\<close> (the text of a finite float
  has digits, a point, signs and an \<^verbatim>\<open>e\<close>), \<open>logs\<close> and \<open>records\<close> (only the provider's own calls show in its log), \<open>fresh_tmp\<close> (\<^verbatim>\<open>mkstemp\<close>
  picks an unused name), and the range of the random source.

  \<^bold>\<open>What is not modelled.\<close> Rounding, infinities and NaN of floats (a JSON float is its text); code points above 255; logging; the event loop beyond the choice
  of \<^verbatim>\<open>wait_for\<close> between finishing and expiring; FastAPI itself; creating parent directories; symbolic
  links. The \<^verbatim>\<open>__init__.py\<close> files only re-export. The TypeScript, Rust and JavaScript packages are
  ports or other programs and are left aside.
\<close>

section \<open>Components together\<close>

text \<open>C23: resolution over a protected source: let the live source of \<^verbatim>\<open>resolve_tiered\<close> be a function
  decorated with \<^verbatim>\<open>resilient\<close> whose circuit is open and cooling down. Then the function is not
  called: the run is the one with a live source that only raises \<^verbatim>\<open>CircuitOpenError\<close> with the
  remaining cooldown; and a value that comes out is labelled as degraded, from the cache or the mock,
  with that error as the first failure of its trail.\<close>

theorem degraded_while_open:
  assumes "rp_breaker p = Some (core_breaker bclk)" and "1 \<le> rp_max_attempts p"
    and "cb_state cb = OPEN" and "cb_opened_at cb = Some t0"
    and "bclk v = (t, v)" and "t - t0 < cb_cooldown cb"
  shows "resolve_tiered now (run_sync clk sleep fn p) cache mock max_age hard on_failure miss (cb, v) =
      resolve_tiered now (\<lambda>w. (Inl (circuit_open_error (cb_name cb) (cb_cooldown cb - (t - t0))), w))
        cache mock max_age hard on_failure miss (cb, v) \<and>
    (\<forall>r w'. resolve_tiered now (run_sync clk sleep fn p) cache mock max_age hard on_failure miss (cb, v) =
        (Resolved r, w') \<longrightarrow>
      tr_tier r \<in> {CACHE, MOCK} \<and> tr_degraded r \<and>
      (\<exists>rest. tr_failures r =
         \<lparr>tf_tier = LIVE, tf_error = circuit_open_error (cb_name cb) (cb_cooldown cb - (t - t0))\<rparr> # rest))"
proof -
  let ?e = "circuit_open_error (cb_name cb) (cb_cooldown cb - (t - t0))"
  have live: "run_sync clk sleep fn p (cb, v) = (Inl ?e, (cb, v))"
    by (rule open_circuit_short_circuits [OF assms])
  have same: "resolve_tiered now (run_sync clk sleep fn p) cache mock max_age hard on_failure miss (cb, v) =
      resolve_tiered now (\<lambda>w. (Inl ?e, w)) cache mock max_age hard on_failure miss (cb, v)"
    by (simp add: resolve_tiered_def live)
  show ?thesis
    using same live_failure_kept [where live = "run_sync clk sleep fn p", OF live] by blast
qed

text \<open>An example: the circuit opened at time 5 with a cooldown of 10 seconds; at time 8 the cached value
  is served.\<close>

theorem degraded_while_open_witness:
  "\<exists>r w'. resolve_tiered (idle 8) (run_sync (idle 0) (\<lambda>d w. w) (idle (Inr ''live''))
        (demo_policy (Some (core_breaker fake_clock)))) (Some (idle (Inr (Cached ''cached'' 2)))) None
        300 None None ''none'' (tripped, 8) = (Resolved r, w') \<and>
     tr_value r = ''cached'' \<and> tr_tier r \<in> {CACHE, MOCK} \<and> tr_degraded r"
proof -
  let ?p = "demo_policy (Some (core_breaker fake_clock)) :: (breaker \<times> rat) policy"
  let ?run = "resolve_tiered (idle 8) (run_sync (idle 0) (\<lambda>d w. w) (idle (Inr ''live'')) ?p)
      (Some (idle (Inr (Cached ''cached'' 2)))) None 300 None None ''none'' (tripped, 8)"
  have "rp_breaker ?p = Some (core_breaker fake_clock)" "1 \<le> rp_max_attempts ?p" by simp_all
  note d = degraded_while_open [OF this, of tripped 5 8 8 "idle 8" "idle 0" "\<lambda>d w. w" "idle (Inr ''live'')"
      "Some (idle (Inr (Cached ''cached'' 2)))" None 300 None None "''none''"]
  obtain r w' where r: "?run = (Resolved r, w')" "tr_value r = ''cached''"
    using d by (auto simp: tripped_simp sample_breaker_def resolve_tiered_def fail_def try_cache_def
        read_hit_def too_old_def)
  with d show ?thesis by (auto simp: tripped_simp sample_breaker_def)
qed

end
